(* ===== verification/C_Base.thy ===== *)
theory C_Base
  imports Main "HOL-Library.Word"
begin

text \<open>
  The vocabulary every component shares: the ways a C function can end (a value, a fault, or no
  return at all), signed \<open>int\<close> arithmetic with its overflow made visible, C's truncating
  remainder, and the list facts the components reuse. No definition here models one function of
  the repository; the component theories do that.
\<close>

section \<open>Outcomes of C code\<close>

text \<open>
  What C leaves undefined, or what ends the process, is a value of \<open>c_error\<close>. A function that may
  fault returns \<open>'a res\<close>; one whose loop may also run forever returns \<open>'a run\<close>, where \<open>None\<close> means
  that it does not return.
\<close>

datatype c_error =
    NullDeref
  | UseAfterFree
  | BadFree
  | OutOfBounds
  | SignedOverflow
  | DivByZero
  | Uninitialised
  | Exited int

type_synonym 'a res = "c_error + 'a"
type_synonym 'a run = "(c_error + 'a) option"

definition bindR :: "'a res \<Rightarrow> ('a \<Rightarrow> 'b res) \<Rightarrow> 'b res" where
  "bindR m f = (case m of Inl e \<Rightarrow> Inl e | Inr x \<Rightarrow> f x)"

lemma bindR_simps [simp]:
  "bindR (Inr x) f = f x"
  "bindR (Inl e) f = Inl e"
  by (simp_all add: bindR_def)

lemma bindR_eq_Inr [simp]:
  "bindR m f = Inr y \<longleftrightarrow> (\<exists>x. m = Inr x \<and> f x = Inr y)"
  by (cases m) simp_all

lemma bindR_assoc: "bindR (bindR m f) g = bindR m (\<lambda>x. bindR (f x) g)"
  by (cases m) simp_all

definition returns :: "'a \<Rightarrow> 'a run" where
  "returns x = Some (Inr x)"

definition faults :: "c_error \<Rightarrow> 'a run" where
  "faults e = Some (Inl e)"

definition lift_res :: "'a res \<Rightarrow> 'a run" where
  "lift_res r = Some r"

definition bindM :: "'a run \<Rightarrow> ('a \<Rightarrow> 'b run) \<Rightarrow> 'b run" where
  "bindM m f = (case m of None \<Rightarrow> None | Some (Inl e) \<Rightarrow> faults e | Some (Inr x) \<Rightarrow> f x)"

lemma bindM_simps [simp]:
  "bindM (returns x) f = f x"
  "bindM (faults e) f = faults e"
  "bindM None f = None"
  "bindM (lift_res (Inr x)) f = f x"
  "bindM (lift_res (Inl e)) f = faults e"
  by (simp_all add: bindM_def returns_def faults_def lift_res_def)

lemma lift_res_simps [simp]:
  "lift_res (Inr x) = returns x"
  "lift_res (Inl e) = faults e"
  by (simp_all add: lift_res_def returns_def faults_def)

lemma outcome_distinct [simp]:
  "returns x = returns y \<longleftrightarrow> x = y"
  "faults e = faults e' \<longleftrightarrow> e = e'"
  "returns x \<noteq> faults e"
  "faults e \<noteq> returns x"
  "returns x \<noteq> None"
  "faults e \<noteq> None"
  by (simp_all add: returns_def faults_def)

text \<open>Loops that may not return recurse under \<open>bindM\<close>; this lets their equations be accepted.\<close>

lemma bindM_bind: "bindM m f = Option.bind m (\<lambda>r. case r of Inl e \<Rightarrow> faults e | Inr x \<Rightarrow> f x)"
  by (cases m) (auto simp: bindM_def)

lemma bindM_mono [partial_function_mono]:
  assumes "mono_option B" and "\<And>y. mono_option (\<lambda>f. C y f)"
  shows "mono_option (\<lambda>f. bindM (B f) (\<lambda>y. C y f))"
  unfolding bindM_bind
proof (rule bind_mono [OF assms(1)])
  fix r
  show "mono_option (\<lambda>f. case r of Inl e \<Rightarrow> faults e | Inr x \<Rightarrow> C x f)"
  proof (cases r)
    case (Inl e)
    then show ?thesis by (simp add: monotone_def option.leq_refl)
  next
    case (Inr x)
    then show ?thesis using assms(2) [of x] by simp
  qed
qed

section \<open>Signed integers of the platform\<close>

text \<open>
  \<open>int\<close> has 32 bits. A signed result outside its range is undefined behaviour, so the checked
  operations report it instead of wrapping.
\<close>

definition int_min :: int where "int_min = - (2 ^ 31)"
definition int_max :: int where "int_max = 2 ^ 31 - 1"

definition in_int :: "int \<Rightarrow> bool" where
  "in_int x \<longleftrightarrow> int_min \<le> x \<and> x \<le> int_max"

lemmas int_range_defs = in_int_def int_min_def int_max_def

definition c_add :: "int \<Rightarrow> int \<Rightarrow> int res" where
  "c_add a b = (if in_int (a + b) then Inr (a + b) else Inl SignedOverflow)"

definition c_sub :: "int \<Rightarrow> int \<Rightarrow> int res" where
  "c_sub a b = (if in_int (a - b) then Inr (a - b) else Inl SignedOverflow)"

text \<open>C's \<open>%\<close>: the remainder has the sign of the dividend; a zero divisor is undefined.\<close>

definition c_mod :: "int \<Rightarrow> int \<Rightarrow> int res" where
  "c_mod a b = (if b = 0 then Inl DivByZero else Inr (sgn a * (\<bar>a\<bar> mod \<bar>b\<bar>)))"

lemma c_mod_nonneg: "0 \<le> a \<Longrightarrow> 0 < b \<Longrightarrow> c_mod a b = Inr (a mod b)"
  by (auto simp: c_mod_def sgn_if)

text \<open>Array accesses, by a C index.\<close>

definition arr_get :: "'a list \<Rightarrow> int \<Rightarrow> 'a res" where
  "arr_get xs i = (if 0 \<le> i \<and> i < int (length xs) then Inr (xs ! nat i) else Inl OutOfBounds)"

definition arr_set :: "'a list \<Rightarrow> int \<Rightarrow> 'a \<Rightarrow> 'a list res" where
  "arr_set xs i v =
     (if 0 \<le> i \<and> i < int (length xs) then Inr (xs[nat i := v]) else Inl OutOfBounds)"

lemma arr_get_ok [simp]:
  "0 \<le> i \<Longrightarrow> i < int (length xs) \<Longrightarrow> arr_get xs i = Inr (xs ! nat i)"
  by (simp add: arr_get_def)

lemma arr_set_ok [simp]:
  "0 \<le> i \<Longrightarrow> i < int (length xs) \<Longrightarrow> arr_set xs i v = Inr (xs[nat i := v])"
  by (simp add: arr_set_def)

text \<open>Writing a list into an array: as a function, and as the checked operation of a model.\<close>

definition overwrite :: "'a list \<Rightarrow> nat \<Rightarrow> 'a list \<Rightarrow> 'a list" where
  "overwrite mem i s = take i mem @ s @ drop (i + length s) mem"

lemma overwrite_simps [simp]:
  "overwrite mem i [] = mem"
  "i + length s \<le> length mem \<Longrightarrow> length (overwrite mem i s) = length mem"
  by (simp_all add: overwrite_def)

lemma overwrite_Cons:
  "i < length mem \<Longrightarrow> overwrite (mem[i := c]) (Suc i) s = overwrite mem i (c # s)"
  by (simp add: overwrite_def take_Suc_conv_app_nth)

lemma overwrite_snoc:
  "i + length s < length mem \<Longrightarrow>
   (overwrite mem i s)[i + length s := c] = overwrite mem i (s @ [c])"
proof -
  assume less: "i + length s < length mem"
  then have "drop (i + length s) mem = mem ! (i + length s) # drop (Suc (i + length s)) mem"
    by (simp add: Cons_nth_drop_Suc)
  with less show ?thesis by (simp add: overwrite_def list_update_append min_def)
qed

lemma overwrite_step:
  "to < length mem \<Longrightarrow>
   overwrite (mem[to := c]) (to + 1) s = overwrite mem to (c # s)"
  using overwrite_Cons [of to mem c s] by simp

lemma overwrite_overwrite:
  assumes "i + length s \<le> length mem"
  shows "overwrite (overwrite mem i s) (i + length s) t = overwrite mem i (s @ t)"
proof -
  have "min (length mem) i = i" using assms by simp
  then show ?thesis by (simp add: overwrite_def add.commute add.left_commute)
qed

lemma overwrite_update [simp]: "overwrite (mem[i := c]) i (x # s) = overwrite mem i (x # s)"
  by (simp add: overwrite_def)

lemma overwrite_one: "i < length mem \<Longrightarrow> mem[i := c] = overwrite mem i [c]"
  using overwrite_step [of i mem c "[]"] by simp

definition store :: "'a list \<Rightarrow> int \<Rightarrow> 'a list \<Rightarrow> 'a list res" where
  "store mem i s =
     (if 0 \<le> i \<and> i + int (length s) \<le> int (length mem)
      then Inr (overwrite mem (nat i) s) else Inl OutOfBounds)"

lemma store_ok [simp]:
  "i + length s \<le> length mem \<Longrightarrow> store mem (int i) s = Inr (overwrite mem i s)"
  by (simp add: store_def flip: of_nat_add)

section \<open>Counting in lists\<close>

text \<open>How many elements of a list satisfy a predicate, and how one update changes that number.\<close>

definition count_where :: "('a \<Rightarrow> bool) \<Rightarrow> 'a list \<Rightarrow> nat" where
  "count_where P xs = length (filter P xs)"

lemma count_where_simps [simp]:
  "count_where P [] = 0"
  "count_where P (x # xs) = (if P x then Suc (count_where P xs) else count_where P xs)"
  "count_where P (xs @ ys) = count_where P xs + count_where P ys"
  by (simp_all add: count_where_def)

lemma count_where_le_length: "count_where P xs \<le> length xs"
  by (simp add: count_where_def)

lemma count_where_replicate: "count_where P (replicate n x) = (if P x then n else 0)"
  by (induction n) auto

lemma count_where_update:
  "i < length xs \<Longrightarrow>
   count_where P (xs[i := v]) + (if P (xs ! i) then 1 else 0) =
   count_where P xs + (if P v then 1 else 0)"
proof (induction xs arbitrary: i)
  case Nil
  then show ?case by simp
next
  case (Cons x xs)
  show ?case
  proof (cases i)
    case 0
    then show ?thesis by simp
  next
    case (Suc j)
    with Cons.prems have "j < length xs" by simp
    from Cons.IH [OF this] Suc show ?thesis by simp
  qed
qed

lemma count_move:
  assumes "j < length ws"
  shows "int (count_where P (ws[j := w])) =
    int (count_where P ws) + (if P w then 1 else 0) - (if P (ws ! j) then 1 else 0)"
  using count_where_update [OF assms, of P w] by (auto split: if_splits)

lemma count_where_stay:
  "i < length xs \<Longrightarrow> P (xs ! i) = P v \<Longrightarrow> count_where P (xs[i := v]) = count_where P xs"
  using count_where_update [of i xs P v] by auto

lemma count_where_enter:
  "i < length xs \<Longrightarrow> \<not> P (xs ! i) \<Longrightarrow> P v \<Longrightarrow>
   count_where P (xs[i := v]) = Suc (count_where P xs)"
  using count_where_update [of i xs P v] by auto

lemma count_where_leave:
  "i < length xs \<Longrightarrow> P (xs ! i) \<Longrightarrow> \<not> P v \<Longrightarrow>
   Suc (count_where P (xs[i := v])) = count_where P xs"
  using count_where_update [of i xs P v] by auto

lemma count_where_pos: "i < length xs \<Longrightarrow> P (xs ! i) \<Longrightarrow> 0 < count_where P xs"
proof -
  assume "i < length xs" "P (xs ! i)"
  then have "xs ! i \<in> set (filter P xs)" by simp
  then show ?thesis unfolding count_where_def by (rule length_pos_if_in_set)
qed

text \<open>One update of a list changes a sum over it by the difference of the two terms.\<close>

lemma sum_list_map_update:
  fixes f :: "'a \<Rightarrow> 'b::comm_monoid_add"
  shows "i < length xs \<Longrightarrow>
    sum_list (map f (xs[i := v])) + f (xs ! i) = sum_list (map f xs) + f v"
proof (induction xs arbitrary: i)
  case Nil
  then show ?case by simp
next
  case (Cons x xs)
  show ?case
  proof (cases i)
    case 0
    then show ?thesis by (simp add: ac_simps)
  next
    case (Suc j)
    with Cons.prems Cons.IH [of j] show ?thesis by (simp add: ac_simps)
  qed
qed

section \<open>Sums over lists\<close>

lemma sum_list_at:
  "i < length xs \<Longrightarrow>
   sum_list (map f (xs[i := v])) + f (xs ! i) = sum_list (map f xs) + (f v :: 'b :: comm_monoid_add)"
proof (induction xs arbitrary: i)
  case (Cons x xs)
  show ?case
  proof (cases i)
    case 0
    then show ?thesis by (simp add: ac_simps)
  next
    case (Suc k)
    with Cons have "sum_list (map f (xs[k := v])) + f (xs ! k) = sum_list (map f xs) + f v" by simp
    then have "f x + (sum_list (map f (xs[k := v])) + f (xs ! k)) = f x + (sum_list (map f xs) + f v)"
      by simp
    with Suc show ?thesis by (simp add: add.assoc)
  qed
qed simp

lemma sum_list_within:
  "\<forall>x \<in> set xs. 0 \<le> f x \<and> f x \<le> (b::int) \<Longrightarrow>
   0 \<le> sum_list (map f xs) \<and> sum_list (map f xs) \<le> b * int (length xs)"
  by (induction xs) (auto simp: algebra_simps)

end
