(* ===== verification/Node_Heap.thy ===== *)
theory Node_Heap
  imports C_Base
begin

text \<open>
  The memory behind \<open>pipe/linkList.c\<close>: a store of \<open>listNode\<close> cells addressed by numbers, with
  \<open>malloc\<close> and \<open>free\<close>, and the paths that linked cells form. An address is handed out once and
  is never reused, so an access through a pointer to freed memory is visible as a fault.
\<close>

section \<open>Cells, pointers and accesses\<close>

record node =
  data :: int
  nxt :: "nat option"

type_synonym ptr = "nat option"

text \<open>
  \<open>brk\<close> is the next address; \<open>moom\<close> says which allocations fail and \<open>junk\<close> what fresh memory
  holds, both unknown to the code.
\<close>

record heap =
  cells :: "nat \<Rightarrow> node option"
  brk :: nat
  moom :: "nat \<Rightarrow> bool"
  junk :: node

definition malloc_node :: "heap \<Rightarrow> ptr \<times> heap" where
  "malloc_node h =
     (let a = brk h; h' = h\<lparr>brk := Suc a\<rparr>
      in if moom h a then (None, h') else (Some a, h'\<lparr>cells := (cells h)(a \<mapsto> junk h)\<rparr>))"

definition node_at :: "heap \<Rightarrow> ptr \<Rightarrow> node res" where
  "node_at h p =
     (case p of None \<Rightarrow> Inl NullDeref
      | Some a \<Rightarrow> (case cells h a of None \<Rightarrow> Inl UseAfterFree | Some n \<Rightarrow> Inr n))"

definition set_data :: "heap \<Rightarrow> ptr \<Rightarrow> int \<Rightarrow> heap res" where
  "set_data h p v =
     bindR (node_at h p) (\<lambda>n. Inr (h\<lparr>cells := (cells h)(the p \<mapsto> n\<lparr>data := v\<rparr>)\<rparr>))"

definition set_nxt :: "heap \<Rightarrow> ptr \<Rightarrow> ptr \<Rightarrow> heap res" where
  "set_nxt h p q =
     bindR (node_at h p) (\<lambda>n. Inr (h\<lparr>cells := (cells h)(the p \<mapsto> n\<lparr>nxt := q\<rparr>)\<rparr>))"

text \<open>\<open>free(NULL)\<close> does nothing; freeing what is not a live cell is an error.\<close>

definition free_node :: "heap \<Rightarrow> ptr \<Rightarrow> heap res" where
  "free_node h p =
     (case p of None \<Rightarrow> Inr h
      | Some a \<Rightarrow> (case cells h a of None \<Rightarrow> Inl BadFree
                   | Some _ \<Rightarrow> Inr (h\<lparr>cells := (cells h)(a := None)\<rparr>)))"

text \<open>No live cell lies at or above \<open>brk\<close>: what \<open>malloc\<close> returns is fresh.\<close>

definition heap_ok :: "heap \<Rightarrow> bool" where
  "heap_ok h \<longleftrightarrow> (\<forall>a \<ge> brk h. cells h a = None)"

definition empty_heap :: heap where
  "empty_heap = \<lparr>cells = (\<lambda>_. None), brk = 0, moom = (\<lambda>_. False),
                 junk = \<lparr>data = -1, nxt = Some 7\<rparr>\<rparr>"

lemma heap_ok_empty [simp]: "heap_ok empty_heap"
  by (simp add: heap_ok_def empty_heap_def)

lemma heap_okD: "heap_ok h \<Longrightarrow> cells h a = Some n \<Longrightarrow> a < brk h"
  by (metis heap_ok_def linorder_not_less option.distinct(1))

lemma heap_ok_upd [intro]:
  "heap_ok h \<Longrightarrow> a < brk h \<Longrightarrow> heap_ok (h\<lparr>cells := (cells h)(a := v)\<rparr>)"
  by (auto simp: heap_ok_def)

lemma node_at_Some [simp]: "cells h a = Some n \<Longrightarrow> node_at h (Some a) = Inr n"
  by (simp add: node_at_def)

lemma node_at_None [simp]: "node_at h None = Inl NullDeref"
  by (simp add: node_at_def)

lemma set_nxt_Some:
  "cells h a = Some n \<Longrightarrow>
   set_nxt h (Some a) q = Inr (h\<lparr>cells := (cells h)(a \<mapsto> n\<lparr>nxt := q\<rparr>)\<rparr>)"
  by (simp add: set_nxt_def)

lemma set_data_Some:
  "cells h a = Some n \<Longrightarrow>
   set_data h (Some a) v = Inr (h\<lparr>cells := (cells h)(a \<mapsto> n\<lparr>data := v\<rparr>)\<rparr>)"
  by (simp add: set_data_def)

lemma node_upd_both [simp]: "(n::node)\<lparr>data := v, nxt := q\<rparr> = \<lparr>data = v, nxt = q\<rparr>"
  by (cases n) simp

lemma node_upd_data [simp]: "\<lparr>data = u, nxt = q\<rparr>\<lparr>data := v\<rparr> = \<lparr>data = v, nxt = q\<rparr>"
  by simp

text \<open>
  \<open>frame h h' A\<close>: the step from \<open>h\<close> to \<open>h'\<close> allocates and frees nothing and writes only cells of
  \<open>A\<close>.
\<close>

definition frame :: "heap \<Rightarrow> heap \<Rightarrow> nat set \<Rightarrow> bool" where
  "frame h h' A \<longleftrightarrow>
     brk h' = brk h \<and> moom h' = moom h \<and> junk h' = junk h \<and>
     dom (cells h') = dom (cells h) \<and> (\<forall>b. b \<notin> A \<longrightarrow> cells h' b = cells h b)"

lemma frame_refl [simp]: "frame h h A"
  by (simp add: frame_def)

lemma frame_trans: "frame h h1 A \<Longrightarrow> frame h1 h2 A \<Longrightarrow> frame h h2 A"
  by (simp add: frame_def)

lemma frame_mono: "frame h h' A \<Longrightarrow> A \<subseteq> B \<Longrightarrow> frame h h' B"
  by (auto simp: frame_def)

lemma frame_upd:
  "cells h a = Some n \<Longrightarrow> a \<in> A \<Longrightarrow> frame h (h\<lparr>cells := (cells h)(a \<mapsto> m)\<rparr>) A"
  by (auto simp: frame_def)

lemma frame_cells: "frame h h' A \<Longrightarrow> b \<notin> A \<Longrightarrow> cells h' b = cells h b"
  by (simp add: frame_def)

lemma heap_ok_dom: "heap_ok h \<longleftrightarrow> dom (cells h) \<subseteq> {..<brk h}"
  by (auto simp: heap_ok_def dom_def) (metis leI option.distinct(1))

lemma frame_heap_ok: "frame h h' A \<Longrightarrow> heap_ok h \<Longrightarrow> heap_ok h'"
  by (simp add: frame_def heap_ok_dom)

section \<open>Paths\<close>

text \<open>
  \<open>path c p ns q\<close>: following \<open>next\<close> from \<open>p\<close> visits exactly the cells of \<open>ns\<close> (address and data of
  each) and ends at \<open>q\<close>.
\<close>

fun path :: "(nat \<Rightarrow> node option) \<Rightarrow> ptr \<Rightarrow> (nat \<times> int) list \<Rightarrow> ptr \<Rightarrow> bool" where
  "path c p [] q \<longleftrightarrow> p = q"
| "path c p ((a, v) # ns) q \<longleftrightarrow>
     p = Some a \<and> (case c a of None \<Rightarrow> False | Some n \<Rightarrow> data n = v \<and> path c (nxt n) ns q)"

lemma path_Cons_iff:
  "path c p ((a, v) # ns) q \<longleftrightarrow>
   p = Some a \<and> (\<exists>n. c a = Some n \<and> data n = v \<and> path c (nxt n) ns q)"
  by (cases "c a") auto

declare path.simps(2) [simp del]
declare path_Cons_iff [simp]

lemma path_append: "path c p (ns @ ms) q \<longleftrightarrow> (\<exists>r. path c p ns r \<and> path c r ms q)"
  by (induction ns arbitrary: p) (auto, blast+)

lemma path_upd [simp]: "a \<notin> fst ` set ns \<Longrightarrow> path (c(a := v)) p ns q = path c p ns q"
  by (induction ns arbitrary: p) auto

lemma path_cong:
  "path c p ns q \<Longrightarrow> (\<And>a. a \<in> fst ` set ns \<Longrightarrow> c' a = c a) \<Longrightarrow> path c' p ns q"
proof (induction ns arbitrary: p)
  case Nil
  then show ?case by simp
next
  case (Cons x ns)
  obtain a v where x: "x = (a, v)" by (cases x)
  with Cons.prems show ?case by (auto intro: Cons.IH)
qed

lemma path_live: "path c p ns q \<Longrightarrow> a \<in> fst ` set ns \<Longrightarrow> \<exists>n. c a = Some n"
proof (induction ns arbitrary: p)
  case Nil
  then show ?case by simp
next
  case (Cons x ns)
  obtain b v where x: "x = (b, v)" by (cases x)
  show ?case
  proof (cases "a = b")
    case True
    with Cons.prems x show ?thesis by auto
  next
    case False
    with Cons.prems(2) x have "a \<in> fst ` set ns" by simp
    moreover from Cons.prems(1) x obtain n :: node where "path c (nxt n) ns q" by auto
    ultimately show ?thesis by (rule Cons.IH [rotated])
  qed
qed

lemma path_fresh:
  "heap_ok h \<Longrightarrow> path (cells h) p ns q \<Longrightarrow> a \<in> fst ` set ns \<Longrightarrow> a < brk h"
  by (blast dest: path_live heap_okD)

lemma path_brk_notin:
  "heap_ok h \<Longrightarrow> path (cells h) p ns q \<Longrightarrow> brk h \<notin> fst ` set ns"
  by (blast dest: path_fresh)

lemma path_None_unique:
  "path c p ns None \<Longrightarrow> path c p ms None \<Longrightarrow> ns = ms"
proof (induction ns arbitrary: p ms)
  case Nil
  then show ?case by (cases ms) auto
next
  case (Cons x ns)
  obtain a v where x: "x = (a, v)" by (cases x)
  with Cons show ?case by (cases ms) auto
qed

lemma path_hd: "path c p (x # ns) q \<Longrightarrow> p = Some (fst x)"
  by (cases x) simp

text \<open>A path that ends in NULL visits no cell twice.\<close>

lemma path_tail_notin: "path c (Some a) ((a, v) # ns) None \<Longrightarrow> a \<notin> fst ` set ns"
proof
  assume p: "path c (Some a) ((a, v) # ns) None" and "a \<in> fst ` set ns"
  then obtain w where "(a, w) \<in> set ns" by auto
  then obtain us vs where ns: "ns = us @ (a, w) # vs" by (auto dest: split_list)
  from p have "path c (Some a) ((a, w) # vs) None"
    unfolding ns by (auto simp: path_append)
  from path_None_unique [OF this p] show False unfolding ns by simp
qed

lemma path_None_distinct: "path c p ns None \<Longrightarrow> distinct (map fst ns)"
proof (induction ns arbitrary: p)
  case Nil
  then show ?case by simp
next
  case (Cons x ns)
  obtain a v where x: "x = (a, v)" by (cases x)
  have "a \<notin> fst ` set ns"
    using Cons.prems x path_tail_notin [of c a v ns] by auto
  with Cons x show ?case by auto
qed

text \<open>Linking a new cell in after a cell of the path, and unlinking a cell.\<close>

lemma path_insert_after:
  assumes p: "path c p (pre @ (t, w) # post) None"
    and b: "b \<notin> fst ` set (pre @ (t, w) # post)" and n: "c t = Some n"
  shows "path (c(b \<mapsto> \<lparr>data = v, nxt = nxt n\<rparr>, t \<mapsto> n\<lparr>nxt := Some b\<rparr>)) p
           (pre @ (t, w) # (b, v) # post) None"
proof -
  have "t \<notin> fst ` set pre" "t \<notin> fst ` set post"
    using path_None_distinct [OF p] by auto
  moreover have "b \<notin> fst ` set pre" "b \<notin> fst ` set post" "b \<noteq> t" using b by auto
  ultimately show ?thesis using p n by (auto simp: path_append)
qed

lemma path_delete_after:
  assumes p: "path c p (pre @ (t, w) # (b, v) # post) None"
    and n: "c t = Some n" and m: "c b = Some m"
  shows "path (c(t \<mapsto> n\<lparr>nxt := nxt m\<rparr>, b := None)) p (pre @ (t, w) # post) None"
proof -
  have "t \<notin> fst ` set pre" "t \<notin> fst ` set post" "b \<notin> fst ` set pre" "b \<notin> fst ` set post" "b \<noteq> t"
    using path_None_distinct [OF p] by auto
  with p n m show ?thesis by (auto simp: path_append)
qed

lemma path_nth_live:
  "path c p (pre @ (t, w) # post) q \<Longrightarrow>
   \<exists>n. c t = Some n \<and> data n = w \<and> path c (nxt n) post q"
  by (auto simp: path_append)

end
