(* ===== verification/LinkList.thy ===== *)
theory LinkList
  imports Node_Heap "HOL-Library.Multiset"
begin

text \<open>
  \<open>pipe/linkList.c\<close>: the singly linked list with a header node. Each definition follows the C
  function of the same name, its early returns included; console messages are left out, except
  the element values that \<open>list_show\<close> and \<open>list_free\<close> print.
\<close>

section \<open>The operations\<close>

definition listCreate :: "heap \<Rightarrow> (ptr \<times> heap) res" where
  "listCreate h =
     (let (H, h1) = malloc_node h
      in if H = None then Inr (H, h1)
         else bindR (set_data h1 H 0) (\<lambda>h2. bindR (set_nxt h2 H None) (\<lambda>h3. Inr (H, h3))))"

partial_function (option) tail_loop :: "heap \<Rightarrow> ptr \<Rightarrow> ptr run" where
  "tail_loop h q =
     bindM (lift_res (node_at h q))
       (\<lambda>n. if nxt n \<noteq> None then tail_loop h (nxt n) else returns q)"

definition list_tail_insert :: "heap \<Rightarrow> ptr \<Rightarrow> int \<Rightarrow> (int \<times> heap) run" where
  "list_tail_insert h H value =
     (if H = None then returns (-1, h)
      else bindM (lift_res (listCreate h)) (\<lambda>(P, h1).
        if P = None then returns (-1, h1)
        else
          bindM (lift_res (set_data h1 P value)) (\<lambda>h2.
          bindM (lift_res (set_nxt h2 P None)) (\<lambda>h3.
          bindM (tail_loop h3 H) (\<lambda>q.
          bindM (lift_res (set_nxt h3 q P)) (\<lambda>h4. returns (0, h4)))))))"

function get_before_loop :: "heap \<Rightarrow> ptr \<Rightarrow> int \<Rightarrow> int \<Rightarrow> ptr res" where
  "get_before_loop h P i pos =
     (if i < pos
      then bindR (node_at h P)
             (\<lambda>n. if nxt n = None then Inr None else get_before_loop h (nxt n) (i + 1) pos)
      else Inr P)"
  by pat_completeness auto
termination
  by (relation "measure (\<lambda>(h, P, i, pos). nat (pos - i))") auto

declare get_before_loop.simps [simp del]

definition list_get_before :: "heap \<Rightarrow> ptr \<Rightarrow> int \<Rightarrow> ptr res" where
  "list_get_before h H pos =
     (if H = None then Inr None
      else if pos = -1 then Inr H
      else get_before_loop h H (-1) pos)"

definition listEmpty :: "heap \<Rightarrow> ptr \<Rightarrow> int res" where
  "listEmpty h H =
     (if H = None then Inr 0
      else bindR (node_at h H) (\<lambda>n. if nxt n = None then Inr 0 else Inr 1))"

partial_function (option) poo_loop :: "heap \<Rightarrow> ptr \<Rightarrow> (ptr \<times> heap) run" where
  "poo_loop h P =
     bindM (lift_res (node_at h P)) (\<lambda>n.
       if nxt n = None then returns (None, h)
       else let ret = P; P' = nxt n in
         bindM (lift_res (node_at h P')) (\<lambda>n'.
           if nxt n' = None
           then bindM (lift_res (set_nxt h ret None)) (\<lambda>h'. returns (P', h'))
           else poo_loop h P'))"

definition list_poo :: "heap \<Rightarrow> ptr \<Rightarrow> (ptr \<times> heap) run" where
  "list_poo h H = (if H = None then returns (None, h) else poo_loop h H)"

definition list_insert :: "heap \<Rightarrow> ptr \<Rightarrow> int \<Rightarrow> int \<Rightarrow> (int \<times> heap) res" where
  "list_insert h H value pos =
     (if H = None then Inr (-1, h)
      else
        bindR (c_sub pos 1) (\<lambda>before.
        bindR (list_get_before h H before) (\<lambda>P.
          if P = None then Inr (-1, h)
          else bindR (listCreate h) (\<lambda>(q, h1).
            if q = None then Inr (-1, h1)
            else
              bindR (set_data h1 q value) (\<lambda>h2.
              bindR (node_at h2 P) (\<lambda>n.
              bindR (set_nxt h2 q (nxt n)) (\<lambda>h3.
              bindR (set_nxt h3 P q) (\<lambda>h4. Inr (0, h4)))))))))"

partial_function (option) show_loop :: "heap \<Rightarrow> ptr \<Rightarrow> int list \<Rightarrow> (int list) run" where
  "show_loop h P out =
     bindM (lift_res (node_at h P))
       (\<lambda>n. if nxt n \<noteq> None then show_loop h (nxt n) (out @ [data n])
            else returns (out @ [data n]))"

text \<open>The second component is what is printed.\<close>

definition list_show :: "heap \<Rightarrow> ptr \<Rightarrow> (int \<times> int list) run" where
  "list_show h H =
     (if H = None then returns (-1, [])
      else bindM (lift_res (node_at h H)) (\<lambda>n.
           bindM (show_loop h (nxt n) []) (\<lambda>out. returns (0, out))))"

definition list_delete :: "heap \<Rightarrow> ptr \<Rightarrow> int \<Rightarrow> (int \<times> heap) res" where
  "list_delete h H pos =
     (if H = None then Inr (-1, h)
      else
        bindR (c_sub pos 1) (\<lambda>before.
        bindR (list_get_before h H before) (\<lambda>P.
          if P = None then Inr (-1, h)
          else bindR (node_at h P) (\<lambda>n.
            if nxt n = None then Inr (-1, h)
            else let Q = nxt n in
              bindR (node_at h Q) (\<lambda>m.
              bindR (set_nxt h P (nxt m)) (\<lambda>h1.
              bindR (free_node h1 Q) (\<lambda>h2. Inr (0, h2))))))))"

text \<open>\<open>H = H->next\<close> is evaluated after \<open>free(P)\<close>, with \<open>P\<close> equal to \<open>H\<close>.\<close>

partial_function (option) free_loop :: "heap \<Rightarrow> ptr \<Rightarrow> int list \<Rightarrow> (int list \<times> heap) run" where
  "free_loop h H out =
     (if H = None then returns (out, h)
      else let P = H in
        bindM (lift_res (node_at h P)) (\<lambda>n.
        bindM (lift_res (free_node h P)) (\<lambda>h'.
        bindM (lift_res (node_at h' H)) (\<lambda>n'. free_loop h' (nxt n') (out @ [data n])))))"

definition list_free :: "heap \<Rightarrow> ptr \<Rightarrow> (ptr \<times> int list \<times> heap) run" where
  "list_free h H =
     (if H = None then returns (None, [], h)
      else bindM (free_loop h H []) (\<lambda>(out, h'). returns (None, out, h')))"

partial_function (option) reverse_loop :: "heap \<Rightarrow> ptr \<Rightarrow> ptr \<Rightarrow> heap run" where
  "reverse_loop h H P =
     (if P = None then returns h
      else let Q = P in
        bindM (lift_res (node_at h P)) (\<lambda>n.
        bindM (lift_res (node_at h H)) (\<lambda>nh.
        bindM (lift_res (set_nxt h Q (nxt nh))) (\<lambda>h1.
        bindM (lift_res (set_nxt h1 H Q)) (\<lambda>h2. reverse_loop h2 H (nxt n))))))"

definition list_reverse :: "heap \<Rightarrow> ptr \<Rightarrow> (int \<times> heap) run" where
  "list_reverse h H =
     (if H = None then returns (-1, h)
      else bindM (lift_res (node_at h H)) (\<lambda>nh.
        if nxt nh = None then returns (0, h)
        else bindM (lift_res (node_at h (nxt nh))) (\<lambda>n1.
          if nxt n1 = None then returns (0, h)
          else
            bindM (lift_res (set_nxt h (nxt nh) None)) (\<lambda>h1.
            bindM (reverse_loop h1 H (nxt n1)) (\<lambda>h2. returns (0, h2))))))"

partial_function (option)
  add_max_loop :: "heap \<Rightarrow> ptr \<Rightarrow> ptr \<Rightarrow> ptr \<Rightarrow> int \<Rightarrow> (ptr \<times> int) run" where
  "add_max_loop h p q r smax =
     bindM (lift_res (node_at h p)) (\<lambda>np.
       if nxt np \<noteq> None then
         bindM (lift_res (node_at h q)) (\<lambda>nq.
         bindM (lift_res (node_at h (nxt np))) (\<lambda>np'.
         bindM (lift_res (node_at h (nxt nq))) (\<lambda>nq'.
         bindM (lift_res (c_add (data nq') (data np'))) (\<lambda>s.
           if smax < s then add_max_loop h (nxt np) (nxt nq) (nxt nq) s
           else add_max_loop h (nxt np) (nxt nq) r smax))))
       else returns (r, smax))"

text \<open>The second component is what \<open>*value\<close> receives, if it is assigned.\<close>

definition list_add_max :: "heap \<Rightarrow> ptr \<Rightarrow> (ptr \<times> int option) run" where
  "list_add_max h H =
     (if H = None then returns (None, None)
      else bindM (lift_res (node_at h H)) (\<lambda>nh.
        if nxt nh = None then returns (H, None)
        else bindM (lift_res (node_at h (nxt nh))) (\<lambda>n1.
          if nxt n1 = None then returns (H, None)
          else bindM (lift_res (node_at h (nxt n1))) (\<lambda>n2.
            if nxt n2 = None then returns (H, None)
            else
              bindM (lift_res (c_add (data n1) (data n2))) (\<lambda>s.
              bindM (add_max_loop h (nxt n1) (nxt nh) (nxt nh) s)
                (\<lambda>(r, smax). returns (r, Some smax)))))))"

partial_function (option)
  merge_loop :: "heap \<Rightarrow> ptr \<Rightarrow> ptr \<Rightarrow> ptr \<Rightarrow> (heap \<times> ptr \<times> ptr \<times> ptr) run" where
  "merge_loop h p q r =
     (if q \<noteq> None \<and> p \<noteq> None then
        bindM (lift_res (node_at h p)) (\<lambda>np.
        bindM (lift_res (node_at h q)) (\<lambda>nq.
          if data np \<le> data nq then
            bindM (lift_res (set_nxt h r p)) (\<lambda>h1.
            bindM (lift_res (node_at h1 p)) (\<lambda>np1.
            bindM (lift_res (node_at h1 r)) (\<lambda>nr.
            bindM (lift_res (set_nxt h1 (nxt nr) None)) (\<lambda>h2.
              merge_loop h2 (nxt np1) q (nxt nr)))))
          else
            bindM (lift_res (set_nxt h r q)) (\<lambda>h1.
            bindM (lift_res (node_at h1 q)) (\<lambda>nq1.
            bindM (lift_res (node_at h1 r)) (\<lambda>nr.
            bindM (lift_res (set_nxt h1 (nxt nr) None)) (\<lambda>h2.
              merge_loop h2 p (nxt nq1) (nxt nr)))))))
      else returns (h, p, q, r))"

definition list_merge :: "heap \<Rightarrow> ptr \<Rightarrow> ptr \<Rightarrow> (int \<times> heap) run" where
  "list_merge h H1 H2 =
     (if H1 = None then returns (-1, h)
      else if H2 = None then returns (-1, h)
      else
        bindM (lift_res (node_at h H1)) (\<lambda>n1.
        bindM (lift_res (node_at h H2)) (\<lambda>n2.
        bindM (lift_res (set_nxt h H1 None)) (\<lambda>h1.
        bindM (lift_res (set_nxt h1 H2 None)) (\<lambda>h2.
        bindM (merge_loop h2 (nxt n1) (nxt n2) H1) (\<lambda>(h3, p, q, r).
        bindM (lift_res (set_nxt h3 r (if p = None then q else p)))
          (\<lambda>h4. returns (0, h4))))))))"

end
