(* ===== verification/LinkList_Correct.thy ===== *)
theory LinkList_Correct
  imports LinkList
begin

text \<open>
  What the list operations compute. \<open>list_at h H ns\<close> says that \<open>H\<close> points to a header node whose
  \<open>next\<close> chain visits the cells \<open>ns\<close> and ends in NULL; each operation is characterised on every
  branch by what it does to \<open>ns\<close>. That a call equals \<open>returns \<dots>\<close> includes that its loop ends and
  that no access faults.
\<close>

section \<open>Lists in the heap\<close>

definition list_at :: "heap \<Rightarrow> ptr \<Rightarrow> (nat \<times> int) list \<Rightarrow> bool" where
  "list_at h H ns \<longleftrightarrow> heap_ok h \<and> (\<exists>x. path (cells h) H (x # ns) None)"

lemma list_atE:
  assumes "list_at h H ns"
  obtains a nh where "H = Some a" and "cells h a = Some nh"
    and "path (cells h) H ((a, data nh) # ns) None" and "path (cells h) (nxt nh) ns None"
    and "a \<notin> fst ` set ns" and "distinct (map fst ns)" and "heap_ok h" and "a < brk h"
proof -
  from assms obtain a v where ok: "heap_ok h" and p: "path (cells h) H ((a, v) # ns) None"
    by (auto simp: list_at_def)
  from p obtain nh :: node where nh: "H = Some a" "cells h a = Some nh" "data nh = v"
    "path (cells h) (nxt nh) ns None" by auto
  from path_None_distinct [OF p] have "a \<notin> fst ` set ns" "distinct (map fst ns)" by auto
  with p nh ok show thesis by (intro that) (auto dest: heap_okD)
qed

lemma list_atI: "heap_ok h \<Longrightarrow> path (cells h) H (x # ns) None \<Longrightarrow> list_at h H ns"
  unfolding list_at_def by blast

lemma list_at_None [simp]: "\<not> list_at h None ns"
  by (auto simp: list_at_def)

lemma list_at_unique: "list_at h H ns \<Longrightarrow> list_at h H ms \<Longrightarrow> ns = ms"
  by (auto simp: list_at_def dest: path_None_unique)

section \<open>Creation, insertion at the tail\<close>

lemma listCreate_ok:
  "\<not> moom h (brk h) \<Longrightarrow>
   listCreate h =
     Inr (Some (brk h), h\<lparr>brk := Suc (brk h),
                          cells := (cells h)(brk h \<mapsto> \<lparr>data = 0, nxt = None\<rparr>)\<rparr>)"
  by (simp add: listCreate_def malloc_node_def set_data_def set_nxt_def node_at_def Let_def)

lemma listCreate_fails:
  "moom h (brk h) \<Longrightarrow> listCreate h = Inr (None, h\<lparr>brk := Suc (brk h)\<rparr>)"
  by (simp add: listCreate_def malloc_node_def)

lemma listCreate_list:
  "heap_ok h \<Longrightarrow> \<not> moom h (brk h) \<Longrightarrow>
   \<exists>h'. listCreate h = Inr (Some (brk h), h') \<and> list_at h' (Some (brk h)) [] \<and> brk h' = Suc (brk h)"
  by (auto simp: listCreate_ok list_at_def heap_ok_def)

lemma tail_loop_eq:
  "path (cells h) p (pre @ [(t, w)]) None \<Longrightarrow> tail_loop h p = returns (Some t)"
proof (induction pre arbitrary: p)
  case Nil
  then show ?case by (subst tail_loop.simps) auto
next
  case (Cons x pre)
  obtain a v where x: "x = (a, v)" by (cases x)
  from Cons.prems x obtain n :: node where n: "p = Some a" "cells h a = Some n"
    "path (cells h) (nxt n) (pre @ [(t, w)]) None" by auto
  moreover from n(3) have "nxt n \<noteq> None" by (cases pre) auto
  ultimately show ?case using Cons.IH [OF n(3)] by (subst tail_loop.simps) simp
qed

text \<open>The heap after \<open>b\<close>, fresh, has been linked in behind the live cell \<open>t\<close>.\<close>

definition linked_after :: "heap \<Rightarrow> nat \<Rightarrow> node \<Rightarrow> int \<Rightarrow> heap" where
  "linked_after h t n v =
     h\<lparr>brk := Suc (brk h),
       cells := (cells h)(brk h \<mapsto> \<lparr>data = v, nxt = nxt n\<rparr>, t \<mapsto> n\<lparr>nxt := Some (brk h)\<rparr>)\<rparr>"

lemma linked_after_list:
  assumes "heap_ok h" and p: "path (cells h) H (pre @ (t, w) # post) None"
    and n: "cells h t = Some n" and eq: "pre @ (t, w) # post = x # ns"
    and eq': "pre @ (t, w) # (brk h, v) # post = x # ms"
  shows "list_at (linked_after h t n v) H ms"
proof (rule list_atI)
  have "t < brk h" using n \<open>heap_ok h\<close> by (rule heap_okD [rotated])
  with \<open>heap_ok h\<close> show "heap_ok (linked_after h t n v)"
    by (auto simp: heap_ok_def linked_after_def)
  show "path (cells (linked_after h t n v)) H (x # ms) None"
    using path_insert_after [OF p path_brk_notin [OF \<open>heap_ok h\<close> p] n, of v]
    unfolding eq' by (simp add: linked_after_def del: fun_upd_apply)
qed

lemma tail_insert_result:
  assumes l: "list_at h H ns" and ok: "\<not> moom h (brk h)"
  shows "\<exists>h'. list_tail_insert h H value = returns (0, h') \<and> list_at h' H (ns @ [(brk h, value)]) \<and>
          brk h' = Suc (brk h) \<and> moom h' = moom h \<and> dom (cells h') = insert (brk h) (dom (cells h))"
proof -
  from l obtain a and nh :: node where H: "H = Some a" and "heap_ok h"
    and full: "path (cells h) H ((a, data nh) # ns) None" by (rule list_atE)
  obtain pre t w where split: "(a, data nh) # ns = pre @ [(t, w)]"
    by (cases "(a, data nh) # ns" rule: rev_cases) auto
  note p = full [unfolded split]
  from path_nth_live [OF p] obtain n :: node where n: "cells h t = Some n" "nxt n = None" by auto
  let ?h3 = "h\<lparr>brk := Suc (brk h), cells := (cells h)(brk h \<mapsto> \<lparr>data = value, nxt = None\<rparr>)\<rparr>"
  have "t \<noteq> brk h" using path_brk_notin [OF \<open>heap_ok h\<close> p] by auto
  have "path (cells ?h3) H (pre @ [(t, w)]) None"
    using p path_brk_notin [OF \<open>heap_ok h\<close> p] by (simp del: path_Cons_iff)
  then have "tail_loop ?h3 H = returns (Some t)" by (rule tail_loop_eq)
  then have "list_tail_insert h H value = returns (0, linked_after h t n value)"
    using H ok n \<open>t \<noteq> brk h\<close>
    by (simp add: list_tail_insert_def listCreate_ok set_data_Some set_nxt_Some linked_after_def)
  moreover have "list_at (linked_after h t n value) H (ns @ [(brk h, value)])"
    using \<open>heap_ok h\<close> p n(1) split [symmetric]
    by (rule linked_after_list) (use split in \<open>simp flip: append_Cons\<close>)
  moreover have "dom (cells (linked_after h t n value)) = insert (brk h) (dom (cells h))"
    using n(1) by (auto simp: linked_after_def)
  ultimately show ?thesis by (auto simp: linked_after_def)
qed

lemma tail_insert_no_memory:
  "list_at h H ns \<Longrightarrow> moom h (brk h) \<Longrightarrow>
   list_tail_insert h H value = returns (-1, h\<lparr>brk := Suc (brk h)\<rparr>) \<and>
   list_at (h\<lparr>brk := Suc (brk h)\<rparr>) H ns"
  by (auto simp: list_tail_insert_def listCreate_fails list_at_def heap_ok_def)


section \<open>Emptiness test and removal at the tail\<close>

lemma listEmpty_eq: "list_at h H ns \<Longrightarrow> listEmpty h H = Inr (if ns = [] then 0 else 1)"
  by (erule list_atE, cases ns) (auto simp: listEmpty_def)

lemma poo_loop_eq:
  "path (cells h) p (pre @ [(s, u), (t, w)]) None \<Longrightarrow>
   \<exists>n. cells h s = Some n \<and>
       poo_loop h p = returns (Some t, h\<lparr>cells := (cells h)(s \<mapsto> n\<lparr>nxt := None\<rparr>)\<rparr>)"
proof (induction pre arbitrary: p)
  case Nil
  then show ?case by (subst poo_loop.simps) (auto simp: set_nxt_Some)
next
  case (Cons x pre)
  obtain a v where x: "x = (a, v)" by (cases x)
  from Cons.prems x obtain n :: node where n: "p = Some a" "cells h a = Some n"
    and rest: "path (cells h) (nxt n) (pre @ [(s, u), (t, w)]) None" by auto
  from rest obtain b m c where b: "nxt n = Some b" and m: "cells h b = Some m" "nxt m = Some c"
    by (cases pre; cases "tl pre") auto
  from n b m have "poo_loop h p = poo_loop h (nxt n)" by (subst poo_loop.simps) (simp add: Let_def)
  with Cons.IH [OF rest] show ?case by simp
qed

lemma poo_result:
  assumes l: "list_at h H (ns @ [(t, w)])"
  shows "\<exists>h'. list_poo h H = returns (Some t, h') \<and> list_at h' H ns \<and>
          cells h' t = Some \<lparr>data = w, nxt = None\<rparr> \<and> t \<notin> fst ` set ns \<and> H \<noteq> Some t \<and>
          brk h' = brk h \<and> moom h' = moom h \<and> dom (cells h') = dom (cells h)"
proof -
  from l obtain a and nh :: node where H: "H = Some a" and "heap_ok h"
    and full: "path (cells h) H ((a, data nh) # ns @ [(t, w)]) None"
    and notin: "a \<notin> fst ` set (ns @ [(t, w)])" and dist: "distinct (map fst (ns @ [(t, w)]))"
    by (rule list_atE)
  obtain pre s u where split: "(a, data nh) # ns = pre @ [(s, u)]"
    by (cases "(a, data nh) # ns" rule: rev_cases) auto
  have p: "path (cells h) H (pre @ [(s, u), (t, w)]) None"
    using full split by (metis append_Cons append_assoc append_Nil)
  from poo_loop_eq [OF p] obtain n where n: "cells h s = Some n"
    and loop: "poo_loop h H = returns (Some t, h\<lparr>cells := (cells h)(s \<mapsto> n\<lparr>nxt := None\<rparr>)\<rparr>)" by blast
  let ?h' = "h\<lparr>cells := (cells h)(s \<mapsto> n\<lparr>nxt := None\<rparr>)\<rparr>"
  have "t \<noteq> s" "s \<notin> fst ` set pre" using path_None_distinct [OF p] by auto
  with p n have "path (cells ?h') H (pre @ [(s, u)]) None" by (auto simp: path_append)
  then have "path (cells ?h') H ((a, data nh) # ns) None" unfolding split .
  moreover have "heap_ok ?h'" by (rule frame_heap_ok [OF frame_upd \<open>heap_ok h\<close>]) (use n in auto)
  ultimately have "list_at ?h' H ns" by (rule list_atI [rotated])
  moreover from p have "cells h t = Some \<lparr>data = w, nxt = None\<rparr>" by (auto simp: path_append)
  moreover have "dom (cells ?h') = dom (cells h)" using n by auto
  ultimately show ?thesis
    using H loop notin dist \<open>t \<noteq> s\<close> by (auto simp: list_poo_def)
qed

lemma poo_empty: "list_at h H [] \<Longrightarrow> list_poo h H = returns (None, h)"
  by (erule list_atE) (simp add: list_poo_def poo_loop.simps)

section \<open>Access by position\<close>

lemma get_before_loop_eq:
  "path (cells h) p (x # ns) None \<Longrightarrow>
   get_before_loop h p i pos =
     Inr (if nat (pos - i) \<le> length ns then Some (fst ((x # ns) ! nat (pos - i))) else None)"
proof (induction ns arbitrary: p x i)
  case Nil
  then show ?case by (cases x; subst get_before_loop.simps) auto
next
  case (Cons y ns)
  obtain a v where x: "x = (a, v)" by (cases x)
  from Cons.prems x obtain n :: node where n: "p = Some a" "cells h a = Some n"
    and rest: "path (cells h) (nxt n) (y # ns) None" by auto
  from rest have nn: "nxt n \<noteq> None" by (auto dest: path_hd)
  show ?case
  proof (cases "i < pos")
    case True
    then have "nat (pos - i) = Suc (nat (pos - (i + 1)))" by simp
    with True n nn Cons.IH [OF rest, of "i + 1"] show ?thesis
      by (subst get_before_loop.simps) simp
  next
    case False
    with n x show ?thesis by (subst get_before_loop.simps) simp
  qed
qed

text \<open>
  Position \<open>-1\<close>, and every position below it, is the header; position \<open>k\<close> is the \<open>k\<close>-th element;
  a position past the last element gives NULL.
\<close>

lemma get_before_eq:
  assumes "path (cells h) H (x # ns) None"
  shows "list_get_before h H pos =
    Inr (if nat (pos + 1) \<le> length ns then Some (fst ((x # ns) ! nat (pos + 1))) else None)"
proof -
  from assms have H: "H = Some (fst x)" by (rule path_hd)
  show ?thesis
  proof (cases "pos = -1")
    case True
    with H show ?thesis by (simp add: list_get_before_def)
  next
    case False
    with H get_before_loop_eq [OF assms, of "-1" pos] show ?thesis
      by (simp add: list_get_before_def add.commute)
  qed
qed

lemma take_nth_Cons: "k \<le> length ns \<Longrightarrow> take k (x # ns) @ (x # ns) ! k # zs = x # take k ns @ zs"
proof (cases k)
  case 0
  then show ?thesis by simp
next
  case (Suc j)
  assume "k \<le> length ns"
  with Suc have "take j ns @ [ns ! j] = take k ns" by (simp add: take_Suc_conv_app_nth)
  with Suc show ?thesis by simp
qed

text \<open>Cutting a chain at its \<open>k\<close>-th cell (the header is cell 0).\<close>

lemma chain_split:
  assumes "path c H (x # ns) None" and "k \<le> length ns"
  shows "path c H (take k (x # ns) @ (fst ((x # ns) ! k), snd ((x # ns) ! k)) # drop k ns) None"
proof -
  have "x # ns = take k (x # ns) @ (x # ns) ! k # drop k ns"
    using take_nth_Cons [OF assms(2), of x "drop k ns"] by simp
  with assms(1) show ?thesis by simp
qed

lemma insert_result:
  assumes l: "list_at h H ns" and ok: "\<not> moom h (brk h)"
    and pos: "in_int (pos - 1)" and le: "nat pos \<le> length ns"
  shows "\<exists>h'. list_insert h H value pos = Inr (0, h') \<and>
          list_at h' H (take (nat pos) ns @ (brk h, value) # drop (nat pos) ns)"
proof -
  from l obtain x where "heap_ok h" and full: "path (cells h) H (x # ns) None"
    by (auto simp: list_at_def)
  let ?k = "nat pos"
  obtain t w where tw: "(x # ns) ! ?k = (t, w)" by (cases "(x # ns) ! ?k")
  have p: "path (cells h) H (take ?k (x # ns) @ (t, w) # drop ?k ns) None"
    using chain_split [OF full le] tw by simp
  from path_nth_live [OF p] obtain n :: node where n: "cells h t = Some n" by blast
  have "t \<noteq> brk h" using path_brk_notin [OF \<open>heap_ok h\<close> p] by auto
  have "H \<noteq> None" using path_hd [OF full] by simp
  have "list_get_before h H (pos - 1) = Inr (Some t)"
    using get_before_eq [OF full, of "pos - 1"] le tw by simp
  with ok n \<open>t \<noteq> brk h\<close> \<open>H \<noteq> None\<close> pos have "list_insert h H value pos = Inr (0, linked_after h t n value)"
    by (simp add: list_insert_def c_sub_def listCreate_ok set_data_Some set_nxt_Some linked_after_def
        fun_upd_twist)
  moreover have cut: "take ?k (x # ns) @ (t, w) # zs = x # take ?k ns @ zs" for zs
    using take_nth_Cons [OF le, of x zs] unfolding tw .
  have "list_at (linked_after h t n value) H (take ?k ns @ (brk h, value) # drop ?k ns)"
    by (rule linked_after_list [OF \<open>heap_ok h\<close> p n cut cut])
  ultimately show ?thesis by blast
qed

lemma insert_beyond:
  assumes l: "list_at h H ns" and pos: "in_int (pos - 1)" and gt: "length ns < nat pos"
  shows "list_insert h H value pos = Inr (-1, h)"
proof -
  from l obtain x where full: "path (cells h) H (x # ns) None" by (auto simp: list_at_def)
  have "H \<noteq> None" using path_hd [OF full] by simp
  with get_before_eq [OF full, of "pos - 1"] gt pos show ?thesis
    by (simp add: list_insert_def c_sub_def)
qed

lemma delete_result:
  assumes l: "list_at h H ns" and pos: "in_int (pos - 1)" and lt: "nat pos < length ns"
  shows "\<exists>h'. list_delete h H pos = Inr (0, h') \<and>
          list_at h' H (take (nat pos) ns @ drop (Suc (nat pos)) ns) \<and>
          cells h' (fst (ns ! nat pos)) = None"
proof -
  from l obtain x where "heap_ok h" and full: "path (cells h) H (x # ns) None"
    by (auto simp: list_at_def)
  let ?k = "nat pos"
  let ?post = "drop (Suc ?k) ns"
  obtain t w where tw: "(x # ns) ! ?k = (t, w)" by (cases "(x # ns) ! ?k")
  obtain b v where bv: "ns ! ?k = (b, v)" by (cases "ns ! ?k")
  have drop: "drop ?k ns = (b, v) # ?post" using lt bv by (simp add: Cons_nth_drop_Suc [symmetric])
  have p: "path (cells h) H (take ?k (x # ns) @ (t, w) # (b, v) # ?post) None"
    using chain_split [OF full less_imp_le [OF lt]] tw drop by simp
  from path_nth_live [OF p] obtain n :: node where n: "cells h t = Some n" "nxt n = Some b" by auto
  from p obtain m where m: "cells h b = Some m" by (auto simp: path_append)
  have "b \<noteq> t" using path_None_distinct [OF p] by auto
  let ?h' = "h\<lparr>cells := (cells h)(t \<mapsto> n\<lparr>nxt := nxt m\<rparr>, b := None)\<rparr>"
  have "path (cells ?h') H (take ?k (x # ns) @ (t, w) # ?post) None"
    using path_delete_after [OF p n(1) m] by (simp del: fun_upd_apply)
  then have "path (cells ?h') H (x # take ?k ns @ ?post) None"
    using take_nth_Cons [OF less_imp_le [OF lt], of x ?post] unfolding tw by (simp only:)
  moreover have "heap_ok ?h'" using \<open>heap_ok h\<close> heap_okD [OF \<open>heap_ok h\<close> n(1)]
    by (auto simp: heap_ok_def)
  ultimately have "list_at ?h' H (take ?k ns @ ?post)" by (rule list_atI [rotated])
  moreover have "list_delete h H pos = Inr (0, ?h')"
    using get_before_eq [OF full, of "pos - 1"] path_hd [OF full] lt tw n m \<open>b \<noteq> t\<close> pos
    by (simp add: list_delete_def c_sub_def set_nxt_Some free_node_def)
  ultimately show ?thesis using bv by auto
qed

lemma delete_beyond:
  assumes l: "list_at h H ns" and pos: "in_int (pos - 1)" and ge: "length ns \<le> nat pos"
  shows "list_delete h H pos = Inr (-1, h)"
proof -
  from l obtain x where full: "path (cells h) H (x # ns) None" by (auto simp: list_at_def)
  have H: "H = Some (fst x)" using path_hd [OF full] .
  note before = get_before_eq [OF full, of "pos - 1"]
  show ?thesis
  proof (cases "nat pos = length ns")
    case True
    obtain t w where tw: "(x # ns) ! length ns = (t, w)" by (cases "(x # ns) ! length ns")
    from chain_split [OF full order_refl] tw
    have "path (cells h) H (take (length ns) (x # ns) @ [(t, w)]) None" by simp
    from path_nth_live [OF this] obtain n :: node where "cells h t = Some n" "nxt n = None" by auto
    with before True tw H pos show ?thesis by (simp add: list_delete_def c_sub_def)
  next
    case False
    with before ge H pos show ?thesis by (simp add: list_delete_def c_sub_def)
  qed
qed


section \<open>Printing and freeing\<close>

lemma show_loop_eq:
  "path (cells h) p (x # ns) None \<Longrightarrow> show_loop h p out = returns (out @ map snd (x # ns))"
proof (induction ns arbitrary: p x out)
  case Nil
  then show ?case by (cases x) (auto simp: show_loop.simps)
next
  case (Cons y ns)
  obtain a v where x: "x = (a, v)" by (cases x)
  from Cons.prems x obtain n :: node where n: "p = Some a" "cells h a = Some n" "data n = v"
    and rest: "path (cells h) (nxt n) (y # ns) None" by auto
  from path_hd [OF rest] have "nxt n \<noteq> None" by simp
  with n x Cons.IH [OF rest, of "out @ [v]"] show ?case by (subst show_loop.simps) simp
qed

lemma show_result:
  "list_at h H ns \<Longrightarrow> ns \<noteq> [] \<Longrightarrow> list_show h H = returns (0, map snd ns)"
  by (erule list_atE, cases ns) (auto simp: list_show_def show_loop_eq simp del: path_Cons_iff)

text \<open>An empty list has no first element to read \<open>next\<close> from.\<close>

lemma show_empty: "list_at h H [] \<Longrightarrow> list_show h H = faults NullDeref"
  by (erule list_atE) (auto simp: list_show_def show_loop.simps)

text \<open>The header cell is freed and then read.\<close>

lemma free_result: "list_at h H ns \<Longrightarrow> list_free h H = faults UseAfterFree"
  by (erule list_atE) (auto simp: list_free_def free_loop.simps Let_def free_node_def node_at_def)

section \<open>Reversal\<close>

lemma reverse_loop_eq:
  assumes "cells h a = Some nh" and "path (cells h) (nxt nh) acc None"
    and "path (cells h) P rest None" and "a \<notin> fst ` set acc" and "a \<notin> fst ` set rest"
    and "fst ` set acc \<inter> fst ` set rest = {}"
  shows "\<exists>h' nh'. reverse_loop h (Some a) P = returns h' \<and> cells h' a = Some nh' \<and>
           data nh' = data nh \<and> path (cells h') (nxt nh') (rev rest @ acc) None \<and>
           frame h h' (insert a (fst ` set rest))"
  using assms
proof (induction rest arbitrary: h nh acc P)
  case Nil
  then show ?case by (auto simp: reverse_loop.simps)
next
  case (Cons x rest)
  obtain b v where x: "x = (b, v)" by (cases x)
  from Cons.prems(3) x obtain n :: node where n: "P = Some b" "cells h b = Some n" "data n = v"
    and rest: "path (cells h) (nxt n) rest None" by auto
  have b: "b \<notin> fst ` set rest" "b \<noteq> a" "b \<notin> fst ` set acc"
    using path_None_distinct [OF Cons.prems(3)] Cons.prems(5,6) x by auto
  let ?h1 = "h\<lparr>cells := (cells h)(b \<mapsto> n\<lparr>nxt := nxt nh\<rparr>)\<rparr>"
  let ?h2 = "?h1\<lparr>cells := (cells ?h1)(a \<mapsto> nh\<lparr>nxt := Some b\<rparr>)\<rparr>"
  have step: "reverse_loop h (Some a) P = reverse_loop ?h2 (Some a) (nxt n)"
    using n Cons.prems(1) b by (subst reverse_loop.simps) (simp add: Let_def set_nxt_Some)
  let ?nh = "nh\<lparr>nxt := Some b\<rparr>"
  have nh2: "cells ?h2 a = Some ?nh" by simp
  have acc: "path (cells ?h2) (nxt ?nh) ((b, v) # acc) None"
    using n b Cons.prems(2,4) by simp
  have rest2: "path (cells ?h2) (nxt n) rest None"
    using rest b Cons.prems(5) x by simp
  have side: "a \<notin> fst ` set ((b, v) # acc)" "a \<notin> fst ` set rest"
    "fst ` set ((b, v) # acc) \<inter> fst ` set rest = {}"
    using b Cons.prems(4,5,6) x by auto
  have fr: "frame h ?h2 (insert a (fst ` set (x # rest)))"
    by (rule frame_trans [OF frame_upd frame_upd]) (use n b x Cons.prems(1) in auto)
  from Cons.IH [OF nh2 acc rest2 side]
  obtain h' nh' where h': "reverse_loop ?h2 (Some a) (nxt n) = returns h'" "cells h' a = Some nh'"
    "data nh' = data ?nh" "path (cells h') (nxt nh') (rev rest @ (b, v) # acc) None"
    "frame ?h2 h' (insert a (fst ` set rest))" by blast
  with step x frame_trans [OF fr frame_mono [OF h'(5), of "insert a (fst ` set (x # rest))"]]
  show ?case by auto
qed

lemma reverse_result:
  assumes l: "list_at h H ns"
  shows "\<exists>h'. list_reverse h H = returns (0, h') \<and> list_at h' H (rev ns) \<and>
          frame h h' (insert (the H) (fst ` set ns))"
proof -
  from l obtain a nh where H: "H = Some a" and nh: "cells h a = Some nh"
    and p: "path (cells h) (nxt nh) ns None" and a: "a \<notin> fst ` set ns"
    and dist: "distinct (map fst ns)" and ok: "heap_ok h" by (rule list_atE)
  consider "ns = []" | x where "ns = [x]" | b v y zs where "ns = (b, v) # y # zs"
    by (metis list.exhaust surj_pair)
  then show ?thesis
  proof cases
    case 1
    with l H nh p show ?thesis by (auto simp: list_reverse_def)
  next
    case 2
    with l H nh p show ?thesis by (cases x) (auto simp: list_reverse_def)
  next
    case 3
    let ?rest = "y # zs"
    from p 3 obtain n :: node where n: "nxt nh = Some b" "cells h b = Some n" "data n = v"
      and rest: "path (cells h) (nxt n) ?rest None" by (auto simp del: path_Cons_iff simp: path_Cons_iff [of _ _ b])
    have b: "b \<notin> fst ` set ?rest" "b \<noteq> a" using dist a 3 by auto
    let ?h1 = "h\<lparr>cells := (cells h)(b \<mapsto> n\<lparr>nxt := None\<rparr>)\<rparr>"
    have fr: "frame h ?h1 (insert a (fst ` set ns))" by (rule frame_upd) (use n 3 in auto)
    have acc: "path (cells ?h1) (nxt nh) [(b, v)] None" using n b by simp
    have rest1: "path (cells ?h1) (nxt n) ?rest None" using rest b by (simp del: path_Cons_iff)
    have nha: "cells ?h1 a = Some nh" using nh b by simp
    obtain h' nh' where h': "reverse_loop ?h1 (Some a) (nxt n) = returns h'" "cells h' a = Some nh'"
      "path (cells h') (nxt nh') (rev ?rest @ [(b, v)]) None"
      "frame ?h1 h' (insert a (fst ` set ?rest))"
      using reverse_loop_eq [OF nha acc rest1] a b 3 by auto
    with path_hd [OF rest] H nh n have "list_reverse h H = returns (0, h')"
      by (simp add: list_reverse_def set_nxt_Some)
    moreover have fr': "frame h h' (insert a (fst ` set ns))"
      by (rule frame_trans [OF fr frame_mono [OF h'(4)]]) (use 3 in auto)
    moreover have "list_at h' H (rev ns)"
      by (rule list_atI [OF frame_heap_ok [OF fr' ok], of _ "(a, data nh')"]) (use h' H 3 in simp)
    ultimately show ?thesis using H by auto
  qed
qed


section \<open>The best adjacent pair\<close>

text \<open>What the loop of \<open>list_add_max\<close> computes, on the values of the cells.\<close>

fun best_pair :: "(nat \<times> int) list \<Rightarrow> nat \<Rightarrow> int \<Rightarrow> nat \<times> int" where
  "best_pair ((a, x) # (b, y) # ns) r s =
     (if s < x + y then best_pair ((b, y) # ns) a (x + y) else best_pair ((b, y) # ns) r s)"
| "best_pair _ r s = (r, s)"

definition adjacent_sums :: "int list \<Rightarrow> int list" where
  "adjacent_sums xs = map2 (+) xs (tl xs)"

lemma adjacent_sums_simps [simp]:
  "adjacent_sums [] = []"
  "adjacent_sums [x] = []"
  "adjacent_sums (x # y # zs) = (x + y) # adjacent_sums (y # zs)"
  by (simp_all add: adjacent_sums_def)

lemma length_adjacent_sums [simp]: "length (adjacent_sums xs) = length xs - 1"
  by (simp add: adjacent_sums_def)

text \<open>The loop keeps the first of the largest sums it has seen.\<close>

lemma best_pair_spec:
  "best_pair ns r s = (r', s') \<Longrightarrow>
   let sums = adjacent_sums (map snd ns) in
     (s' = s \<and> r' = r \<and> (\<forall>z \<in> set sums. z \<le> s)) \<or>
     (\<exists>i < length sums. sums ! i = s' \<and> r' = fst (ns ! i) \<and> s < s' \<and>
        (\<forall>z \<in> set sums. z \<le> s') \<and> (\<forall>j < i. sums ! j < s'))"
proof (induction ns r s rule: best_pair.induct)
  case (1 a x b y ns r s)
  let ?sums = "adjacent_sums (map snd ((b, y) # ns))"
  show ?case
  proof (cases "s < x + y")
    case True
    from True "1.prems" have "best_pair ((b, y) # ns) a (x + y) = (r', s')" by simp
    from "1.IH"(1) [OF True this, unfolded Let_def] show ?thesis
    proof (elim disjE exE conjE)
      assume "s' = x + y" "r' = a" "\<forall>z\<in>set ?sums. z \<le> x + y"
      with True show ?thesis unfolding Let_def by (intro disjI2 exI [of _ 0]) simp
    next
      fix i
      assume i: "i < length ?sums" "?sums ! i = s'" "r' = fst (((b, y) # ns) ! i)" "x + y < s'"
        "\<forall>z\<in>set ?sums. z \<le> s'" "\<forall>j<i. ?sums ! j < s'"
      then have "\<forall>j<Suc i. ((x + y) # ?sums) ! j < s'" by (auto simp: less_Suc_eq_0_disj)
      with i True show ?thesis unfolding Let_def by (intro disjI2 exI [of _ "Suc i"]) auto
    qed
  next
    case False
    with "1.prems" have "best_pair ((b, y) # ns) r s = (r', s')" by simp
    from "1.IH"(2) [OF False this, unfolded Let_def] show ?thesis
    proof (elim disjE exE conjE)
      assume "s' = s" "r' = r" "\<forall>z\<in>set ?sums. z \<le> s"
      with False show ?thesis by (simp add: Let_def)
    next
      fix i
      assume i: "i < length ?sums" "?sums ! i = s'" "r' = fst (((b, y) # ns) ! i)" "s < s'"
        "\<forall>z\<in>set ?sums. z \<le> s'" "\<forall>j<i. ?sums ! j < s'"
      with False have "\<forall>j<Suc i. ((x + y) # ?sums) ! j < s'" by (auto simp: less_Suc_eq_0_disj)
      with i False show ?thesis unfolding Let_def by (intro disjI2 exI [of _ "Suc i"]) auto
    qed
  qed
qed simp_all

lemma add_max_loop_eq:
  assumes "path (cells h) q ((a, x) # (b, y) # ns) None" and "p = Some b"
    and "\<forall>s \<in> set (adjacent_sums (y # map snd ns)). in_int s"
  shows "add_max_loop h p q (Some r) s =
    (case best_pair ((b, y) # ns) r s of (r', s') \<Rightarrow> returns (Some r', s'))"
  using assms
proof (induction ns arbitrary: a x b y p q r s)
  case Nil
  then show ?case by (auto simp: add_max_loop.simps)
next
  case (Cons c ns)
  obtain e z where c: "c = (e, z)" by (cases c)
  from Cons.prems c obtain nq np ne :: node where
    q: "q = Some a" "cells h a = Some nq" "nxt nq = Some b" and
    b: "cells h b = Some np" "data np = y" "nxt np = Some e" and
    e: "cells h e = Some ne" "data ne = z" by auto
  have rest: "path (cells h) (Some b) ((b, y) # (e, z) # ns) None" using Cons.prems(1) c by auto
  have add: "c_add y z = Inr (y + z)" using Cons.prems(3) c by (simp add: c_add_def)
  have sums: "\<forall>s \<in> set (adjacent_sums (z # map snd ns)). in_int s" using Cons.prems(3) c by simp
  show ?case
    using q b e add Cons.prems(2) c
    by (subst add_max_loop.simps)
      (simp add: Cons.IH [OF rest refl sums])
qed

lemma add_max_result:
  assumes l: "list_at h H ns" and three: "3 \<le> length ns"
    and safe: "\<forall>s \<in> set (adjacent_sums (map snd ns)). in_int s"
  shows "\<exists>i m. list_add_max h H = returns (Some (fst (ns ! i)), Some m) \<and>
           i < length ns - 1 \<and> adjacent_sums (map snd ns) ! i = m \<and>
           (\<forall>s \<in> set (adjacent_sums (map snd ns)). s \<le> m) \<and>
           (\<forall>j < i. adjacent_sums (map snd ns) ! j < m)"
proof -
  from l obtain a nh where H: "H = Some a" and nh: "cells h a = Some nh"
    and p: "path (cells h) (nxt nh) ns None" by (rule list_atE)
  obtain b x c y d z ms where ns: "ns = (b, x) # (c, y) # (d, z) # ms"
    using three by (metis One_nat_def Suc_le_length_iff eval_nat_numeral(3) numeral_2_eq_2 surj_pair)
  from p ns obtain nb nc nd :: node where cells: "nxt nh = Some b" "cells h b = Some nb" "data nb = x"
    "nxt nb = Some c" "cells h c = Some nc" "data nc = y" "nxt nc = Some d" "cells h d = Some nd" by auto
  obtain r' s' where best: "best_pair ((c, y) # (d, z) # ms) b (x + y) = (r', s')" by fastforce
  have "c_add x y = Inr (x + y)" using safe ns by (simp add: c_add_def)
  moreover have "add_max_loop h (Some c) (Some b) (Some b) (x + y) = returns (Some r', s')"
    using add_max_loop_eq [of h "Some b" b x c y "(d, z) # ms" "Some c" b "x + y"] p ns safe cells best by simp
  ultimately have res: "list_add_max h H = returns (Some r', Some s')"
    using H nh cells by (simp add: list_add_max_def)
  from best_pair_spec [OF best] show ?thesis unfolding Let_def
  proof (elim disjE exE conjE)
    assume "s' = x + y" "r' = b" "\<forall>w\<in>set (adjacent_sums (map snd ((c, y) # (d, z) # ms))). w \<le> x + y"
    with res ns show ?thesis by (intro exI [of _ 0] exI [of _ s']) simp
  next
    fix i
    let ?sums = "adjacent_sums (map snd ((c, y) # (d, z) # ms))"
    assume i: "i < length ?sums" "?sums ! i = s'" "r' = fst (((c, y) # (d, z) # ms) ! i)" "x + y < s'"
      "\<forall>w\<in>set ?sums. w \<le> s'" "\<forall>j<i. ?sums ! j < s'"
    then have "\<forall>j<Suc i. ((x + y) # ?sums) ! j < s'" by (auto simp: less_Suc_eq_0_disj)
    with i res ns show ?thesis by (intro exI [of _ "Suc i"] exI [of _ s']) auto
  qed
qed


section \<open>Merging\<close>

text \<open>The stable merge of two sequences of cells by value.\<close>

fun merge_cells :: "(nat \<times> int) list \<Rightarrow> (nat \<times> int) list \<Rightarrow> (nat \<times> int) list" where
  "merge_cells [] ms = ms"
| "merge_cells ns [] = ns"
| "merge_cells (x # ns) (y # ms) =
     (if snd x \<le> snd y then x # merge_cells ns (y # ms) else y # merge_cells (x # ns) ms)"

lemma mset_merge_cells: "mset (merge_cells ns ms) = mset ns + mset ms"
  by (induction ns ms rule: merge_cells.induct) auto

lemma set_merge_cells: "set (merge_cells ns ms) = set ns \<union> set ms"
  by (induction ns ms rule: merge_cells.induct) auto

lemma sorted_merge_cells:
  "sorted (map snd ns) \<Longrightarrow> sorted (map snd ms) \<Longrightarrow> sorted (map snd (merge_cells ns ms))"
proof (induction ns ms rule: merge_cells.induct)
  case (3 x ns y ms)
  then show ?case by (auto simp: set_merge_cells)
qed auto

text \<open>
  One turn of the loop moves the first cell \<open>b\<close> of one of the lists behind \<open>r\<close> and cuts it off
  from its own successor.
\<close>

definition moved :: "heap \<Rightarrow> nat \<Rightarrow> node \<Rightarrow> nat \<Rightarrow> node \<Rightarrow> heap" where
  "moved h r nr b nb =
     h\<lparr>cells := (cells h)(r \<mapsto> nr\<lparr>nxt := Some b\<rparr>, b \<mapsto> nb\<lparr>nxt := None\<rparr>)\<rparr>"

lemma merge_step_p:
  "cells h r = Some nr \<Longrightarrow> cells h b = Some nb \<Longrightarrow> cells h c = Some nc \<Longrightarrow> r \<noteq> b \<Longrightarrow>
   data nb \<le> data nc \<Longrightarrow>
   merge_loop h (Some b) (Some c) (Some r) = merge_loop (moved h r nr b nb) (nxt nb) (Some c) (Some b)"
  by (subst merge_loop.simps) (simp add: set_nxt_Some moved_def)

lemma merge_step_q:
  "cells h r = Some nr \<Longrightarrow> cells h b = Some nb \<Longrightarrow> cells h c = Some nc \<Longrightarrow> r \<noteq> c \<Longrightarrow>
   \<not> data nb \<le> data nc \<Longrightarrow>
   merge_loop h (Some b) (Some c) (Some r) = merge_loop (moved h r nr c nc) (Some b) (nxt nc) (Some c)"
  by (subst merge_loop.simps) (simp add: set_nxt_Some moved_def)

text \<open>The loop followed by the assignment that appends what is left.\<close>

definition merge_rest :: "heap \<Rightarrow> ptr \<Rightarrow> ptr \<Rightarrow> ptr \<Rightarrow> heap run" where
  "merge_rest h p q r =
     bindM (merge_loop h p q r)
       (\<lambda>(h3, p, q, r). lift_res (set_nxt h3 r (if p = None then q else p)))"

definition merged :: "heap \<Rightarrow> heap \<Rightarrow> nat \<Rightarrow> int \<Rightarrow> (nat \<times> int) list \<Rightarrow> (nat \<times> int) list \<Rightarrow> bool" where
  "merged h h' r w ns ms \<longleftrightarrow>
     path (cells h') (Some r) ((r, w) # merge_cells ns ms) None \<and>
     frame h h' (insert r (fst ` set ns \<union> fst ` set ms))"

lemma moved_frame:
  "cells h r = Some nr \<Longrightarrow> cells h b = Some nb \<Longrightarrow> frame h (moved h r nr b nb) {r, b}"
  unfolding moved_def
  by (auto simp: frame_def)

lemma merged_prepend:
  assumes m: "merged (moved h r nr b nb) h' b v ns ms"
    and "cells h r = Some nr" "cells h b = Some nb"
    and "r \<noteq> b" "r \<notin> fst ` set ns" "r \<notin> fst ` set ms"
  shows "path (cells h') (Some r) ((r, data nr) # (b, v) # merge_cells ns ms) None \<and>
         frame h h' (insert r (insert b (fst ` set ns \<union> fst ` set ms)))"
proof -
  let ?A = "insert r (insert b (fst ` set ns \<union> fst ` set ms))"
  from m have fr: "frame (moved h r nr b nb) h' (insert b (fst ` set ns \<union> fst ` set ms))"
    by (simp add: merged_def)
  have "cells h' r = Some (nr\<lparr>nxt := Some b\<rparr>)"
    using frame_cells [OF fr, of r] assms(4-6) by (auto simp: moved_def)
  moreover have "frame h h' ?A"
    by (rule frame_trans [OF frame_mono [OF moved_frame [OF assms(2,3)]] frame_mono [OF fr]]) auto
  ultimately show ?thesis using m by (simp add: merged_def)
qed

lemma merge_rest_eq:
  assumes "cells h r = Some nr" "nxt nr = None"
    and "path (cells h) p ns None" "path (cells h) q ms None"
    and "distinct (r # map fst ns @ map fst ms)"
  shows "\<exists>h'. merge_rest h p q (Some r) = returns h' \<and> merged h h' r (data nr) ns ms"
  using assms
proof (induction ns ms arbitrary: h p q r nr rule: merge_cells.induct)
  case (1 ms)
  then show ?case
    by (intro exI [of _ "h\<lparr>cells := (cells h)(r \<mapsto> nr\<lparr>nxt := q\<rparr>)\<rparr>"])
      (auto simp: merge_rest_def merge_loop.simps set_nxt_Some merged_def frame_def)
next
  case (2 x ns)
  then show ?case
    by (intro exI [of _ "h\<lparr>cells := (cells h)(r \<mapsto> nr\<lparr>nxt := p\<rparr>)\<rparr>"])
      (cases x, auto simp: merge_rest_def merge_loop.simps set_nxt_Some merged_def frame_def)
next
  case (3 x ns y ms)
  obtain b v c w where xy: "x = (b, v)" "y = (c, w)" by (cases x; cases y)
  from "3.prems"(3,4) xy obtain nb nc :: node where
    p: "p = Some b" "cells h b = Some nb" "data nb = v" "path (cells h) (nxt nb) ns None" and
    q: "q = Some c" "cells h c = Some nc" "data nc = w" "path (cells h) (nxt nc) ms None" by auto
  note d = "3.prems"(5) [unfolded xy, simplified]
  show ?case
  proof (cases "v \<le> w")
    case True
    let ?h2 = "moved h r nr b nb"
    let ?nb = "nb\<lparr>nxt := None\<rparr>"
    have "cells ?h2 b = Some ?nb" "nxt ?nb = None"
      and "path (cells ?h2) (nxt nb) ns None" and "path (cells ?h2) q (y # ms) None"
      and "distinct (b # map fst ns @ map fst (y # ms))"
      using p q d xy by (auto simp: moved_def)
    with "3.IH"(1) [of ?h2 b ?nb "nxt nb" q] True xy p obtain h' where
      h': "merge_rest ?h2 (nxt nb) q (Some b) = returns h'" "merged ?h2 h' b v ns (y # ms)" by auto
    have "merge_rest h p q (Some r) = returns h'"
      using h'(1) merge_step_p [OF "3.prems"(1) p(2) q(2)] p q d True by (simp add: merge_rest_def)
    moreover have "merged h h' r (data nr) (x # ns) (y # ms)"
      using merged_prepend [OF h'(2) "3.prems"(1) p(2)] d xy True
      by (auto simp: merged_def insert_commute elim: frame_mono)
    ultimately show ?thesis by blast
  next
    case False
    let ?h2 = "moved h r nr c nc"
    let ?nc = "nc\<lparr>nxt := None\<rparr>"
    have "cells ?h2 c = Some ?nc" "nxt ?nc = None"
      and "path (cells ?h2) p (x # ns) None" and "path (cells ?h2) (nxt nc) ms None"
      and "distinct (c # map fst (x # ns) @ map fst ms)"
      using p q d xy by (auto simp: moved_def)
    with "3.IH"(2) [of ?h2 c ?nc p "nxt nc"] False xy q obtain h' where
      h': "merge_rest ?h2 p (nxt nc) (Some c) = returns h'" "merged ?h2 h' c w (x # ns) ms" by auto
    have "merge_rest h p q (Some r) = returns h'"
      using h'(1) merge_step_q [OF "3.prems"(1) p(2) q(2)] p q d False by (simp add: merge_rest_def)
    moreover have "merged h h' r (data nr) (x # ns) (y # ms)"
      using merged_prepend [OF h'(2) "3.prems"(1) q(2)] d xy False
      by (auto simp: merged_def insert_commute elim: frame_mono)
    ultimately show ?thesis by blast
  qed
qed

lemma merge_result:
  assumes l1: "list_at h H1 ns" and l2: "list_at h H2 ms"
    and disj: "H1 \<noteq> H2" "fst ` set ns \<inter> fst ` set ms = {}"
      "the H1 \<notin> fst ` set ms" "the H2 \<notin> fst ` set ns"
  shows "\<exists>h'. list_merge h H1 H2 = returns (0, h') \<and>
           list_at h' H1 (merge_cells ns ms) \<and> list_at h' H2 []"
proof -
  from l1 obtain a na where a: "H1 = Some a" "cells h a = Some na" "path (cells h) (nxt na) ns None"
    "a \<notin> fst ` set ns" "distinct (map fst ns)" and ok: "heap_ok h" by (rule list_atE)
  from l2 obtain b nb where b: "H2 = Some b" "cells h b = Some nb" "path (cells h) (nxt nb) ms None"
    "b \<notin> fst ` set ms" "distinct (map fst ms)" by (rule list_atE)
  let ?na = "na\<lparr>nxt := None\<rparr>" and ?nb = "nb\<lparr>nxt := None\<rparr>"
  let ?h2 = "h\<lparr>cells := (cells h)(a \<mapsto> ?na, b \<mapsto> ?nb)\<rparr>"
  have "cells ?h2 a = Some ?na" "nxt ?na = None"
    and "path (cells ?h2) (nxt na) ns None" and "path (cells ?h2) (nxt nb) ms None"
    and "distinct (a # map fst ns @ map fst ms)"
    using a b disj by auto
  from merge_rest_eq [OF this] obtain h' where
    rest: "merge_rest ?h2 (nxt na) (nxt nb) (Some a) = returns h'" and
    m: "merged ?h2 h' a (data na) ns ms" by auto
  from m have fr: "frame ?h2 h' (insert a (fst ` set ns \<union> fst ` set ms))"
    and p: "path (cells h') (Some a) ((a, data na) # merge_cells ns ms) None"
    by (auto simp: merged_def)
  have ok2: "heap_ok ?h2" using ok heap_okD [OF ok a(2)] heap_okD [OF ok b(2)]
    by (auto simp: heap_ok_def)
  have ok': "heap_ok h'" by (rule frame_heap_ok [OF fr ok2])
  have "cells h' b = Some ?nb"
    using frame_cells [OF fr, of b] a b disj by auto
  then have "list_at h' H2 []"
    using b ok' by (intro list_atI [of _ _ "(b, data nb)"]) auto
  moreover have "list_at h' H1 (merge_cells ns ms)" using list_atI [OF ok' p] a by simp
  moreover have "list_merge h H1 H2 = returns (0, h')"
  proof -
    have "list_merge h H1 H2 =
      bindM (merge_rest ?h2 (nxt na) (nxt nb) (Some a)) (\<lambda>h4. returns (0, h4))"
      using a b disj
      by (cases "merge_loop ?h2 (nxt na) (nxt nb) (Some a)")
        (auto simp: list_merge_def merge_rest_def set_nxt_Some bindM_def returns_def faults_def
          lift_res_def split: sum.splits prod.splits)
    with rest show ?thesis by simp
  qed
  ultimately show ?thesis by blast
qed

end
