(* ===== verification/LinkList_Props.thy ===== *)
theory LinkList_Props
  imports LinkList_Correct
begin

text \<open>
  The promises of \<open>pipe/linkList.c\<close> to its callers, and the two operations that break on every
  list (\<open>list_free\<close>) or on the empty one (\<open>list_show\<close>). Witnesses run on small concrete heaps.
\<close>

section \<open>Concrete heaps\<close>

definition heap_of :: "(nat \<times> node) list \<Rightarrow> nat \<Rightarrow> heap" where
  "heap_of kvs b = \<lparr>cells = map_of kvs, brk = b, moom = (\<lambda>_. False), junk = \<lparr>data = 77, nxt = Some 0\<rparr>\<rparr>"

definition cell :: "int \<Rightarrow> ptr \<Rightarrow> node" where
  "cell v q = \<lparr>data = v, nxt = q\<rparr>"

text \<open>Header 0 followed by the values 5, 2, 9.\<close>

definition heap_529 :: heap where
  "heap_529 = heap_of [(0, cell 0 (Some 1)), (1, cell 5 (Some 2)), (2, cell 2 (Some 3)),
                       (3, cell 9 None)] 4"

text \<open>Headers 0 and 1; the lists 2, 7 and 3, 7.\<close>

definition heap_two :: heap where
  "heap_two = heap_of [(0, cell 0 (Some 2)), (1, cell 0 (Some 4)), (2, cell 2 (Some 3)),
                       (3, cell 7 None), (4, cell 3 (Some 5)), (5, cell 7 None)] 6"

lemmas concrete_heaps = list_at_def heap_ok_def heap_529_def heap_two_def heap_of_def cell_def

lemma heap_529_list: "list_at heap_529 (Some 0) [(1, 5), (2, 2), (3, 9)]"
  by (simp add: concrete_heaps)

lemma heap_two_lists:
  "list_at heap_two (Some 0) [(2, 2), (3, 7)]" "list_at heap_two (Some 1) [(4, 3), (5, 7)]"
  by (simp_all add: concrete_heaps)

lemma heap_529_memory [simp]: "brk heap_529 = 4" "\<not> moom heap_529 n"
  by (simp_all add: heap_529_def heap_of_def)

section \<open>Properties\<close>

text \<open>\<open>list_tail_insert\<close> on a list appends exactly one cell with the value at the end and
  returns 0; when \<open>malloc\<close> fails it returns -1 and the list is as before. Its loop always ends.\<close>

theorem list_tail_insert_appends:
  assumes "list_at h H ns"
  shows "\<exists>h'. if moom h (brk h)
              then list_tail_insert h H value = returns (-1, h') \<and> list_at h' H ns
              else list_tail_insert h H value = returns (0, h') \<and>
                   list_at h' H (ns @ [(brk h, value)])"
  using tail_insert_result [OF assms, of "value"] tail_insert_no_memory [OF assms, of "value"]
  by (cases "moom h (brk h)") auto

theorem list_tail_insert_appends_witness:
  "\<exists>h'. list_tail_insert heap_529 (Some 0) 4 = returns (0, h') \<and>
        list_at h' (Some 0) [(1, 5), (2, 2), (3, 9), (4, 4)]"
  using list_tail_insert_appends [OF heap_529_list, of 4] by simp

text \<open>C36: \<open>list_insert\<close> at a position up to the length puts the value there and shifts the rest;
  a position below 0 counts as 0; a position past the end returns -1 and changes nothing.\<close>

theorem list_insert_at_position:
  assumes "list_at h H ns" and "in_int (pos - 1)" and "\<not> moom h (brk h)"
  shows "\<exists>h'. if nat pos \<le> length ns
              then list_insert h H value pos = Inr (0, h') \<and>
                   list_at h' H (take (nat pos) ns @ (brk h, value) # drop (nat pos) ns)
              else list_insert h H value pos = Inr (-1, h') \<and> h' = h"
  using insert_result [OF assms(1,3,2)] insert_beyond [OF assms(1,2)] by auto

theorem list_insert_at_position_witness:
  "\<exists>h'. list_insert heap_529 (Some 0) 8 1 = Inr (0, h') \<and>
        list_at h' (Some 0) [(1, 5), (4, 8), (2, 2), (3, 9)]"
  using list_insert_at_position [OF heap_529_list, of 1 8] by (simp add: int_range_defs)

text \<open>C37: on a list with its head cell, \<open>list_delete\<close> at an existing position (0 or more, below the
  length) unlinks that cell, frees it and returns 0; at a position beyond the end, or on an empty list,
  it returns -1 and changes nothing. A negative position above \<open>INT_MIN\<close> is not rejected: it deletes
  the first cell of a non-empty list and returns 0.\<close>

theorem list_delete_at_position:
  assumes "list_at h H ns" and "in_int (pos - 1)"
  shows "\<exists>h'. if 0 \<le> pos \<and> pos < int (length ns)
              then list_delete h H pos = Inr (0, h') \<and>
                   list_at h' H (take (nat pos) ns @ drop (Suc (nat pos)) ns) \<and>
                   cells h' (fst (ns ! nat pos)) = None
              else if pos < 0 \<and> ns \<noteq> []
              then list_delete h H pos = Inr (0, h') \<and> list_at h' H (tl ns) \<and>
                   cells h' (fst (hd ns)) = None
              else list_delete h H pos = Inr (-1, h') \<and> h' = h"
proof (cases "nat pos < length ns")
  case True
  with delete_result [OF assms] show ?thesis
    by (cases "pos < 0") (auto simp: hd_conv_nth drop_Suc)
next
  case False
  with delete_beyond [OF assms] show ?thesis by auto
qed

theorem list_delete_at_position_witness:
  "\<exists>h'. list_delete heap_529 (Some 0) 1 = Inr (0, h') \<and>
        list_at h' (Some 0) [(1, 5), (3, 9)] \<and> cells h' 2 = None"
  using list_delete_at_position [OF heap_529_list, of 1] by (simp add: int_range_defs)

text \<open>deleting at the position of a successful insertion restores the list.\<close>

theorem insert_then_delete:
  assumes "list_at h H ns" and "in_int (pos - 1)" and "\<not> moom h (brk h)"
    and "list_insert h H value pos = Inr (0, h')"
  shows "\<exists>h''. list_delete h' H pos = Inr (0, h'') \<and> list_at h'' H ns"
proof -
  have le: "nat pos \<le> length ns"
    using insert_beyond [OF assms(1,2), of "value"] assms(4) by (cases "nat pos \<le> length ns") auto
  with insert_result [OF assms(1,3,2) le, of "value"] assms(4)
  have "list_at h' H (take (nat pos) ns @ (brk h, value) # drop (nat pos) ns)" by auto
  from delete_result [OF this assms(2)] le show ?thesis by auto
qed

theorem insert_then_delete_witness:
  "\<exists>h' h''. list_insert heap_529 (Some 0) 8 3 = Inr (0, h') \<and>
            list_delete h' (Some 0) 3 = Inr (0, h'') \<and>
            list_at h'' (Some 0) [(1, 5), (2, 2), (3, 9)]"
proof -
  have pos: "in_int (3 - 1)" by (simp add: int_range_defs)
  obtain h' where "list_insert heap_529 (Some 0) 8 3 = Inr (0, h')"
    using insert_result [OF heap_529_list _ pos, of 8] by auto
  with insert_then_delete [OF heap_529_list pos _ this] show ?thesis by auto
qed

text \<open>\<open>list_poo\<close> takes the last cell off a non-empty list, hands it over still allocated, and
  returns NULL without any change on an empty list: the list is used last in, first out.\<close>

theorem list_poo_takes_last:
  assumes "list_at h H ns"
  shows "\<exists>p h'. list_poo h H = returns (p, h') \<and>
           (if ns = [] then p = None \<and> h' = h
            else p = Some (fst (last ns)) \<and> list_at h' H (butlast ns) \<and>
                 cells h' (fst (last ns)) = Some \<lparr>data = snd (last ns), nxt = None\<rparr>)"
proof (cases ns rule: rev_cases)
  case Nil
  with assms show ?thesis by (simp add: poo_empty)
next
  case (snoc ms x)
  obtain t w where "x = (t, w)" by (cases x)
  with assms snoc poo_result [of h H ms t w] show ?thesis by auto
qed

theorem list_poo_takes_last_witness:
  "\<exists>h'. list_poo heap_529 (Some 0) = returns (Some 3, h') \<and> list_at h' (Some 0) [(1, 5), (2, 2)]"
  using list_poo_takes_last [OF heap_529_list] by auto

text \<open>C35: \<open>list_reverse\<close> reverses the list in place: the cells are the same, in the opposite
  order, and no cell outside the list is written.\<close>

theorem list_reverse_reverses:
  assumes "list_at h H ns"
  shows "\<exists>h'. list_reverse h H = returns (0, h') \<and> list_at h' H (rev ns) \<and>
          frame h h' (insert (the H) (fst ` set ns))"
  using reverse_result [OF assms] .

theorem list_reverse_reverses_witness:
  "\<exists>h'. list_reverse heap_529 (Some 0) = returns (0, h') \<and>
        list_at h' (Some 0) [(3, 9), (2, 2), (1, 5)]"
  using list_reverse_reverses [OF heap_529_list] by auto

text \<open>C34: \<open>list_merge\<close> of two sorted lists that share no cell leaves in \<open>H1\<close> a sorted list of
  exactly the cells of both, and \<open>H2\<close> empty.\<close>

theorem list_merge_sorted:
  assumes "list_at h H1 ns" and "list_at h H2 ms"
    and "H1 \<noteq> H2" and "fst ` set ns \<inter> fst ` set ms = {}"
    and "the H1 \<notin> fst ` set ms" and "the H2 \<notin> fst ` set ns"
    and "sorted (map snd ns)" and "sorted (map snd ms)"
  shows "\<exists>h' ks. list_merge h H1 H2 = returns (0, h') \<and> list_at h' H1 ks \<and> list_at h' H2 [] \<and>
           mset ks = mset ns + mset ms \<and> sorted (map snd ks)"
  using merge_result [OF assms(1-6)] sorted_merge_cells [OF assms(7,8)] mset_merge_cells by blast

theorem list_merge_sorted_witness:
  "\<exists>h' ks. list_merge heap_two (Some 0) (Some 1) = returns (0, h') \<and> list_at h' (Some 0) ks \<and>
     list_at h' (Some 1) [] \<and> mset ks = {#(2, 2), (3, 7), (4, 3), (5, 7)#} \<and> sorted (map snd ks)"
  using list_merge_sorted [OF heap_two_lists] by (simp add: add_mset_commute)

text \<open>C38: on a list of at least three elements whose adjacent sums fit in an \<open>int\<close>,
  \<open>list_add_max\<close> stores the largest sum of two neighbours and returns the first of the pair that
  reaches it first.\<close>

theorem list_add_max_finds_best_pair:
  assumes "list_at h H ns" and "3 \<le> length ns"
    and "\<forall>s \<in> set (adjacent_sums (map snd ns)). in_int s"
  shows "\<exists>i m. list_add_max h H = returns (Some (fst (ns ! i)), Some m) \<and>
           i < length ns - 1 \<and> m = snd (ns ! i) + snd (ns ! Suc i) \<and>
           (\<forall>j < length ns - 1. snd (ns ! j) + snd (ns ! Suc j) \<le> m) \<and>
           (\<forall>j < i. snd (ns ! j) + snd (ns ! Suc j) < m)"
proof -
  have nth: "adjacent_sums (map snd ns) ! j = snd (ns ! j) + snd (ns ! Suc j)"
    if "j < length ns - 1" for j
    using that by (simp add: adjacent_sums_def nth_tl)
  from add_max_result [OF assms] obtain i m where
    im: "list_add_max h H = returns (Some (fst (ns ! i)), Some m)" "i < length ns - 1"
      "adjacent_sums (map snd ns) ! i = m" "\<forall>s \<in> set (adjacent_sums (map snd ns)). s \<le> m"
      "\<forall>j < i. adjacent_sums (map snd ns) ! j < m" by blast
  have "snd (ns ! j) + snd (ns ! Suc j) \<le> m" if "j < length ns - 1" for j
    using im(4) nth [OF that] that by (metis length_adjacent_sums length_map nth_mem)
  moreover have "snd (ns ! j) + snd (ns ! Suc j) < m" if "j < i" for j
    using im(2,5) nth [of j] that by auto
  ultimately show ?thesis using im(1,2,3) nth [OF im(2)] by blast
qed

theorem list_add_max_finds_best_pair_witness:
  "list_add_max heap_529 (Some 0) = returns (Some 2, Some 11)"
proof -
  let ?ns = "[(1 :: nat, 5), (2, 2), (3, 9)] :: (nat \<times> int) list"
  have "\<forall>s \<in> set (adjacent_sums (map snd ?ns)). in_int s" by (simp add: int_range_defs)
  from list_add_max_finds_best_pair [OF heap_529_list _ this] obtain i m where
    im: "list_add_max heap_529 (Some 0) = returns (Some (fst (?ns ! i)), Some m)"
      "i < 2" "m = snd (?ns ! i) + snd (?ns ! Suc i)"
      "\<forall>j < 2. snd (?ns ! j) + snd (?ns ! Suc j) \<le> m" by auto
  from im(4) have "snd (?ns ! 1) + snd (?ns ! Suc 1) \<le> m" by (metis one_less_numeral_iff semiring_norm(76))
  with im(2,3) have "i = 1" by (cases i) auto
  with im(1,3) show ?thesis by simp
qed

text \<open>\<open>list_free\<close> on any list, the empty one included, reads \<open>next\<close> from the header it has
  just freed: no call on a list completes.\<close>

theorem list_free_use_after_free:
  assumes "list_at h H ns"
  shows "list_free h H = faults UseAfterFree"
  using free_result [OF assms] .

theorem list_free_use_after_free_witness: "list_free heap_529 (Some 0) = faults UseAfterFree"
  by (rule list_free_use_after_free [OF heap_529_list])

text \<open>\<open>list_show\<close> prints the values in list order and returns 0, except on an empty list,
  where it dereferences NULL.\<close>

theorem list_show_prints:
  assumes "list_at h H ns"
  shows "list_show h H = (if ns = [] then faults NullDeref else returns (0, map snd ns))"
  using show_result [OF assms] show_empty assms by auto

theorem list_show_prints_witness: "list_show heap_529 (Some 0) = returns (0, [5, 2, 9])"
  using list_show_prints [OF heap_529_list] by simp

end
