(* ===== verification/Task_Queue.thy ===== *)
theory Task_Queue
  imports C_Base
begin

text \<open>
  The interface between the thread pools and their task queues: a bounded FIFO. Both pools of the
  repository (\<open>thread/threadpool.c\<close>, \<open>thread/threadpoolsimple.c\<close>) keep their tasks in an array
  used as a ring; both are shown to provide this interface, and what follows from it for any
  sequence of submissions and removals is proved once, here.
\<close>

section \<open>Ring arrays\<close>

text \<open>
  \<open>ring xs f n\<close>: the \<open>n\<close> entries of the array \<open>xs\<close> that start at index \<open>f\<close> and wrap around at its
  end.
\<close>

definition ring :: "'a list \<Rightarrow> nat \<Rightarrow> nat \<Rightarrow> 'a list" where
  "ring xs f n = map (\<lambda>k. xs ! ((f + k) mod length xs)) [0..<n]"

lemma length_ring [simp]: "length (ring xs f n) = n"
  by (simp add: ring_def)

lemma ring_0 [simp]: "ring xs f 0 = []"
  by (simp add: ring_def)

lemma ring_mod [simp]: "ring xs (f mod length xs) n = ring xs f n"
  by (simp add: ring_def mod_add_left_eq)

lemma mod_add_distinct: "k < n \<Longrightarrow> n < (L::nat) \<Longrightarrow> (f + k) mod L \<noteq> (f + n) mod L"
proof
  assume kn: "k < n" "n < L" and eq: "(f + k) mod L = (f + n) mod L"
  have "L dvd (f + n) - (f + k)"
    using eq [symmetric] kn(1) by (subst mod_eq_dvd_iff_nat [symmetric]) simp_all
  then have "L dvd n - k" by simp
  with kn show False by (auto dest: dvd_imp_le)
qed

lemma ring_put:
  assumes "n < length xs"
  shows "ring (xs[(f + n) mod length xs := t]) f (Suc n) = ring xs f n @ [t]"
proof (rule nth_equalityI)
  fix k
  assume "k < length (ring (xs[(f + n) mod length xs := t]) f (Suc n))"
  then have "k < n \<or> k = n" by auto
  moreover have "(f + n) mod length xs < length xs" using assms by (intro mod_less_divisor) auto
  ultimately show "ring (xs[(f + n) mod length xs := t]) f (Suc n) ! k = (ring xs f n @ [t]) ! k"
    using mod_add_distinct [of k n "length xs" f] assms
    by (auto simp: ring_def nth_append simp del: upt_Suc)
qed simp

lemma ring_get: "ring xs f (Suc n) = xs ! (f mod length xs) # ring xs (Suc f) n"
proof (rule nth_equalityI)
  fix k
  assume "k < length (ring xs f (Suc n))"
  then show "ring xs f (Suc n) ! k = (xs ! (f mod length xs) # ring xs (Suc f) n) ! k"
    by (cases k) (auto simp: ring_def simp del: upt_Suc)
qed simp

section \<open>The interface\<close>

text \<open>
  \<open>can_put\<close> and \<open>can_get\<close> are the guards under which the code performs the operation; where the
  guard fails the caller blocks.
\<close>

datatype 't fifo_op = Put 't | Get

fun fifo_run ::
  "('t \<Rightarrow> 'q \<Rightarrow> 'q res) \<Rightarrow> ('q \<Rightarrow> ('t \<times> 'q) res) \<Rightarrow> ('q \<Rightarrow> bool) \<Rightarrow> ('q \<Rightarrow> bool) \<Rightarrow>
   't fifo_op list \<Rightarrow> 'q \<Rightarrow> ('t list \<times> 't list \<times> 'q) res" where
  "fifo_run put get can_put can_get [] q = Inr ([], [], q)"
| "fifo_run put get can_put can_get (Put t # ops) q =
     (if can_put q
      then bindR (put t q) (\<lambda>q1.
           bindR (fifo_run put get can_put can_get ops q1)
             (\<lambda>(acc, del, q2). Inr (t # acc, del, q2)))
      else fifo_run put get can_put can_get ops q)"
| "fifo_run put get can_put can_get (Get # ops) q =
     (if can_get q
      then bindR (get q) (\<lambda>(t, q1).
           bindR (fifo_run put get can_put can_get ops q1)
             (\<lambda>(acc, del, q2). Inr (acc, t # del, q2)))
      else fifo_run put get can_put can_get ops q)"

locale bounded_fifo =
  fixes put :: "'t \<Rightarrow> 'q \<Rightarrow> 'q res"
    and get :: "'q \<Rightarrow> ('t \<times> 'q) res"
    and can_put :: "'q \<Rightarrow> bool"
    and can_get :: "'q \<Rightarrow> bool"
    and contents :: "'q \<Rightarrow> 't list"
    and cap :: "'q \<Rightarrow> nat"
    and ok :: "'q \<Rightarrow> bool"
  assumes put_law: "ok q \<Longrightarrow> can_put q \<Longrightarrow>
      \<exists>q'. put t q = Inr q' \<and> ok q' \<and> contents q' = contents q @ [t] \<and> cap q' = cap q"
    and get_law: "ok q \<Longrightarrow> can_get q \<Longrightarrow>
      \<exists>t q'. get q = Inr (t, q') \<and> ok q' \<and> contents q = t # contents q' \<and> cap q' = cap q"
    and bounded: "ok q \<Longrightarrow> length (contents q) \<le> cap q"
begin

lemma putE:
  assumes "ok q" and "can_put q"
  obtains q' where "put t q = Inr q'" and "ok q'" and "contents q' = contents q @ [t]"
    and "cap q' = cap q"
  using put_law [OF assms] by blast

lemma getE:
  assumes "ok q" and "can_get q"
  obtains t q' where "get q = Inr (t, q')" and "ok q'" and "contents q = t # contents q'"
    and "cap q' = cap q"
  using get_law [OF assms] by blast

text \<open>Any mix of submissions and removals delivers the accepted tasks in the order of acceptance.\<close>

lemma run_order:
  "ok q \<Longrightarrow>
   \<exists>acc del q'. fifo_run put get can_put can_get ops q = Inr (acc, del, q') \<and> ok q' \<and>
     cap q' = cap q \<and> contents q @ acc = del @ contents q'"
proof (induction ops arbitrary: q)
  case Nil
  then show ?case by simp
next
  case (Cons e ops)
  show ?case
  proof (cases e)
    case (Put t)
    show ?thesis
    proof (cases "can_put q")
      case True
      from putE [OF Cons.prems True, of t] obtain q1 where
        q1: "put t q = Inr q1" "ok q1" "contents q1 = contents q @ [t]" "cap q1 = cap q" by blast
      from Cons.IH [OF q1(2)] obtain acc del q' where
        "fifo_run put get can_put can_get ops q1 = Inr (acc, del, q')" "ok q'" "cap q' = cap q1"
        "contents q1 @ acc = del @ contents q'" by blast
      with Put True q1 show ?thesis by simp
    next
      case False
      with Put Cons.IH [OF Cons.prems] show ?thesis by simp
    qed
  next
    case Get
    show ?thesis
    proof (cases "can_get q")
      case True
      from getE [OF Cons.prems True] obtain t q1 where
        q1: "get q = Inr (t, q1)" "ok q1" "contents q = t # contents q1" "cap q1 = cap q" by blast
      from Cons.IH [OF q1(2)] obtain acc del q' where
        "fifo_run put get can_put can_get ops q1 = Inr (acc, del, q')" "ok q'" "cap q' = cap q1"
        "contents q1 @ acc = del @ contents q'" by blast
      with Get True q1 show ?thesis by simp
    next
      case False
      with Get Cons.IH [OF Cons.prems] show ?thesis by simp
    qed
  qed
qed

lemma run_bounded:
  "ok q \<Longrightarrow> fifo_run put get can_put can_get ops q = Inr (acc, del, q') \<Longrightarrow>
   length (contents q') \<le> cap q"
  using run_order [of q ops] bounded [of q'] by auto

end

end
