(* ===== verification/ThreadPool.thy ===== *)
theory ThreadPool
  imports Task_Queue
begin

text \<open>
  \<open>thread/threadpool.c\<close>: the pool structure, its task ring, the critical sections of every function,
  and the system that workers, callers of \<open>threadpool_add\<close>, the manager thread and
  \<open>threadpool_destroy\<close> form together. A region between locking and unlocking a mutex is one step of
  the system; waiting on a condition variable, being woken and re-entering are separate steps, and
  a wake-up may also be spurious. Addresses (function pointers, arguments) are numbers, 0 is NULL.
\<close>

section \<open>Data\<close>

record task =
  func :: nat
  targ :: nat

text \<open>A heap block behind a pointer of the structure.\<close>

datatype 'a mem = Uninit | NullP | Block 'a

fun deref :: "'a mem \<Rightarrow> 'a res" where
  "deref Uninit = Inl Uninitialised"
| "deref NullP = Inl NullDeref"
| "deref (Block x) = Inr x"

record pool =
  locks_ready :: bool
  threads :: "nat list mem"
  task_queue :: "task list mem"
  min_thr_num :: int
  max_thr_num :: int
  live_thr_num :: int
  busy_thr_num :: int
  wait_exit_thr_num :: int
  queue_front :: int
  queue_rear :: int
  queue_size :: int
  queue_max_size :: int
  shutdown :: bool

definition MIN_WAIT_TASK_NUM :: int where "MIN_WAIT_TASK_NUM = 10"
definition DEFAULT_THREAD_VARY :: nat where "DEFAULT_THREAD_VARY = 10"

section \<open>Creation and release\<close>

text \<open>
  \<open>threadpool_free\<close> tests and frees \<open>task_queue\<close>, then \<open>threads\<close>, then takes down the locks. An
  indeterminate pointer or lock is undefined behaviour.
\<close>

definition threadpool_free :: "pool option \<Rightarrow> int res" where
  "threadpool_free pl =
     (case pl of None \<Rightarrow> Inr (-1)
      | Some p \<Rightarrow>
          if task_queue p = Uninit then Inl Uninitialised
          else (case threads p of
                  Uninit \<Rightarrow> Inl Uninitialised
                | NullP \<Rightarrow> Inr 0
                | Block _ \<Rightarrow> if locks_ready p then Inr 0 else Inl Uninitialised))"

text \<open>
  What the environment answers during creation: the three \<open>malloc\<close> calls, how many of the four
  initialisations of locks and condition variables succeed, the answers of \<open>pthread_create\<close> for the
  workers, and whether the manager could be created. \<open>junk_task\<close> is what the fresh task array holds.
\<close>

record create_env =
  pool_mem :: bool
  threads_mem :: bool
  queue_mem :: bool
  inits :: nat
  starts :: "nat option list"
  manager_starts :: bool
  junk_task :: task

text \<open>
  The answer of the \<open>k\<close>-th call of \<open>pthread_create\<close> in a loop: \<open>None\<close> says that a thread was created
  (so does a call past the end of the list), \<open>Some junk\<close> that there was none, and that the location
  of its id now holds \<open>junk\<close>: POSIX leaves it undefined then. The code ignores the answer. The
  \<open>c\<close>-th worker that is really created has the thread id \<open>Suc c\<close>.
\<close>

definition creation :: "nat option list \<Rightarrow> nat \<Rightarrow> nat option" where
  "creation rs k = (if k < length rs then rs ! k else None)"

definition stored_id :: "nat option \<Rightarrow> nat \<Rightarrow> nat" where
  "stored_id r fresh = (case r of None \<Rightarrow> fresh | Some junk \<Rightarrow> junk)"

definition next_id :: "nat option \<Rightarrow> nat \<Rightarrow> nat" where
  "next_id r fresh = (case r of None \<Rightarrow> Suc fresh | Some junk \<Rightarrow> fresh)"

text \<open>The loop that starts the first workers, \<open>tid'\<close> being the next fresh thread id.\<close>

fun start_workers :: "nat option list \<Rightarrow> nat \<Rightarrow> nat \<Rightarrow> nat \<Rightarrow> pool \<Rightarrow> pool res" where
  "start_workers rs 0 i tid' p = Inr p"
| "start_workers rs (Suc n) i tid' p =
     bindR (deref (threads p)) (\<lambda>ts.
     bindR (arr_set ts (int i) (stored_id (creation rs i) tid')) (\<lambda>ts'.
       start_workers rs n (Suc i) (next_id (creation rs i) tid') (p\<lparr>threads := Block ts'\<rparr>)))"

text \<open>How many of the first \<open>n\<close> calls created a worker.\<close>

definition created_workers :: "nat option list \<Rightarrow> nat \<Rightarrow> nat" where
  "created_workers rs n = length (filter (\<lambda>k. creation rs k = None) [0..<n])"

definition threadpool_create :: "create_env \<Rightarrow> int \<Rightarrow> int \<Rightarrow> int \<Rightarrow> pool option res" where
  "threadpool_create e min_n max_n queue_max =
     (let give_up = (\<lambda>pl. bindR (threadpool_free pl) (\<lambda>_. Inr None));
          p0 = \<lparr>locks_ready = False, threads = Uninit, task_queue = Uninit,
                min_thr_num = min_n, max_thr_num = max_n, live_thr_num = min_n,
                busy_thr_num = 0, wait_exit_thr_num = 0, queue_front = 0, queue_rear = 0,
                queue_size = 0, queue_max_size = queue_max, shutdown = False\<rparr>
      in if \<not> pool_mem e then give_up None
         else if \<not> threads_mem e then give_up (Some (p0\<lparr>threads := NullP\<rparr>))
         else let p1 = p0\<lparr>threads := Block (replicate (nat max_n) 0)\<rparr>
              in if \<not> queue_mem e then give_up (Some (p1\<lparr>task_queue := NullP\<rparr>))
                 else let p2 = p1\<lparr>task_queue := Block (replicate (nat queue_max) (junk_task e))\<rparr>
                      in if inits e < 4 then give_up (Some p2)
                         else bindR (start_workers (starts e) (nat min_n) 0 1 (p2\<lparr>locks_ready := True\<rparr>))
                                (\<lambda>p. Inr (Some p)))"

section \<open>The task ring\<close>

text \<open>Entering a task at the rear: the argument slot is cleared first, then both fields are set.\<close>

definition tq_put :: "task \<Rightarrow> pool \<Rightarrow> pool res" where
  "tq_put t p =
     bindR (deref (task_queue p)) (\<lambda>q.
     bindR (arr_get q (queue_rear p)) (\<lambda>old.
     bindR (arr_set q (queue_rear p) (old\<lparr>targ := 0\<rparr>)) (\<lambda>q1.
     bindR (arr_set q1 (queue_rear p) \<lparr>func = func t, targ = targ t\<rparr>) (\<lambda>q2.
     bindR (c_add (queue_rear p) 1) (\<lambda>r.
     bindR (c_mod r (queue_max_size p)) (\<lambda>rear.
     bindR (c_add (queue_size p) 1) (\<lambda>n.
       Inr (p\<lparr>task_queue := Block q2, queue_rear := rear, queue_size := n\<rparr>))))))))"

definition tq_get :: "pool \<Rightarrow> (task \<times> pool) res" where
  "tq_get p =
     bindR (deref (task_queue p)) (\<lambda>q.
     bindR (arr_get q (queue_front p)) (\<lambda>t.
     bindR (c_add (queue_front p) 1) (\<lambda>f.
     bindR (c_mod f (queue_max_size p)) (\<lambda>front.
     bindR (c_sub (queue_size p) 1) (\<lambda>n.
       Inr (t, p\<lparr>queue_front := front, queue_size := n\<rparr>))))))"

section \<open>Critical sections\<close>

text \<open>\<open>threadpool_add\<close> between taking and releasing (or waiting with) the lock.\<close>

datatype add_out = AddBlocks | AddDropped | AddQueued pool

definition threadpool_add :: "task \<Rightarrow> pool \<Rightarrow> add_out res" where
  "threadpool_add t p =
     (if queue_size p = queue_max_size p \<and> \<not> shutdown p then Inr AddBlocks
      else if shutdown p then Inr AddDropped
      else bindR (tq_put t p) (\<lambda>p'. Inr (AddQueued p')))"

text \<open>
  Where a worker is: at the top of its loop, waiting on \<open>queue_not_empty\<close>, woken and about to take
  the lock again, holding a task that it has not begun, running it, or gone: retired by the
  manager or stopped by the shutdown.
\<close>

datatype wpc = WLoop | WWait | WWoken | WTask task | WRun task | WRetired | WStopped

definition worker_take :: "pool \<Rightarrow> (wpc \<times> pool) res" where
  "worker_take p =
     (if queue_size p = 0 \<and> \<not> shutdown p then Inr (WWait, p)
      else if shutdown p then Inr (WStopped, p)
      else bindR (tq_get p) (\<lambda>(t, p'). Inr (WTask t, p')))"

text \<open>
  After \<open>pthread_cond_wait\<close> returns: the exit request is looked at before the queue.
\<close>

definition worker_woken :: "pool \<Rightarrow> (wpc \<times> pool) res" where
  "worker_woken p =
     (if wait_exit_thr_num p > 0
      then let p1 = p\<lparr>wait_exit_thr_num := wait_exit_thr_num p - 1\<rparr>
           in if live_thr_num p1 > min_thr_num p1
              then Inr (WRetired, p1\<lparr>live_thr_num := live_thr_num p1 - 1\<rparr>)
              else worker_take p1
      else worker_take p)"

definition worker_begin :: "pool \<Rightarrow> pool res" where
  "worker_begin p = bindR (c_add (busy_thr_num p) 1) (\<lambda>b. Inr (p\<lparr>busy_thr_num := b\<rparr>))"

definition worker_end :: "pool \<Rightarrow> pool res" where
  "worker_end p = bindR (c_sub (busy_thr_num p) 1) (\<lambda>b. Inr (p\<lparr>busy_thr_num := b\<rparr>))"

definition ESRCH :: int where "ESRCH = 3"

definition is_thread_alive :: "int res \<Rightarrow> bool res" where
  "is_thread_alive kill = bindR kill (\<lambda>kill_rc. Inr (if kill_rc = ESRCH then False else True))"

text \<open>The test \<open>threads[i] == 0 || !is_thread_alive(threads[i])\<close>.\<close>

definition slot_free :: "(nat \<Rightarrow> int res) \<Rightarrow> nat \<Rightarrow> bool res" where
  "slot_free kill tid =
     (if tid = 0 then Inr True
      else bindR (is_thread_alive (kill tid)) (\<lambda>alive. Inr (\<not> alive)))"

text \<open>
  The manager's loop that adds up to \<open>DEFAULT_THREAD_VARY\<close> workers, \<open>kill tid\<close> being the call of
  \<open>pthread_kill(tid, 0)\<close>, \<open>rs\<close> the answers of \<open>pthread_create\<close> and \<open>tid'\<close> the next fresh thread id.
  Both counters go up whatever \<open>pthread_create\<close> answered.
\<close>

function adjust_create ::
  "(nat \<Rightarrow> int res) \<Rightarrow> nat option list \<Rightarrow> int \<Rightarrow> nat \<Rightarrow> nat \<Rightarrow> pool \<Rightarrow> (nat \<times> nat \<times> pool) res" where
  "adjust_create kill rs i added tid' p =
     (if i < max_thr_num p \<and> added < DEFAULT_THREAD_VARY \<and> live_thr_num p < max_thr_num p
      then
        bindR (deref (threads p)) (\<lambda>ts.
        bindR (arr_get ts i) (\<lambda>tid.
        bindR (slot_free kill tid) (\<lambda>free.
          if free
          then
            bindR (arr_set ts i (stored_id (creation rs added) tid')) (\<lambda>ts'.
            bindR (c_add (live_thr_num p) 1) (\<lambda>l.
              adjust_create kill rs (i + 1) (Suc added) (next_id (creation rs added) tid')
                (p\<lparr>threads := Block ts', live_thr_num := l\<rparr>)))
          else adjust_create kill rs (i + 1) added tid' p)))
      else Inr (added, tid', p))"
  by pat_completeness auto
termination
  by (relation "measure (\<lambda>(kill, rs, i, added, tid', p). nat (max_thr_num p - i))") auto

declare adjust_create.simps [simp del]

definition adjust_wants_more :: "int \<Rightarrow> int \<Rightarrow> pool \<Rightarrow> bool" where
  "adjust_wants_more queue_n live_n p \<longleftrightarrow> queue_n \<ge> MIN_WAIT_TASK_NUM \<and> live_n < max_thr_num p"

definition adjust_wants_fewer :: "int \<Rightarrow> int \<Rightarrow> pool \<Rightarrow> bool res" where
  "adjust_wants_fewer busy_n live_n p =
     (if in_int (busy_n * 2) then Inr (busy_n * 2 < live_n \<and> live_n > min_thr_num p)
      else Inl SignedOverflow)"

definition threadpool_all_threadnum :: "pool \<Rightarrow> int" where
  "threadpool_all_threadnum p = live_thr_num p"

definition threadpool_busy_threadnum :: "pool \<Rightarrow> int" where
  "threadpool_busy_threadnum p = busy_thr_num p"

end
