(* ===== verification/ThreadPool_Sys.thy ===== *)
theory ThreadPool_Sys
  imports ThreadPool
begin

text \<open>
  The running system of \<open>thread/threadpool.c\<close>. An event names the thread that moves and, where the
  code signals a condition variable, which waiter the signal wakes; \<open>tp_exec\<close> performs one event,
  and a state is reachable when some sequence of events leads to it. The lists \<open>accepted\<close>,
  \<open>started\<close>, \<open>finished\<close> and \<open>dropped\<close> only record what happened to the tasks, and \<open>unborn\<close> how many
  calls of \<open>pthread_create\<close> for a worker failed. The first \<open>detached\<close> workers were created detached, by
  \<open>threadpool_create\<close>; those the manager creates are joinable, and nobody joins them.
\<close>

section \<open>State\<close>

text \<open>A caller of \<open>threadpool_add\<close>: outside, waiting on \<open>queue_not_full\<close>, or woken.\<close>

datatype ppc = PIdle | PWait task | PWoken task

text \<open>The manager: its values are the local variables it has read so far.\<close>

datatype apc =
    ATop
  | ASnap
  | ABusy int int
  | AGrow int int int
  | AShrink int int
  | ASignal nat
  | AExit

datatype dpc = DNone | DFlagged | DBroadcast | DDone

record tp_sys =
  tp_pool :: "pool option"
  workers :: "wpc list"
  detached :: nat
  unborn :: nat
  producers :: "ppc list"
  adjuster :: apc
  destroyer :: dpc
  fault :: "c_error option"
  accepted :: "task list"
  started :: "task list"
  finished :: "task list"
  dropped :: "task list"

definition tp_init :: "create_env \<Rightarrow> pool \<Rightarrow> nat \<Rightarrow> tp_sys" where
  "tp_init e p n =
     (let k = created_workers (starts e) (nat (min_thr_num p)) in
     \<lparr>tp_pool = Some p, workers = replicate k WLoop, detached = k,
      unborn = nat (min_thr_num p) - k, producers = replicate n PIdle,
      adjuster = (if manager_starts e then ATop else AExit), destroyer = DNone, fault = None,
      accepted = [], started = [], finished = [], dropped = []\<rparr>)"

section \<open>Condition variables\<close>

text \<open>
  \<open>pthread_cond_signal(&queue_not_empty)\<close>: wakes the chosen waiter; without a choice it must find
  nobody waiting.
\<close>

definition signal_worker :: "nat option \<Rightarrow> wpc list \<Rightarrow> wpc list option" where
  "signal_worker k ws =
     (case k of
        None \<Rightarrow> if WWait \<in> set ws then None else Some ws
      | Some i \<Rightarrow> if i < length ws \<and> ws ! i = WWait then Some (ws[i := WWoken]) else None)"

definition wake_worker :: "wpc \<Rightarrow> wpc" where
  "wake_worker w = (if w = WWait then WWoken else w)"

fun wake_producer :: "ppc \<Rightarrow> ppc" where
  "wake_producer (PWait t) = PWoken t"
| "wake_producer x = x"

section \<open>Effects of the critical sections\<close>

text \<open>An access to a freed pool, or a fault inside the section, ends the run.\<close>

definition with_pool :: "tp_sys \<Rightarrow> (pool \<Rightarrow> tp_sys option res) \<Rightarrow> tp_sys option" where
  "with_pool s f =
     (case tp_pool s of
        None \<Rightarrow> Some (s\<lparr>fault := Some UseAfterFree\<rparr>)
      | Some p \<Rightarrow> (case f p of Inl e \<Rightarrow> Some (s\<lparr>fault := Some e\<rparr>) | Inr r \<Rightarrow> r))"

definition add_effect :: "nat \<Rightarrow> task \<Rightarrow> nat option \<Rightarrow> tp_sys \<Rightarrow> tp_sys option" where
  "add_effect i t k s =
     with_pool s (\<lambda>p. bindR (threadpool_add t p) (\<lambda>r.
       case r of
         AddBlocks \<Rightarrow> Inr (Some (s\<lparr>producers := (producers s)[i := PWait t]\<rparr>))
       | AddDropped \<Rightarrow>
           Inr (Some (s\<lparr>producers := (producers s)[i := PIdle],
                        workers := map wake_worker (workers s), dropped := dropped s @ [t]\<rparr>))
       | AddQueued p' \<Rightarrow>
           Inr (case signal_worker k (workers s) of
                  None \<Rightarrow> None
                | Some ws \<Rightarrow>
                    Some (s\<lparr>tp_pool := Some p', producers := (producers s)[i := PIdle],
                            workers := ws, accepted := accepted s @ [t]\<rparr>))))"

definition worker_effect ::
  "(pool \<Rightarrow> (wpc \<times> pool) res) \<Rightarrow> nat \<Rightarrow> tp_sys \<Rightarrow> tp_sys option" where
  "worker_effect section j s =
     with_pool s (\<lambda>p. bindR (section p) (\<lambda>(w, p').
       let s1 = s\<lparr>tp_pool := Some p', workers := (workers s)[j := w]\<rparr>
       in Inr (Some (case w of
            WTask t \<Rightarrow> s1\<lparr>producers := map wake_producer (producers s), started := started s @ [t]\<rparr>
          | _ \<Rightarrow> s1))))"

text \<open>
  \<open>pthread_kill(tid, 0)\<close> for the thread ids \<open>1\<close>, \<open>2\<close>, \<open>...\<close> of the workers. The id of a detached thread
  that has ended is gone with it, and a value that no thread ever had is no id: using either is
  undefined. A joinable thread that has ended keeps its id until it is joined; the answer is then
  \<open>zombie\<close>, which is 0 or \<open>ESRCH\<close> depending on the C library.
\<close>

definition ended_worker :: "wpc \<Rightarrow> bool" where
  "ended_worker w \<longleftrightarrow> w = WRetired \<or> w = WStopped"

definition pthread_kill :: "int \<Rightarrow> nat \<Rightarrow> wpc list \<Rightarrow> nat \<Rightarrow> int res" where
  "pthread_kill zombie d ws tid =
     (if tid = 0 \<or> length ws < tid then Inl Uninitialised
      else if \<not> ended_worker (ws ! (tid - 1)) then Inr 0
      else if tid \<le> d then Inl UseAfterFree else Inr zombie)"

definition grow_effect ::
  "int \<Rightarrow> nat option list \<Rightarrow> int \<Rightarrow> int \<Rightarrow> int \<Rightarrow> tp_sys \<Rightarrow> tp_sys option" where
  "grow_effect zombie rs q l b s =
     with_pool s (\<lambda>p.
       if adjust_wants_more q l p
       then bindR (adjust_create (pthread_kill zombie (detached s) (workers s)) rs 0 0
                     (Suc (length (workers s))) p)
              (\<lambda>(add, tid', p').
                 let n = tid' - Suc (length (workers s))
                 in Inr (Some (s\<lparr>tp_pool := Some p', workers := workers s @ replicate n WLoop,
                                 unborn := unborn s + (add - n), adjuster := AShrink l b\<rparr>)))
       else Inr (Some (s\<lparr>adjuster := AShrink l b\<rparr>)))"

definition shrink_effect :: "int \<Rightarrow> int \<Rightarrow> tp_sys \<Rightarrow> tp_sys option" where
  "shrink_effect l b s =
     with_pool s (\<lambda>p. bindR (adjust_wants_fewer b l p) (\<lambda>fewer.
       if fewer
       then Inr (Some (s\<lparr>tp_pool := Some (p\<lparr>wait_exit_thr_num := int DEFAULT_THREAD_VARY\<rparr>),
                         adjuster := ASignal DEFAULT_THREAD_VARY\<rparr>))
       else Inr (Some (s\<lparr>adjuster := ATop\<rparr>))))"

section \<open>Events\<close>

datatype tp_event =
    AddCall nat task "nat option"
  | AddAgain nat "nat option"
  | AddSpurious nat
  | WEnter nat
  | WResume nat
  | WSpurious nat
  | WBegin nat
  | WEnd nat
  | AdjTest
  | AdjSnap
  | AdjBusy
  | AdjGrow int "nat option list"
  | AdjShrink
  | AdjSignal "nat option"
  | DestroyFlag
  | DestroyWake
  | DestroyFree

fun tp_event_exec :: "tp_event \<Rightarrow> tp_sys \<Rightarrow> tp_sys option" where
  "tp_event_exec (AddCall i t k) s =
     (if i < length (producers s) \<and> producers s ! i = PIdle then add_effect i t k s else None)"
| "tp_event_exec (AddAgain i k) s =
     (if i < length (producers s)
      then (case producers s ! i of PWoken t \<Rightarrow> add_effect i t k s | _ \<Rightarrow> None) else None)"
| "tp_event_exec (AddSpurious i) s =
     (if i < length (producers s)
      then Some (s\<lparr>producers := (producers s)[i := wake_producer (producers s ! i)]\<rparr>) else None)"
| "tp_event_exec (WEnter j) s =
     (if j < length (workers s) \<and> workers s ! j = WLoop then worker_effect worker_take j s else None)"
| "tp_event_exec (WResume j) s =
     (if j < length (workers s) \<and> workers s ! j = WWoken then worker_effect worker_woken j s else None)"
| "tp_event_exec (WSpurious j) s =
     (if j < length (workers s) \<and> workers s ! j = WWait
      then Some (s\<lparr>workers := (workers s)[j := WWoken]\<rparr>) else None)"
| "tp_event_exec (WBegin j) s =
     (if j < length (workers s)
      then (case workers s ! j of
              WTask t \<Rightarrow> with_pool s (\<lambda>p. bindR (worker_begin p) (\<lambda>p'.
                Inr (Some (s\<lparr>tp_pool := Some p', workers := (workers s)[j := WRun t]\<rparr>))))
            | _ \<Rightarrow> None) else None)"
| "tp_event_exec (WEnd j) s =
     (if j < length (workers s)
      then (case workers s ! j of
              WRun t \<Rightarrow> with_pool s (\<lambda>p. bindR (worker_end p) (\<lambda>p'.
                Inr (Some (s\<lparr>tp_pool := Some p', workers := (workers s)[j := WLoop],
                             finished := finished s @ [t]\<rparr>))))
            | _ \<Rightarrow> None) else None)"
| "tp_event_exec AdjTest s =
     (if adjuster s = ATop
      then with_pool s (\<lambda>p. Inr (Some (s\<lparr>adjuster := (if shutdown p then AExit else ASnap)\<rparr>)))
      else None)"
| "tp_event_exec AdjSnap s =
     (if adjuster s = ASnap
      then with_pool s (\<lambda>p. Inr (Some (s\<lparr>adjuster := ABusy (queue_size p) (live_thr_num p)\<rparr>)))
      else None)"
| "tp_event_exec AdjBusy s =
     (case adjuster s of
        ABusy q l \<Rightarrow> with_pool s (\<lambda>p. Inr (Some (s\<lparr>adjuster := AGrow q l (busy_thr_num p)\<rparr>)))
      | _ \<Rightarrow> None)"
| "tp_event_exec (AdjGrow zombie rs) s =
     (case adjuster s of AGrow q l b \<Rightarrow> grow_effect zombie rs q l b s | _ \<Rightarrow> None)"
| "tp_event_exec AdjShrink s =
     (case adjuster s of AShrink l b \<Rightarrow> shrink_effect l b s | _ \<Rightarrow> None)"
| "tp_event_exec (AdjSignal k) s =
     (case adjuster s of
        ASignal (Suc n) \<Rightarrow> with_pool s (\<lambda>p. Inr (case signal_worker k (workers s) of
            None \<Rightarrow> None
          | Some ws \<Rightarrow> Some (s\<lparr>workers := ws, adjuster := (if n = 0 then ATop else ASignal n)\<rparr>)))
      | _ \<Rightarrow> None)"
| "tp_event_exec DestroyFlag s =
     (if destroyer s = DNone
      then with_pool s (\<lambda>p. Inr (Some (s\<lparr>tp_pool := Some (p\<lparr>shutdown := True\<rparr>), destroyer := DFlagged\<rparr>)))
      else None)"
| "tp_event_exec DestroyWake s =
     (if destroyer s = DFlagged
      then with_pool s (\<lambda>p. Inr (Some (s\<lparr>workers := (if 0 < live_thr_num p
                                                     then map wake_worker (workers s) else workers s),
                                         destroyer := DBroadcast\<rparr>)))
      else None)"
| "tp_event_exec DestroyFree s =
     (if destroyer s = DBroadcast
      then with_pool s (\<lambda>p. bindR (threadpool_free (Some p)) (\<lambda>_.
             Inr (Some (s\<lparr>tp_pool := None, destroyer := DDone\<rparr>))))
      else None)"

text \<open>After a fault nothing is defined any more.\<close>

definition tp_exec :: "tp_event \<Rightarrow> tp_sys \<Rightarrow> tp_sys option" where
  "tp_exec e s = (if fault s = None then tp_event_exec e s else None)"

fun tp_run :: "tp_event list \<Rightarrow> tp_sys \<Rightarrow> tp_sys option" where
  "tp_run [] s = Some s"
| "tp_run (e # es) s = (case tp_exec e s of None \<Rightarrow> None | Some s' \<Rightarrow> tp_run es s')"

inductive tp_step :: "tp_sys \<Rightarrow> tp_sys \<Rightarrow> bool" where
  tp_stepI: "tp_exec e s = Some s' \<Longrightarrow> tp_step s s'"

inductive tp_reachable :: "tp_sys \<Rightarrow> tp_sys \<Rightarrow> bool" for s0 where
  tp_start: "tp_reachable s0 s0"
| tp_more: "tp_reachable s0 s \<Longrightarrow> tp_step s s' \<Longrightarrow> tp_reachable s0 s'"

lemma tp_run_reachable: "tp_reachable s0 s \<Longrightarrow> tp_run es s = Some s' \<Longrightarrow> tp_reachable s0 s'"
proof (induction es arbitrary: s)
  case Nil
  then show ?case by simp
next
  case (Cons e es)
  from Cons.prems(2) obtain s1 where "tp_exec e s = Some s1" "tp_run es s1 = Some s'"
    by (auto split: option.splits)
  with Cons show ?case by (blast intro: tp_more tp_stepI)
qed

end
