(* ===== verification/ThreadPool_Correct.thy ===== *)
theory ThreadPool_Correct
  imports ThreadPool_Sys "HOL-Library.Multiset"
begin

text \<open>
  Why \<open>thread/threadpool.c\<close> works while the pool exists: its ring is a bounded FIFO, every critical
  section keeps the pool well formed and faults nowhere, and the system keeps its counters equal to
  what the workers do and loses no accepted task.
\<close>

declare mem.case_cong [cong]

section \<open>The ring is a bounded FIFO\<close>

definition tq_ok :: "pool \<Rightarrow> bool" where
  "tq_ok p \<longleftrightarrow>
     (case task_queue p of Block q \<Rightarrow> int (length q) = queue_max_size p | _ \<Rightarrow> False) \<and>
     0 < queue_max_size p \<and> queue_max_size p \<le> int_max \<and>
     0 \<le> queue_front p \<and> queue_front p < queue_max_size p \<and>
     0 \<le> queue_size p \<and> queue_size p \<le> queue_max_size p \<and>
     queue_rear p = (queue_front p + queue_size p) mod queue_max_size p"

definition tq_contents :: "pool \<Rightarrow> task list" where
  "tq_contents p =
     (case task_queue p of Block q \<Rightarrow> ring q (nat (queue_front p)) (nat (queue_size p)) | _ \<Rightarrow> [])"

text \<open>Everything but the queue itself is unchanged.\<close>

definition same_off :: "pool \<Rightarrow> pool \<Rightarrow> bool" where
  "same_off p p' \<longleftrightarrow>
     locks_ready p' = locks_ready p \<and> threads p' = threads p \<and>
     min_thr_num p' = min_thr_num p \<and> max_thr_num p' = max_thr_num p \<and>
     live_thr_num p' = live_thr_num p \<and> busy_thr_num p' = busy_thr_num p \<and>
     wait_exit_thr_num p' = wait_exit_thr_num p \<and> queue_max_size p' = queue_max_size p \<and>
     shutdown p' = shutdown p"

lemma tq_okE:
  assumes "tq_ok p"
  obtains q where "task_queue p = Block q" and "int (length q) = queue_max_size p"
    and "queue_rear p = (queue_front p + queue_size p) mod queue_max_size p"
    and "0 < queue_max_size p" "queue_max_size p \<le> int_max"
    and "0 \<le> queue_front p" "queue_front p < queue_max_size p"
    and "0 \<le> queue_size p" "queue_size p \<le> queue_max_size p"
  using assms by (cases "task_queue p") (auto simp: tq_ok_def)

lemma task_eta [simp]: "\<lparr>func = func t, targ = targ t\<rparr> = (t :: task)"
  by simp

lemma tq_put_ok:
  assumes ok: "tq_ok p" and room: "queue_size p \<noteq> queue_max_size p"
  shows "\<exists>p'. tq_put t p = Inr p' \<and> tq_ok p' \<and> tq_contents p' = tq_contents p @ [t] \<and>
           same_off p p'"
proof -
  from ok obtain q where q: "task_queue p = Block q" "int (length q) = queue_max_size p"
    and rear: "queue_rear p = (queue_front p + queue_size p) mod queue_max_size p"
    and b: "0 < queue_max_size p" "queue_max_size p \<le> int_max" "0 \<le> queue_front p"
      "queue_front p < queue_max_size p" "0 \<le> queue_size p" "queue_size p \<le> queue_max_size p"
    by (rule tq_okE)
  let ?m = "queue_max_size p" and ?f = "queue_front p" and ?n = "queue_size p"
  let ?r = "queue_rear p"
  have r: "0 \<le> ?r" "?r < ?m" using rear b by simp_all
  let ?rear = "(?r + 1) mod ?m"
  let ?p' = "p\<lparr>task_queue := Block (q[nat ?r := t]), queue_rear := ?rear, queue_size := ?n + 1\<rparr>"
  have "tq_put t p = Inr ?p'"
    using q r b room by (simp add: tq_put_def c_add_def int_range_defs c_mod_nonneg)
  moreover have "?rear = (?f + (?n + 1)) mod ?m"
    unfolding rear by (simp add: mod_add_left_eq add.assoc)
  then have "tq_ok ?p'" using q b room by (simp add: tq_ok_def)
  moreover have "tq_contents ?p' = tq_contents p @ [t]"
  proof -
    have "nat ?n < length q" using q b room by simp
    moreover have "nat ?r = (nat ?f + nat ?n) mod length q"
      unfolding rear using q(2) b by (simp add: nat_mod_distrib nat_add_distrib flip: q(2))
    moreover have "nat (?n + 1) = Suc (nat ?n)" using b by simp
    ultimately show ?thesis using q by (simp add: tq_contents_def ring_put)
  qed
  moreover have "same_off p ?p'" by (simp add: same_off_def)
  ultimately show ?thesis by blast
qed

lemma tq_get_ok:
  assumes ok: "tq_ok p" and some: "queue_size p \<noteq> 0"
  shows "\<exists>t p'. tq_get p = Inr (t, p') \<and> tq_ok p' \<and> tq_contents p = t # tq_contents p' \<and>
           same_off p p'"
proof -
  from ok obtain q where q: "task_queue p = Block q" "int (length q) = queue_max_size p"
    and rear: "queue_rear p = (queue_front p + queue_size p) mod queue_max_size p"
    and b: "0 < queue_max_size p" "queue_max_size p \<le> int_max" "0 \<le> queue_front p"
      "queue_front p < queue_max_size p" "0 \<le> queue_size p" "queue_size p \<le> queue_max_size p"
    by (rule tq_okE)
  let ?m = "queue_max_size p" and ?f = "queue_front p" and ?n = "queue_size p"
  let ?front = "(?f + 1) mod ?m"
  let ?p' = "p\<lparr>queue_front := ?front, queue_size := ?n - 1\<rparr>"
  have "tq_get p = Inr (q ! nat ?f, ?p')"
    using q b some
    by (simp add: tq_get_def c_add_def c_sub_def int_range_defs c_mod_nonneg)
  moreover have "(?front + (?n - 1)) mod ?m = (?f + ?n) mod ?m"
    by (simp add: mod_add_left_eq)
  then have "tq_ok ?p'" using q b some rear by (simp add: tq_ok_def)
  moreover have "tq_contents p = q ! nat ?f # tq_contents ?p'"
  proof -
    have "nat ?n = Suc (nat (?n - 1))" using b some by simp
    moreover have "nat ?front = Suc (nat ?f) mod length q"
      using q(2) b by (simp add: nat_mod_distrib nat_add_distrib flip: q(2))
    moreover have "nat ?f mod length q = nat ?f" using q(2) b by simp
    ultimately show ?thesis using q by (simp add: tq_contents_def ring_get)
  qed
  moreover have "same_off p ?p'" by (simp add: same_off_def)
  ultimately show ?thesis by blast
qed

lemma length_tq_contents: "tq_ok p \<Longrightarrow> length (tq_contents p) = nat (queue_size p)"
  by (erule tq_okE) (simp add: tq_contents_def)

interpretation tq: bounded_fifo tq_put tq_get
  "\<lambda>p. queue_size p \<noteq> queue_max_size p" "\<lambda>p. queue_size p \<noteq> 0"
  tq_contents "\<lambda>p. nat (queue_max_size p)" tq_ok
proof
  fix p :: pool and t
  assume "tq_ok p" and "queue_size p \<noteq> queue_max_size p"
  from tq_put_ok [OF this, of t]
  show "\<exists>q'. tq_put t p = Inr q' \<and> tq_ok q' \<and> tq_contents q' = tq_contents p @ [t] \<and>
          nat (queue_max_size q') = nat (queue_max_size p)"
    by (auto simp: same_off_def)
next
  fix p :: pool
  assume "tq_ok p" and "queue_size p \<noteq> 0"
  from tq_get_ok [OF this]
  show "\<exists>t q'. tq_get p = Inr (t, q') \<and> tq_ok q' \<and> tq_contents p = t # tq_contents q' \<and>
          nat (queue_max_size q') = nat (queue_max_size p)"
    by (auto simp: same_off_def)
next
  fix p :: pool
  assume "tq_ok p"
  then show "length (tq_contents p) \<le> nat (queue_max_size p)"
    by (simp add: length_tq_contents) (auto elim: tq_okE)
qed


section \<open>The pool between critical sections\<close>

definition pool_ok :: "pool \<Rightarrow> bool" where
  "pool_ok p \<longleftrightarrow>
     tq_ok p \<and> locks_ready p \<and>
     (case threads p of Block ts \<Rightarrow> int (length ts) = max_thr_num p | _ \<Rightarrow> False) \<and>
     0 \<le> min_thr_num p \<and> min_thr_num p \<le> live_thr_num p \<and>
     live_thr_num p \<le> max_thr_num p \<and> max_thr_num p * 2 \<le> int_max \<and>
     0 \<le> wait_exit_thr_num p"

lemma pool_ok_cong:
  "same_off p p' \<Longrightarrow> tq_ok p' \<Longrightarrow> pool_ok p \<Longrightarrow> pool_ok p'"
  by (simp add: pool_ok_def same_off_def)

text \<open>The counters the workers share.\<close>

definition same_crew :: "pool \<Rightarrow> pool \<Rightarrow> bool" where
  "same_crew p p' \<longleftrightarrow>
     live_thr_num p' = live_thr_num p \<and> busy_thr_num p' = busy_thr_num p \<and>
     max_thr_num p' = max_thr_num p \<and> min_thr_num p' = min_thr_num p"

lemma same_crew_off: "same_off p p' \<Longrightarrow> same_crew p p'"
  by (simp add: same_crew_def same_off_def)

text \<open>
  How the section of a worker ends: it waits, stops or retires with the queue untouched, or leaves
  with the first task; only retiring changes the number of live workers.
\<close>

definition section_result :: "pool \<Rightarrow> (wpc \<times> pool) res \<Rightarrow> bool" where
  "section_result p r \<longleftrightarrow>
     (\<exists>w p'. r = Inr (w, p') \<and> pool_ok p' \<and>
        (case w of
           WTask t \<Rightarrow> same_crew p p' \<and> tq_contents p = t # tq_contents p'
         | WWait \<Rightarrow> same_crew p p' \<and> tq_contents p' = tq_contents p
         | WStopped \<Rightarrow> same_crew p p' \<and> tq_contents p' = tq_contents p
         | WRetired \<Rightarrow> same_crew p (p'\<lparr>live_thr_num := live_thr_num p' + 1\<rparr>) \<and>
                       tq_contents p' = tq_contents p
         | _ \<Rightarrow> False))"

lemma worker_take_result: "pool_ok p \<Longrightarrow> section_result p (worker_take p)"
proof -
  assume ok: "pool_ok p"
  then have q: "tq_ok p" by (simp add: pool_ok_def)
  consider "queue_size p = 0" "\<not> shutdown p" | "shutdown p" | "queue_size p \<noteq> 0" "\<not> shutdown p"
    by blast
  then show ?thesis
  proof cases
    case 3
    from tq_get_ok [OF q 3(1)] obtain t p' where
      g: "tq_get p = Inr (t, p')" "tq_ok p'" "tq_contents p = t # tq_contents p'"
        "same_off p p'" by blast
    with 3 pool_ok_cong [OF g(4,2) ok] show ?thesis
      by (simp add: section_result_def worker_take_def same_crew_off)
  qed (use ok in \<open>simp_all add: section_result_def worker_take_def same_crew_def\<close>)
qed

lemma tq_contents_counters [simp]:
  "tq_contents (p\<lparr>wait_exit_thr_num := w\<rparr>) = tq_contents p"
  "tq_contents (p\<lparr>live_thr_num := l\<rparr>) = tq_contents p"
  "tq_contents (p\<lparr>busy_thr_num := b\<rparr>) = tq_contents p"
  "tq_contents (p\<lparr>threads := ts\<rparr>) = tq_contents p"
  "tq_contents (p\<lparr>shutdown := d\<rparr>) = tq_contents p"
  by (simp_all add: tq_contents_def)

lemma tq_ok_counters [simp]:
  "tq_ok (p\<lparr>wait_exit_thr_num := w\<rparr>) = tq_ok p"
  "tq_ok (p\<lparr>live_thr_num := l\<rparr>) = tq_ok p"
  "tq_ok (p\<lparr>busy_thr_num := b\<rparr>) = tq_ok p"
  "tq_ok (p\<lparr>threads := ts\<rparr>) = tq_ok p"
  "tq_ok (p\<lparr>shutdown := d\<rparr>) = tq_ok p"
  by (simp_all add: tq_ok_def)

lemma worker_woken_result: "pool_ok p \<Longrightarrow> section_result p (worker_woken p)"
proof -
  assume ok: "pool_ok p"
  show ?thesis
  proof (cases "wait_exit_thr_num p > 0")
    case False
    with worker_take_result [OF ok] show ?thesis by (simp add: worker_woken_def)
  next
    case True
    let ?p1 = "p\<lparr>wait_exit_thr_num := wait_exit_thr_num p - 1\<rparr>"
    have ok1: "pool_ok ?p1" using ok True by (simp add: pool_ok_def)
    show ?thesis
    proof (cases "live_thr_num ?p1 > min_thr_num ?p1")
      case True
      with \<open>wait_exit_thr_num p > 0\<close> ok1 show ?thesis
        by (auto simp: section_result_def worker_woken_def same_crew_def pool_ok_def)
    next
      case False
      with \<open>wait_exit_thr_num p > 0\<close> have "worker_woken p = worker_take ?p1"
        by (simp add: worker_woken_def)
      with worker_take_result [OF ok1] show ?thesis
        by (auto simp: section_result_def same_crew_def split: wpc.splits)
    qed
  qed
qed

section \<open>The invariant of the system\<close>

fun running :: "wpc \<Rightarrow> bool" where
  "running (WRun t) = True"
| "running _ = False"

fun held :: "wpc \<Rightarrow> task multiset" where
  "held (WTask t) = {#t#}"
| "held (WRun t) = {#t#}"
| "held _ = {#}"

definition in_flight :: "wpc list \<Rightarrow> task multiset" where
  "in_flight ws = sum_list (map held ws)"

text \<open>
  \<open>live_thr_num\<close> counts the workers that have not retired and, as \<open>pthread_create\<close>'s answer is
  ignored, the \<open>u\<close> creations that failed.
\<close>

definition crew_ok :: "pool \<Rightarrow> nat \<Rightarrow> wpc list \<Rightarrow> bool" where
  "crew_ok p u ws \<longleftrightarrow>
     live_thr_num p = int (count_where (\<lambda>w. w \<noteq> WRetired) ws + u) \<and>
     busy_thr_num p = int (count_where running ws)"

fun adjuster_ok :: "pool \<Rightarrow> apc \<Rightarrow> bool" where
  "adjuster_ok p (AGrow q l b) = (0 \<le> b \<and> b \<le> max_thr_num p)"
| "adjuster_ok p (AShrink l b) = (0 \<le> b \<and> b \<le> max_thr_num p)"
| "adjuster_ok p _ = True"

definition ledger_ok :: "pool \<Rightarrow> tp_sys \<Rightarrow> bool" where
  "ledger_ok p s \<longleftrightarrow>
     accepted s = started s @ tq_contents p \<and>
     mset (started s) = mset (finished s) + in_flight (workers s)"

definition tp_inv :: "tp_sys \<Rightarrow> bool" where
  "tp_inv s \<longleftrightarrow>
     fault s = None \<and>
     (case tp_pool s of None \<Rightarrow> False
      | Some p \<Rightarrow> pool_ok p \<and> crew_ok p (unborn s) (workers s) \<and> ledger_ok p s \<and>
                  adjuster_ok p (adjuster s))"

lemma tp_invE:
  assumes "tp_inv s"
  obtains p where "tp_pool s = Some p" "fault s = None" "pool_ok p" "crew_ok p (unborn s) (workers s)"
    "ledger_ok p s" "adjuster_ok p (adjuster s)"
  using assms by (cases "tp_pool s") (auto simp: tp_inv_def)

lemma count_where_map:
  "(\<And>x. P (f x) = P x) \<Longrightarrow> count_where P (map f xs) = count_where P xs"
  by (induction xs) simp_all

lemma held_wake [simp]: "held (wake_worker w) = held w"
  by (simp add: wake_worker_def)

lemma wake_worker_iff [simp]:
  "(wake_worker w = WRetired) = (w = WRetired)" "running (wake_worker w) = running w"
  by (simp_all add: wake_worker_def)

lemma in_flight_wake [simp]: "in_flight (map wake_worker ws) = in_flight ws"
  by (simp add: in_flight_def comp_def)

lemma crew_ok_wake [simp]: "crew_ok p u (map wake_worker ws) = crew_ok p u ws"
  by (simp add: crew_ok_def count_where_map)

text \<open>Replacing one worker's position.\<close>

lemma crew_ok_move:
  assumes "crew_ok p u ws" "j < length ws" "ws ! j \<noteq> WRetired"
    and "live_thr_num p' = live_thr_num p - (if w = WRetired then 1 else 0)"
    and "busy_thr_num p' =
      busy_thr_num p + (if running w then 1 else 0) - (if running (ws ! j) then 1 else 0)"
  shows "crew_ok p' u (ws[j := w])"
  using assms count_where_update [of j ws "\<lambda>w. w \<noteq> WRetired" w]
    count_where_update [of j ws running w]
  by (auto simp: crew_ok_def split: if_splits)

lemma in_flight_move:
  "j < length ws \<Longrightarrow> in_flight (ws[j := w]) + held (ws ! j) = in_flight ws + held w"
  unfolding in_flight_def by (rule sum_list_map_update)

lemma in_flight_same:
  "j < length ws \<Longrightarrow> held w = held (ws ! j) \<Longrightarrow> in_flight (ws[j := w]) = in_flight ws"
  using in_flight_move [of j ws w] by simp

lemma signal_worker_same:
  assumes "signal_worker k ws = Some ws'" "crew_ok p u ws"
  shows "crew_ok p u ws' \<and> in_flight ws' = in_flight ws"
proof (cases k)
  case None
  with assms show ?thesis by (auto simp: signal_worker_def split: if_splits)
next
  case (Some i)
  with assms(1) have i: "i < length ws" "ws ! i = WWait" "ws' = ws[i := WWoken]"
    by (auto simp: signal_worker_def split: if_splits)
  with assms(2) show ?thesis
    using crew_ok_move [OF assms(2) i(1), of p WWoken] in_flight_same [OF i(1), of WWoken] by simp
qed


lemma tp_invI:
  "fault s = None \<Longrightarrow> tp_pool s = Some p \<Longrightarrow> pool_ok p \<Longrightarrow>
   crew_ok p (unborn s) (workers s) \<Longrightarrow> ledger_ok p s \<Longrightarrow> adjuster_ok p (adjuster s) \<Longrightarrow> tp_inv s"
  by (simp add: tp_inv_def)

lemma adjuster_ok_cong: "max_thr_num p' = max_thr_num p \<Longrightarrow> adjuster_ok p' a = adjuster_ok p a"
  by (cases a) simp_all

lemma count_where_mono: "(\<And>x. P x \<Longrightarrow> Q x) \<Longrightarrow> count_where P xs \<le> count_where Q xs"
  by (induction xs) auto

lemma busy_le_live: "crew_ok p u ws \<Longrightarrow> 0 \<le> busy_thr_num p \<and> busy_thr_num p \<le> live_thr_num p"
  unfolding crew_ok_def using count_where_mono [of running "\<lambda>w. w \<noteq> WRetired" ws] by fastforce

lemma with_pool_Some [simp]: "tp_pool s = Some p \<Longrightarrow>
   with_pool s f = (case f p of Inl e \<Rightarrow> Some (s\<lparr>fault := Some e\<rparr>) | Inr r \<Rightarrow> r)"
  by (simp add: with_pool_def)

subsection \<open>Callers\<close>

lemma add_effect_inv:
  assumes inv: "tp_inv s" and ex: "add_effect i t k s = Some s'"
  shows "tp_inv s'"
proof -
  from inv obtain p where p: "tp_pool s = Some p" "fault s = None" "pool_ok p"
    "crew_ok p (unborn s) (workers s)" "ledger_ok p s" "adjuster_ok p (adjuster s)" by (rule tp_invE)
  consider "queue_size p = queue_max_size p" "\<not> shutdown p" | "shutdown p"
    | "queue_size p \<noteq> queue_max_size p" "\<not> shutdown p" by blast
  then show ?thesis
  proof cases
    case 1
    with ex p have "s' = s\<lparr>producers := (producers s)[i := PWait t]\<rparr>"
      by (simp add: add_effect_def threadpool_add_def)
    with p show ?thesis by (intro tp_invI [of _ p]) (simp_all add: ledger_ok_def)
  next
    case 2
    with ex p have "s' = s\<lparr>producers := (producers s)[i := PIdle],
      workers := map wake_worker (workers s), dropped := dropped s @ [t]\<rparr>"
      by (simp add: add_effect_def threadpool_add_def)
    with p show ?thesis by (intro tp_invI [of _ p]) (simp_all add: ledger_ok_def)
  next
    case 3
    from p(3) have "tq_ok p" by (simp add: pool_ok_def)
    from tq_put_ok [OF this 3(1), of t] obtain p' where
      put: "tq_put t p = Inr p'" "tq_ok p'" "tq_contents p' = tq_contents p @ [t]" "same_off p p'"
      by blast
    from ex p 3 put obtain ws where ws: "signal_worker k (workers s) = Some ws"
      and s': "s' = s\<lparr>tp_pool := Some p', producers := (producers s)[i := PIdle],
                      workers := ws, accepted := accepted s @ [t]\<rparr>"
      by (auto simp: add_effect_def threadpool_add_def split: option.splits)
    from put(4) have crew: "crew_ok p' (unborn s) ws = crew_ok p (unborn s) ws" and adj: "max_thr_num p' = max_thr_num p"
      by (simp_all add: crew_ok_def same_off_def)
    from signal_worker_same [OF ws p(4)] p put s' crew adjuster_ok_cong [OF adj]
      pool_ok_cong [OF put(4,2) p(3)]
    show ?thesis by (intro tp_invI [of _ p']) (simp_all add: ledger_ok_def)
  qed
qed

subsection \<open>Workers\<close>

lemma worker_effect_inv:
  assumes inv: "tp_inv s" and j: "j < length (workers s)"
    and idle: "workers s ! j \<noteq> WRetired" "held (workers s ! j) = {#}" "\<not> running (workers s ! j)"
    and res: "\<And>p. pool_ok p \<Longrightarrow> section_result p (section p)"
    and ex: "worker_effect section j s = Some s'"
  shows "tp_inv s'"
proof -
  from inv obtain p where p: "tp_pool s = Some p" "fault s = None" "pool_ok p"
    "crew_ok p (unborn s) (workers s)" "ledger_ok p s" "adjuster_ok p (adjuster s)" by (rule tp_invE)
  from res [OF p(3)] obtain w p' where w: "section p = Inr (w, p')" "pool_ok p'"
    and r: "section_result p (Inr (w, p'))" by (auto simp: section_result_def)
  have crew: "crew_ok p' (unborn s) ((workers s)[j := w])" and adj: "max_thr_num p' = max_thr_num p"
    using r crew_ok_move [OF p(4) j idle(1), of p' w] idle(3)
    by (auto simp: section_result_def same_crew_def split: wpc.splits)
  note flight = in_flight_move [OF j, of w]
  show ?thesis
  proof (cases "\<exists>t. w = WTask t")
    case True
    then obtain t where t: "w = WTask t" by blast
    with ex p w have s': "s' = s\<lparr>tp_pool := Some p', workers := (workers s)[j := w],
      producers := map wake_producer (producers s), started := started s @ [t]\<rparr>"
      by (simp add: worker_effect_def)
    from r t p(5) flight idle(2) have "ledger_ok p' s'"
      by (simp add: section_result_def ledger_ok_def s')
    with s' p crew w(2) adjuster_ok_cong [OF adj] show ?thesis by (intro tp_invI [of _ p']) simp_all
  next
    case False
    then have h: "held w = {#}" using r by (auto simp: section_result_def split: wpc.splits)
    from False ex p w have s': "s' = s\<lparr>tp_pool := Some p', workers := (workers s)[j := w]\<rparr>"
      by (cases w) (auto simp: worker_effect_def Let_def)
    from False r p(5) flight idle(2) h have "ledger_ok p' s'"
      by (auto simp: section_result_def ledger_ok_def s' split: wpc.splits)
    with s' p crew w(2) adjuster_ok_cong [OF adj] show ?thesis by (intro tp_invI [of _ p']) simp_all
  qed
qed

lemma worker_begin_inv:
  assumes inv: "tp_inv s" and ex: "tp_event_exec (WBegin j) s = Some s'"
  shows "tp_inv s'"
proof -
  from inv obtain p where p: "tp_pool s = Some p" "fault s = None" "pool_ok p"
    "crew_ok p (unborn s) (workers s)" "ledger_ok p s" "adjuster_ok p (adjuster s)" by (rule tp_invE)
  from ex obtain t where j: "j < length (workers s)" and t: "workers s ! j = WTask t"
    by (auto split: if_splits wpc.splits)
  let ?p' = "p\<lparr>busy_thr_num := busy_thr_num p + 1\<rparr>"
  have "c_add (busy_thr_num p) 1 = Inr (busy_thr_num p + 1)"
    using busy_le_live [OF p(4)] p(3) by (auto simp: c_add_def pool_ok_def int_range_defs)
  with ex p j t have s': "s' = s\<lparr>tp_pool := Some ?p', workers := (workers s)[j := WRun t]\<rparr>"
    by (simp add: worker_begin_def)
  have "crew_ok ?p' (unborn s) ((workers s)[j := WRun t])" using crew_ok_move [OF p(4) j] t by simp
  moreover have "pool_ok ?p'" using p(3) by (simp add: pool_ok_def)
  moreover have "ledger_ok ?p' s'"
    using p(5) in_flight_same [OF j, of "WRun t"] t by (simp add: ledger_ok_def s')
  ultimately show ?thesis
    using s' p adjuster_ok_cong [of ?p' p] by (intro tp_invI [of _ ?p']) simp_all
qed

lemma worker_end_inv:
  assumes inv: "tp_inv s" and ex: "tp_event_exec (WEnd j) s = Some s'"
  shows "tp_inv s'"
proof -
  from inv obtain p where p: "tp_pool s = Some p" "fault s = None" "pool_ok p"
    "crew_ok p (unborn s) (workers s)" "ledger_ok p s" "adjuster_ok p (adjuster s)" by (rule tp_invE)
  from ex obtain t where j: "j < length (workers s)" and t: "workers s ! j = WRun t"
    by (auto split: if_splits wpc.splits)
  let ?p' = "p\<lparr>busy_thr_num := busy_thr_num p - 1\<rparr>"
  have "c_sub (busy_thr_num p) 1 = Inr (busy_thr_num p - 1)"
    using busy_le_live [OF p(4)] p(3) by (auto simp: c_sub_def pool_ok_def int_range_defs)
  with ex p j t have s': "s' = s\<lparr>tp_pool := Some ?p', workers := (workers s)[j := WLoop],
      finished := finished s @ [t]\<rparr>"
    by (simp add: worker_end_def)
  have "crew_ok ?p' (unborn s) ((workers s)[j := WLoop])" using crew_ok_move [OF p(4) j] t by simp
  moreover have "pool_ok ?p'" using p(3) by (simp add: pool_ok_def)
  moreover have "ledger_ok ?p' s'"
    using p(5) in_flight_move [OF j, of WLoop] t by (simp add: ledger_ok_def s' ac_simps)
  ultimately show ?thesis
    using s' p adjuster_ok_cong [of ?p' p] by (intro tp_invI [of _ ?p']) simp_all
qed


subsection \<open>The manager\<close>

text \<open>
  How the loop ends: it added \<open>n\<close> to both counters and created the \<open>k \<le> n\<close> workers whose
  \<open>pthread_create\<close> succeeded; or it asked \<open>pthread_kill\<close> for an id that is not to be used.
\<close>

definition bad_slot :: "(nat \<Rightarrow> int res) \<Rightarrow> pool \<Rightarrow> nat \<Rightarrow> c_error \<Rightarrow> bool" where
  "bad_slot kill p i err \<longleftrightarrow>
     (\<exists>ts tid. threads p = Block ts \<and> tid \<in> set (drop i ts) \<and> tid \<noteq> 0 \<and> kill tid = Inl err)"

definition grow_result ::
  "(nat \<Rightarrow> int res) \<Rightarrow> nat \<Rightarrow> nat \<Rightarrow> nat \<Rightarrow> pool \<Rightarrow> (nat \<times> nat \<times> pool) res \<Rightarrow> bool" where
  "grow_result kill i added tid' p r \<longleftrightarrow>
     (case r of
        Inl err \<Rightarrow> bad_slot kill p i err
      | Inr (add, tid'', p') \<Rightarrow>
          added \<le> add \<and> tid' \<le> tid'' \<and> tid'' - tid' \<le> add - added \<and> pool_ok p' \<and>
          same_crew (p\<lparr>live_thr_num := live_thr_num p + int (add - added)\<rparr>) p' \<and>
          tq_contents p' = tq_contents p)"

lemma next_id_cases: "next_id r k = Suc k \<or> next_id r k = k"
  by (simp add: next_id_def split: option.split)

lemma slot_free_fault: "slot_free kill tid = Inl err \<Longrightarrow> tid \<noteq> 0 \<and> kill tid = Inl err"
  by (cases "kill tid") (auto simp: slot_free_def is_thread_alive_def split: if_splits)

lemma bad_slot_at:
  assumes "threads p = Block ts" "i < length ts" "slot_free kill (ts ! i) = Inl err"
  shows "bad_slot kill p i err"
proof -
  have "ts ! i \<in> set (drop i ts)" using assms(2) by (simp add: Cons_nth_drop_Suc [symmetric])
  with slot_free_fault [OF assms(3)] assms(1) show ?thesis by (auto simp: bad_slot_def)
qed

lemma bad_slot_later:
  assumes "bad_slot kill p' (Suc i) err" and "threads p = Block ts" and "threads p' = Block (ts[i := v])"
  shows "bad_slot kill p i err"
proof -
  from assms(1,3) obtain tid where tid: "tid \<in> set (drop (Suc i) ts)" "tid \<noteq> 0" "kill tid = Inl err"
    by (auto simp: bad_slot_def)
  then have "tid \<in> set (drop i ts)" using set_drop_subset_set_drop [of i "Suc i" ts] by auto
  with tid assms(2) show ?thesis by (auto simp: bad_slot_def)
qed

lemma adjust_create_ok:
  assumes "pool_ok p" and "0 \<le> i"
  shows "grow_result kill (nat i) added tid' p (adjust_create kill rs i added tid' p)"
  using assms
proof (induction kill rs i added tid' p rule: adjust_create.induct)
  case (1 kill rs i added tid' p)
  let ?go = "i < max_thr_num p \<and> added < DEFAULT_THREAD_VARY \<and> live_thr_num p < max_thr_num p"
  show ?case
  proof (cases ?go)
    case False
    with "1.prems" show ?thesis
      by (subst adjust_create.simps) (auto simp: grow_result_def same_crew_def)
  next
    case go: True
    from "1.prems"(1) obtain ts where ts: "threads p = Block ts" "int (length ts) = max_thr_num p"
      by (cases "threads p") (auto simp: pool_ok_def)
    let ?tid = "ts ! nat i"
    have i: "nat i < length ts" "nat (i + 1) = Suc (nat i)" using go ts "1.prems"(2) by auto
    have get: "arr_get ts i = Inr ?tid" using go ts "1.prems"(2) by simp
    have self: "threads p = Block (ts[nat i := ?tid])" using ts(1) i by simp
    consider err where "slot_free kill ?tid = Inl err" | "slot_free kill ?tid = Inr True"
      | "slot_free kill ?tid = Inr False" by (cases "slot_free kill ?tid") auto
    then show ?thesis
    proof cases
      case (1 err)
      then have "adjust_create kill rs i added tid' p = Inl err"
        using go ts get by (subst adjust_create.simps) simp
      with bad_slot_at [OF ts(1) i(1) 1] show ?thesis by (simp add: grow_result_def)
    next
      case free: 2
      let ?p1 = "p\<lparr>threads := Block (ts[nat i := stored_id (creation rs added) tid']),
                   live_thr_num := live_thr_num p + 1\<rparr>"
      let ?next = "next_id (creation rs added) tid'"
      have ok1: "pool_ok ?p1" using "1.prems" go ts by (simp add: pool_ok_def)
      have add: "c_add (live_thr_num p) 1 = Inr (live_thr_num p + 1)"
        using "1.prems"(1) go by (auto simp: c_add_def pool_ok_def int_range_defs)
      have step: "adjust_create kill rs i added tid' p =
          adjust_create kill rs (i + 1) (Suc added) ?next ?p1"
        using go ts get free add "1.prems"(2) by (subst adjust_create.simps) simp
      have "grow_result kill (nat (i + 1)) (Suc added) ?next ?p1
          (adjust_create kill rs (i + 1) (Suc added) ?next ?p1)"
        by (rule "1.IH"(1) [OF go TrueI ok1]) (use "1.prems"(2) in simp)
      moreover have "tid' \<le> ?next" "?next \<le> Suc tid'"
        using next_id_cases [of "creation rs added" tid'] by auto
      ultimately show ?thesis
        using i(2) bad_slot_later [OF _ ts(1), of kill ?p1 "nat i"] unfolding step
        by (auto simp: grow_result_def same_crew_def split: sum.splits)
    next
      case full: 3
      have not_False: "\<not> False" by simp
      from full have skip: "adjust_create kill rs i added tid' p = adjust_create kill rs (i + 1) added tid' p"
        using go ts get by (subst adjust_create.simps) simp
      have "grow_result kill (nat (i + 1)) added tid' p
          (adjust_create kill rs (i + 1) added tid' p)"
        by (rule "1.IH"(2) [OF go not_False "1.prems"(1)]) (use "1.prems"(2) in simp)
      then show ?thesis
        using i(2) bad_slot_later [OF _ ts(1) self, of kill] unfolding skip
        by (auto simp: grow_result_def split: sum.splits)
    qed
  qed
qed

lemma crew_ok_hire:
  assumes "crew_ok p u ws" "n \<le> add"
    and "same_crew (p\<lparr>live_thr_num := live_thr_num p + int add\<rparr>) p'"
  shows "crew_ok p' (u + (add - n)) (ws @ replicate n WLoop)"
  using assms by (simp add: crew_ok_def same_crew_def count_where_replicate)

lemma in_flight_hire [simp]: "in_flight (ws @ replicate n WLoop) = in_flight ws"
  by (induction n) (simp_all add: in_flight_def flip: replicate_append_same)

text \<open>
  The state after the manager has asked for an id that must not be used: nothing else has
  happened to the well-formed state before it.
\<close>

definition kill_fault :: "tp_sys \<Rightarrow> bool" where
  "kill_fault s \<longleftrightarrow>
     tp_inv (s\<lparr>fault := None\<rparr>) \<and>
     (\<exists>err p zombie. fault s = Some err \<and> tp_pool s = Some p \<and>
        bad_slot (pthread_kill zombie (detached s) (workers s)) p 0 err)"

lemma grow_effect_inv:
  assumes inv: "tp_inv s" and a: "adjuster s = AGrow q l b"
    and ex: "grow_effect zombie rs q l b s = Some s'"
  shows "tp_inv s' \<or> kill_fault s'"
proof -
  from inv obtain p where p: "tp_pool s = Some p" "fault s = None" "pool_ok p"
    "crew_ok p (unborn s) (workers s)" "ledger_ok p s" "adjuster_ok p (adjuster s)" by (rule tp_invE)
  let ?kill = "pthread_kill zombie (detached s) (workers s)" and ?tid = "Suc (length (workers s))"
  show ?thesis
  proof (cases "adjust_wants_more q l p")
    case False
    with ex p a have "s' = s\<lparr>adjuster := AShrink l b\<rparr>" by (simp add: grow_effect_def)
    with p a have "tp_inv s'" by (intro tp_invI [of _ p]) (simp_all add: ledger_ok_def)
    then show ?thesis ..
  next
    case True
    from adjust_create_ok [OF p(3) order_refl, of ?kill 0 ?tid rs]
    have res: "grow_result ?kill 0 0 ?tid p (adjust_create ?kill rs 0 0 ?tid p)" by simp
    show ?thesis
    proof (cases "adjust_create ?kill rs 0 0 ?tid p")
      case (Inl err)
      with True ex p have s': "s' = s\<lparr>fault := Some err\<rparr>" by (simp add: grow_effect_def)
      have "s\<lparr>fault := None\<rparr> = s" using p(2) by simp
      with inv p(1) res Inl have "kill_fault s'"
        by (auto simp: kill_fault_def s' grow_result_def)
      then show ?thesis ..
    next
      case (Inr r)
      then obtain add tid'' p' where r: "adjust_create ?kill rs 0 0 ?tid p = Inr (add, tid'', p')"
        by (cases r) auto
      let ?n = "tid'' - ?tid"
      from True ex p r have s': "s' = s\<lparr>tp_pool := Some p', workers := workers s @ replicate ?n WLoop,
          unborn := unborn s + (add - ?n), adjuster := AShrink l b\<rparr>"
        by (simp add: grow_effect_def Let_def)
      from res r have r': "pool_ok p'" "?n \<le> add" "tq_contents p' = tq_contents p"
        "same_crew (p\<lparr>live_thr_num := live_thr_num p + int add\<rparr>) p'"
        by (simp_all add: grow_result_def)
      have "max_thr_num p' = max_thr_num p" using r'(4) by (simp add: same_crew_def)
      with s' p a r' crew_ok_hire [OF p(4) r'(2,4)] have "tp_inv s'"
        by (intro tp_invI [of _ p']) (simp_all add: ledger_ok_def)
      then show ?thesis ..
    qed
  qed
qed

lemma shrink_effect_inv:
  assumes inv: "tp_inv s" and a: "adjuster s = AShrink l b" and ex: "shrink_effect l b s = Some s'"
  shows "tp_inv s'"
proof -
  from inv obtain p where p: "tp_pool s = Some p" "fault s = None" "pool_ok p"
    "crew_ok p (unborn s) (workers s)" "ledger_ok p s" "adjuster_ok p (adjuster s)" by (rule tp_invE)
  have "in_int (b * 2)" using p(3,6) a by (auto simp: pool_ok_def int_range_defs)
  then obtain fewer where f: "adjust_wants_fewer b l p = Inr fewer"
    by (auto simp: adjust_wants_fewer_def)
  show ?thesis
  proof (cases fewer)
    case False
    with ex p f have "s' = s\<lparr>adjuster := ATop\<rparr>" by (simp add: shrink_effect_def)
    with p show ?thesis by (intro tp_invI [of _ p]) (simp_all add: ledger_ok_def)
  next
    case True
    let ?p' = "p\<lparr>wait_exit_thr_num := int DEFAULT_THREAD_VARY\<rparr>"
    from True ex p f have "s' = s\<lparr>tp_pool := Some ?p', adjuster := ASignal DEFAULT_THREAD_VARY\<rparr>"
      by (simp add: shrink_effect_def)
    with p show ?thesis
      by (intro tp_invI [of _ ?p']) (simp_all add: ledger_ok_def pool_ok_def crew_ok_def)
  qed
qed

lemma adjust_signal_inv:
  assumes inv: "tp_inv s" and ex: "tp_event_exec (AdjSignal k) s = Some s'"
  shows "tp_inv s'"
proof -
  from inv obtain p where p: "tp_pool s = Some p" "fault s = None" "pool_ok p"
    "crew_ok p (unborn s) (workers s)" "ledger_ok p s" "adjuster_ok p (adjuster s)" by (rule tp_invE)
  from ex p obtain n ws where ws: "signal_worker k (workers s) = Some ws"
    and s': "s' = s\<lparr>workers := ws, adjuster := (if n = 0 then ATop else ASignal n)\<rparr>"
    by (auto split: apc.splits nat.splits option.splits)
  from signal_worker_same [OF ws p(4)] p s' show ?thesis
    by (intro tp_invI [of _ p]) (simp_all add: ledger_ok_def)
qed

subsection \<open>Every event, every reachable state\<close>

lemma tp_event_inv:
  assumes inv: "tp_inv s" and ex: "tp_event_exec e s = Some s'"
    and e: "e \<noteq> DestroyFree" "\<And>zombie rs. e \<noteq> AdjGrow zombie rs"
  shows "tp_inv s'"
proof -
  from inv obtain p where p: "tp_pool s = Some p" "fault s = None" "pool_ok p"
    "crew_ok p (unborn s) (workers s)" "ledger_ok p s" "adjuster_ok p (adjuster s)" by (rule tp_invE)
  show ?thesis
  proof (cases e)
    case (AddCall i t k)
    with ex have "add_effect i t k s = Some s'" by (simp split: if_splits)
    then show ?thesis by (rule add_effect_inv [OF inv])
  next
    case (AddAgain i k)
    with ex obtain t where "add_effect i t k s = Some s'" by (auto split: if_splits ppc.splits)
    then show ?thesis by (rule add_effect_inv [OF inv])
  next
    case (AddSpurious i)
    with ex obtain xs where "s' = s\<lparr>producers := xs\<rparr>" by (auto split: if_splits)
    with p show ?thesis by (intro tp_invI [of _ p]) (simp_all add: ledger_ok_def)
  next
    case (WEnter j)
    with ex have "j < length (workers s)" "workers s ! j = WLoop" "worker_effect worker_take j s = Some s'"
      by (simp_all split: if_splits)
    then show ?thesis by (intro worker_effect_inv [OF inv _ _ _ _ worker_take_result]) simp_all
  next
    case (WResume j)
    with ex have "j < length (workers s)" "workers s ! j = WWoken" "worker_effect worker_woken j s = Some s'"
      by (simp_all split: if_splits)
    then show ?thesis by (intro worker_effect_inv [OF inv _ _ _ _ worker_woken_result]) simp_all
  next
    case (WSpurious j)
    with ex have j: "j < length (workers s)" "workers s ! j = WWait"
      and s': "s' = s\<lparr>workers := (workers s)[j := WWoken]\<rparr>" by (auto split: if_splits)
    with p crew_ok_move [OF p(4) j(1), of p WWoken] in_flight_same [OF j(1), of WWoken]
    show ?thesis by (intro tp_invI [of _ p]) (simp_all add: ledger_ok_def)
  next
    case (WBegin j)
    with ex show ?thesis by (intro worker_begin_inv [OF inv]) simp
  next
    case (WEnd j)
    with ex show ?thesis by (intro worker_end_inv [OF inv]) simp
  next
    case AdjTest
    with ex p have "s' = s\<lparr>adjuster := (if shutdown p then AExit else ASnap)\<rparr>"
      by (simp split: if_splits)
    with p show ?thesis by (intro tp_invI [of _ p]) (simp_all add: ledger_ok_def)
  next
    case AdjSnap
    with ex p have "s' = s\<lparr>adjuster := ABusy (queue_size p) (live_thr_num p)\<rparr>"
      by (simp split: if_splits)
    with p show ?thesis by (intro tp_invI [of _ p]) (simp_all add: ledger_ok_def)
  next
    case AdjBusy
    with ex p obtain q l where "s' = s\<lparr>adjuster := AGrow q l (busy_thr_num p)\<rparr>"
      by (auto split: apc.splits)
    with p busy_le_live [OF p(4)] show ?thesis
      by (intro tp_invI [of _ p]) (simp_all add: ledger_ok_def pool_ok_def)
  next
    case (AdjGrow zombie rs)
    with e(2) show ?thesis by blast
  next
    case AdjShrink
    with ex obtain l b where "adjuster s = AShrink l b" "shrink_effect l b s = Some s'"
      by (auto split: apc.splits)
    then show ?thesis by (rule shrink_effect_inv [OF inv])
  next
    case (AdjSignal k)
    with ex show ?thesis by (intro adjust_signal_inv [OF inv]) simp
  next
    case DestroyFlag
    let ?p' = "p\<lparr>shutdown := True\<rparr>"
    from DestroyFlag ex p have "s' = s\<lparr>tp_pool := Some ?p', destroyer := DFlagged\<rparr>"
      by (simp split: if_splits)
    with p adjuster_ok_cong [of ?p' p] show ?thesis
      by (intro tp_invI [of _ ?p']) (simp_all add: ledger_ok_def pool_ok_def crew_ok_def)
  next
    case DestroyWake
    with ex p have "s' = s\<lparr>workers := (if 0 < live_thr_num p then map wake_worker (workers s)
                                       else workers s), destroyer := DBroadcast\<rparr>"
      by (simp split: if_splits)
    with p show ?thesis by (intro tp_invI [of _ p]) (simp_all add: ledger_ok_def)
  next
    case DestroyFree
    with e show ?thesis by simp
  qed
qed

lemma tp_event_grow:
  assumes inv: "tp_inv s" and ex: "tp_event_exec (AdjGrow zombie rs) s = Some s'"
  shows "tp_inv s' \<or> kill_fault s'"
proof -
  from ex obtain q l b where "adjuster s = AGrow q l b" "grow_effect zombie rs q l b s = Some s'"
    by (auto split: apc.splits)
  then show ?thesis by (rule grow_effect_inv [OF inv])
qed

text \<open>
  A freed pool stays freed: every later access ends the run with a use after free and leaves the
  rest of the state alone.
\<close>

definition pool_gone :: "tp_sys \<Rightarrow> bool" where
  "pool_gone s \<longleftrightarrow> tp_pool s = None \<and> (fault s = None \<or> fault s = Some UseAfterFree)"

lemma with_pool_gone: "pool_gone s \<Longrightarrow> with_pool s f = Some s' \<Longrightarrow> pool_gone s'"
  by (auto simp: with_pool_def pool_gone_def)

lemma effects_gone:
  "pool_gone s \<Longrightarrow> add_effect i t k s = Some s' \<Longrightarrow> pool_gone s'"
  "pool_gone s \<Longrightarrow> worker_effect section j s = Some s' \<Longrightarrow> pool_gone s'"
  "pool_gone s \<Longrightarrow> grow_effect zombie rs q l b s = Some s' \<Longrightarrow> pool_gone s'"
  "pool_gone s \<Longrightarrow> shrink_effect l b s = Some s' \<Longrightarrow> pool_gone s'"
  unfolding add_effect_def worker_effect_def grow_effect_def shrink_effect_def
  by (auto elim: with_pool_gone)

lemma pool_gone_update [simp]:
  "pool_gone (s\<lparr>producers := ps\<rparr>) = pool_gone s"
  "pool_gone (s\<lparr>workers := ws\<rparr>) = pool_gone s"
  by (simp_all add: pool_gone_def)

lemma tp_event_gone: "pool_gone s \<Longrightarrow> tp_event_exec e s = Some s' \<Longrightarrow> pool_gone s'"
  by (cases e)
    (auto split: if_splits ppc.splits wpc.splits apc.splits nat.splits
       dest: effects_gone with_pool_gone simp del: bindR_eq_Inr)

lemma tp_event_free:
  assumes inv: "tp_inv s" and ex: "tp_event_exec DestroyFree s = Some s'"
  shows "s' = s\<lparr>tp_pool := None, destroyer := DDone\<rparr>" and "pool_gone s'"
proof -
  from inv obtain p where p: "tp_pool s = Some p" "pool_ok p" "fault s = None" by (rule tp_invE)
  from p(2) obtain ts q where "threads p = Block ts" "task_queue p = Block q" "locks_ready p"
    by (cases "threads p"; cases "task_queue p") (auto simp: pool_ok_def tq_ok_def)
  with p ex show s': "s' = s\<lparr>tp_pool := None, destroyer := DDone\<rparr>"
    by (auto simp: threadpool_free_def with_pool_def split: if_splits)
  from s' p show "pool_gone s'" by (simp add: pool_gone_def)
qed

theorem tp_reachable_inv:
  "tp_reachable s0 s \<Longrightarrow> tp_inv s0 \<Longrightarrow> tp_inv s \<or> kill_fault s \<or> pool_gone s"
proof (induction rule: tp_reachable.induct)
  case tp_start
  then show ?case by simp
next
  case (tp_more s s')
  from tp_more.hyps(2) obtain e where e: "tp_event_exec e s = Some s'" "fault s = None"
    by (auto simp: tp_step.simps tp_exec_def split: if_splits)
  with tp_more consider "tp_inv s" | "pool_gone s" by (auto simp: kill_fault_def)
  then show ?case
  proof cases
    case 1
    consider "e = DestroyFree" | zombie rs where "e = AdjGrow zombie rs"
      | "e \<noteq> DestroyFree" "\<And>zombie rs. e \<noteq> AdjGrow zombie rs" by blast
    then show ?thesis
    proof cases
      case 3
      with tp_event_inv [OF 1 e(1)] show ?thesis by blast
    qed (use 1 e(1) tp_event_free tp_event_grow in blast)+
  next
    case 2
    with e(1) tp_event_gone show ?thesis by blast
  qed
qed

corollary tp_reachable_pool:
  assumes "tp_reachable s0 s" "tp_inv s0" "tp_pool s = Some p"
  shows "pool_ok p \<and> crew_ok p (unborn s) (workers s) \<and> ledger_ok p s"
proof -
  from tp_reachable_inv [OF assms(1,2)] assms(3) have "tp_inv (s\<lparr>fault := None\<rparr>)"
    by (auto simp: pool_gone_def kill_fault_def tp_inv_def ledger_ok_def)
  with assms(3) show ?thesis by (auto simp: ledger_ok_def elim!: tp_invE)
qed

corollary tp_reachable_running:
  "tp_reachable s0 s \<Longrightarrow> tp_inv s0 \<Longrightarrow> tp_pool s = Some p \<Longrightarrow> fault s = None \<Longrightarrow> tp_inv s"
  using tp_reachable_inv [of s0 s] by (auto simp: pool_gone_def kill_fault_def)

end
