(* ===== verification/ThreadPool_Wakeup.thy ===== *)
theory ThreadPool_Wakeup
  imports ThreadPool_Correct
begin

text \<open>
  Wake-ups in \<open>thread/threadpool.c\<close>: while the pool is not shut down, a task can wait in the queue
  beside a sleeping worker only if some awake worker will come to the queue for it, or if its
  wake-up went to a worker that retired instead. Without retirements no wake-up is ever lost.
\<close>

section \<open>Sleeping and awake workers\<close>

definition asleep :: "wpc \<Rightarrow> bool" where
  "asleep w \<longleftrightarrow> w = WWait"

text \<open>On the way to the queue, or retired in place of taking a task.\<close>

definition alert :: "wpc \<Rightarrow> bool" where
  "alert w \<longleftrightarrow> w = WLoop \<or> w = WWoken \<or> w = WRetired"

definition wake_ok :: "pool \<Rightarrow> wpc list \<Rightarrow> bool" where
  "wake_ok p ws \<longleftrightarrow>
     shutdown p \<or> count_where asleep ws = 0 \<or> queue_size p \<le> int (count_where alert ws)"

definition wake_inv :: "tp_sys \<Rightarrow> bool" where
  "wake_inv s \<longleftrightarrow> (case tp_pool s of None \<Rightarrow> True | Some p \<Rightarrow> wake_ok p (workers s))"

lemma alert_simps [simp]:
  "asleep WWait" "\<not> asleep WLoop" "\<not> asleep WWoken" "\<not> asleep (WTask t)" "\<not> asleep (WRun t)"
  "\<not> asleep WRetired" "\<not> asleep WStopped"
  "alert WLoop" "alert WWoken" "alert WRetired" "\<not> alert WWait" "\<not> alert (WTask t)"
  "\<not> alert (WRun t)" "\<not> alert WStopped"
  by (simp_all add: asleep_def alert_def)

lemma wake_ok_cong:
  "queue_size p' = queue_size p \<Longrightarrow> shutdown p' = shutdown p \<Longrightarrow> wake_ok p' ws = wake_ok p ws"
  by (simp add: wake_ok_def)

text \<open>A worker that moves without falling asleep, and without leaving the alert ones.\<close>

lemma wake_ok_move:
  assumes "wake_ok p ws" "j < length ws" "\<not> asleep w" "alert (ws ! j) \<longrightarrow> alert w"
  shows "wake_ok p (ws[j := w])"
  using assms count_move [OF assms(2), of asleep w] count_move [OF assms(2), of alert w]
  by (auto simp: wake_ok_def split: if_splits)

lemma wake_ok_sleep:
  assumes "j < length ws" "\<not> asleep (ws ! j)" "queue_size p = 0"
  shows "wake_ok p (ws[j := WWait])"
  using assms by (simp add: wake_ok_def)

lemma wake_ok_take:
  assumes "wake_ok p ws" "j < length ws" "alert (ws ! j)" "\<not> asleep (ws ! j)"
    and "queue_size p' = queue_size p - 1" "shutdown p' = shutdown p"
  shows "wake_ok p' (ws[j := WTask t])"
  using assms count_move [OF assms(2), of asleep "WTask t"]
    count_move [OF assms(2), of alert "WTask t"]
  by (auto simp: wake_ok_def)

lemma wake_ok_all [simp]: "wake_ok p (map wake_worker ws)"
proof -
  have "count_where asleep (map wake_worker ws) = 0"
    by (induction ws) (simp_all add: wake_worker_def asleep_def)
  then show ?thesis by (simp add: wake_ok_def)
qed

text \<open>A signal wakes a sleeper, or there is none: it pays for one new task.\<close>

lemma signal_wakes:
  assumes "signal_worker k ws = Some ws'" "wake_ok p ws"
    and "queue_size p' \<le> queue_size p + 1" "shutdown p' = shutdown p"
  shows "wake_ok p' ws'"
proof (cases k)
  case None
  with assms(1) have "ws' = ws" "WWait \<notin> set ws" by (auto simp: signal_worker_def split: if_splits)
  moreover from this(2) have "count_where asleep ws = 0"
    by (auto simp: count_where_def asleep_def filter_empty_conv)
  ultimately show ?thesis by (simp add: wake_ok_def)
next
  case (Some i)
  with assms(1) have i: "i < length ws" "ws ! i = WWait" "ws' = ws[i := WWoken]"
    by (auto simp: signal_worker_def split: if_splits)
  with assms count_move [OF i(1), of asleep WWoken] count_move [OF i(1), of alert WWoken]
  show ?thesis by (auto simp: wake_ok_def)
qed

section \<open>The sections\<close>

lemma tq_get_sizes:
  "tq_get p = Inr (t, p') \<Longrightarrow> queue_size p' = queue_size p - 1 \<and> shutdown p' = shutdown p"
  by (auto simp: tq_get_def c_sub_def split: if_splits)

lemma tq_put_sizes:
  "tq_put t p = Inr p' \<Longrightarrow> queue_size p' = queue_size p + 1 \<and> shutdown p' = shutdown p"
  by (auto simp: tq_put_def c_add_def split: if_splits)

text \<open>How the section of a worker changes the queue, by the position it ends in.\<close>

definition queue_result :: "pool \<Rightarrow> wpc \<Rightarrow> pool \<Rightarrow> bool" where
  "queue_result p w p' \<longleftrightarrow> shutdown p' = shutdown p \<and>
     (case w of
        WTask t \<Rightarrow> queue_size p' = queue_size p - 1
      | WWait \<Rightarrow> queue_size p' = queue_size p \<and> queue_size p = 0
      | WStopped \<Rightarrow> queue_size p' = queue_size p \<and> shutdown p
      | WRetired \<Rightarrow> queue_size p' = queue_size p
      | _ \<Rightarrow> False)"

lemma worker_take_queue: "worker_take p = Inr (w, p') \<Longrightarrow> queue_result p w p'"
  by (auto simp: worker_take_def queue_result_def dest: tq_get_sizes split: if_splits)

lemma worker_woken_queue: "worker_woken p = Inr (w, p') \<Longrightarrow> queue_result p w p'"
  by (auto simp: worker_woken_def Let_def queue_result_def dest!: worker_take_queue
      split: if_splits wpc.splits)

lemma queue_result_wake:
  assumes "queue_result p w p'" "wake_ok p ws" "j < length ws" "ws ! j = WLoop \<or> ws ! j = WWoken"
  shows "wake_ok p' (ws[j := w])"
proof (cases w)
  case WWait
  with assms show ?thesis
    unfolding WWait by (intro wake_ok_sleep) (auto simp: queue_result_def)
next
  case (WTask t)
  with assms wake_ok_take [of p ws j p' t] show ?thesis by (auto simp: queue_result_def)
next
  case WRetired
  with assms have "wake_ok p (ws[j := w])" by (intro wake_ok_move) auto
  with assms(1) WRetired show ?thesis using wake_ok_cong [of p' p] by (simp add: queue_result_def)
next
  case WStopped
  with assms(1) show ?thesis by (simp add: queue_result_def wake_ok_def)
qed (use assms(1) in \<open>simp_all add: queue_result_def\<close>)

section \<open>Every event\<close>

lemma worker_effect_wake:
  assumes p: "tp_pool s = Some p" "wake_ok p (workers s)"
    and j: "j < length (workers s)" "workers s ! j = WLoop \<or> workers s ! j = WWoken"
    and sec: "\<And>w p'. section p = Inr (w, p') \<Longrightarrow> queue_result p w p'"
    and ex: "worker_effect section j s = Some s'"
  shows "wake_inv s'"
proof (cases "section p")
  case (Inl e)
  with p ex show ?thesis by (auto simp: worker_effect_def wake_inv_def)
next
  case (Inr r)
  obtain w p' where r: "section p = Inr (w, p')" using Inr by (cases r) auto
  with p ex have "tp_pool s' = Some p' \<and> workers s' = (workers s)[j := w]"
    by (cases w) (auto simp: worker_effect_def Let_def)
  with queue_result_wake [OF sec [OF r] p(2) j] show ?thesis by (simp add: wake_inv_def)
qed

lemma add_effect_wake:
  assumes p: "tp_pool s = Some p" "wake_ok p (workers s)" and ex: "add_effect i t k s = Some s'"
  shows "wake_inv s'"
proof (cases "threadpool_add t p")
  case (Inl e)
  with p ex show ?thesis by (auto simp: add_effect_def wake_inv_def)
next
  case (Inr r)
  show ?thesis
  proof (cases r)
    case (AddQueued p')
    with Inr have "tq_put t p = Inr p'" by (auto simp: threadpool_add_def split: if_splits)
    from tq_put_sizes [OF this] have sz: "queue_size p' \<le> queue_size p + 1" "shutdown p' = shutdown p"
      by simp_all
    from p ex Inr AddQueued obtain ws where "signal_worker k (workers s) = Some ws"
      "tp_pool s' = Some p'" "workers s' = ws"
      by (auto simp: add_effect_def split: option.splits)
    with signal_wakes [OF this(1) p(2) sz] show ?thesis by (simp add: wake_inv_def)
  qed (use p ex Inr in \<open>auto simp: add_effect_def wake_inv_def\<close>)
qed

lemma adjust_create_queue:
  "adjust_create kill rs i added tid' p = Inr (n, tid'', p') \<Longrightarrow>
   queue_size p' = queue_size p \<and> shutdown p' = shutdown p"
proof (induction kill rs i added tid' p rule: adjust_create.induct)
  case (1 kill rs i added tid' p)
  then show ?case
    by (subst (asm) (2) adjust_create.simps) (auto split: if_splits)
qed

lemma wake_ok_hire: "wake_ok p ws \<Longrightarrow> wake_ok p (ws @ replicate n WLoop)"
  by (auto simp: wake_ok_def count_where_replicate)

text \<open>What the manager's round can do to the pool and its workers.\<close>

lemma grow_effect_cases:
  assumes "grow_effect zombie rs q l b s = Some s'" and "tp_pool s = Some p"
  obtains (same) "tp_pool s' = Some p" "workers s' = workers s" "unborn s' = unborn s"
  | (grown) add tid'' p' where
      "adjust_create (pthread_kill zombie (detached s) (workers s)) rs 0 0 (Suc (length (workers s))) p
         = Inr (add, tid'', p')"
      "tp_pool s' = Some p'" "workers s' = workers s @ replicate (tid'' - Suc (length (workers s))) WLoop"
      "unborn s' = unborn s + (add - (tid'' - Suc (length (workers s))))"
proof (cases "adjust_wants_more q l p")
  case False
  with assms same show ?thesis by (auto simp: grow_effect_def)
next
  case True
  show ?thesis
  proof (cases "adjust_create (pthread_kill zombie (detached s) (workers s)) rs 0 0
                  (Suc (length (workers s))) p")
    case (Inl e)
    with True assms same show ?thesis by (auto simp: grow_effect_def)
  next
    case (Inr r)
    with True assms grown show ?thesis by (cases r) (auto simp: grow_effect_def Let_def)
  qed
qed

lemma grow_effect_wake:
  assumes p: "tp_pool s = Some p" "wake_ok p (workers s)"
    and ex: "grow_effect zombie rs q l b s = Some s'"
  shows "wake_inv s'"
  using ex p(1)
proof (cases rule: grow_effect_cases)
  case same
  with p(2) show ?thesis by (simp add: wake_inv_def)
next
  case (grown add tid'' p')
  with adjust_create_queue [OF grown(1)] wake_ok_hire [OF p(2)] wake_ok_cong [of p' p]
  show ?thesis by (simp add: wake_inv_def)
qed

lemma shrink_effect_wake:
  assumes p: "tp_pool s = Some p" "wake_ok p (workers s)" and ex: "shrink_effect l b s = Some s'"
  shows "wake_inv s'"
  using assms wake_ok_cong [of "p\<lparr>wait_exit_thr_num := int DEFAULT_THREAD_VARY\<rparr>" p]
  by (auto simp: shrink_effect_def wake_inv_def adjust_wants_fewer_def split: if_splits)


lemma tp_event_wake:
  assumes inv: "tp_inv s" and wake: "wake_inv s" and ex: "tp_event_exec e s = Some s'"
  shows "wake_inv s'"
proof -
  from inv obtain p where p: "tp_pool s = Some p" "pool_ok p" "crew_ok p (unborn s) (workers s)" by (rule tp_invE)
  with wake have w: "wake_ok p (workers s)" by (simp add: wake_inv_def)
  note pw = p(1) w
  have keep: "wake_inv s1" if "tp_pool s1 = Some p" "workers s1 = workers s" for s1
    using that w by (simp add: wake_inv_def)
  show ?thesis
  proof (cases e)
    case (AddCall i t k)
    with ex have "add_effect i t k s = Some s'" by (simp split: if_splits)
    then show ?thesis by (rule add_effect_wake [OF pw])
  next
    case (AddAgain i k)
    with ex obtain t where "add_effect i t k s = Some s'" by (auto split: if_splits ppc.splits)
    then show ?thesis by (rule add_effect_wake [OF pw])
  next
    case (AddSpurious i)
    with ex obtain xs where "s' = s\<lparr>producers := xs\<rparr>" by (auto split: if_splits)
    with p show ?thesis by (intro keep) simp_all
  next
    case (WEnter j)
    with ex have "j < length (workers s)" "workers s ! j = WLoop" "worker_effect worker_take j s = Some s'"
      by (simp_all split: if_splits)
    then show ?thesis by (intro worker_effect_wake [OF pw _ _ worker_take_queue]) simp_all
  next
    case (WResume j)
    with ex have "j < length (workers s)" "workers s ! j = WWoken" "worker_effect worker_woken j s = Some s'"
      by (simp_all split: if_splits)
    then show ?thesis by (intro worker_effect_wake [OF pw _ _ worker_woken_queue]) simp_all
  next
    case (WSpurious j)
    with ex have "j < length (workers s)" "workers s ! j = WWait"
      "s' = s\<lparr>workers := (workers s)[j := WWoken]\<rparr>" by (auto split: if_splits)
    with p wake_ok_move [OF w, of j WWoken] show ?thesis by (simp add: wake_inv_def)
  next
    case (WBegin j)
    with ex obtain t where j: "j < length (workers s)" "workers s ! j = WTask t"
      by (auto split: if_splits wpc.splits)
    have "c_add (busy_thr_num p) 1 = Inr (busy_thr_num p + 1)"
      using busy_le_live [OF p(3)] p(2) by (auto simp: c_add_def pool_ok_def int_range_defs)
    with WBegin ex p j have "s' = s\<lparr>tp_pool := Some (p\<lparr>busy_thr_num := busy_thr_num p + 1\<rparr>),
        workers := (workers s)[j := WRun t]\<rparr>" by (simp add: worker_begin_def)
    with j wake_ok_move [OF w j(1), of "WRun t"]
      wake_ok_cong [of "p\<lparr>busy_thr_num := busy_thr_num p + 1\<rparr>" p]
    show ?thesis by (simp add: wake_inv_def)
  next
    case (WEnd j)
    with ex obtain t where j: "j < length (workers s)" "workers s ! j = WRun t"
      by (auto split: if_splits wpc.splits)
    have "c_sub (busy_thr_num p) 1 = Inr (busy_thr_num p - 1)"
      using busy_le_live [OF p(3)] p(2) by (auto simp: c_sub_def pool_ok_def int_range_defs)
    with WEnd ex p j have "s' = s\<lparr>tp_pool := Some (p\<lparr>busy_thr_num := busy_thr_num p - 1\<rparr>),
        workers := (workers s)[j := WLoop], finished := finished s @ [t]\<rparr>"
      by (simp add: worker_end_def)
    with j wake_ok_move [OF w j(1), of WLoop]
      wake_ok_cong [of "p\<lparr>busy_thr_num := busy_thr_num p - 1\<rparr>" p]
    show ?thesis by (simp add: wake_inv_def)
  next
    case AdjTest
    with ex p show ?thesis by (auto intro: keep split: if_splits)
  next
    case AdjSnap
    with ex p show ?thesis by (auto intro: keep split: if_splits)
  next
    case AdjBusy
    with ex p show ?thesis by (auto intro: keep split: apc.splits)
  next
    case (AdjGrow zombie rs)
    with ex obtain q l b where "grow_effect zombie rs q l b s = Some s'" by (auto split: apc.splits)
    then show ?thesis by (rule grow_effect_wake [OF pw])
  next
    case AdjShrink
    with ex obtain l b where "shrink_effect l b s = Some s'" by (auto split: apc.splits)
    then show ?thesis by (rule shrink_effect_wake [OF pw])
  next
    case (AdjSignal k)
    with ex p obtain n ws where ws: "signal_worker k (workers s) = Some ws"
      and "s' = s\<lparr>workers := ws, adjuster := (if n = 0 then ATop else ASignal n)\<rparr>"
      by (auto split: apc.splits nat.splits option.splits)
    with p signal_wakes [OF ws w, of p] show ?thesis by (simp add: wake_inv_def)
  next
    case DestroyFlag
    with ex p show ?thesis by (auto simp: wake_inv_def wake_ok_def split: if_splits)
  next
    case DestroyWake
    with ex p have "s' = s\<lparr>workers := (if 0 < live_thr_num p then map wake_worker (workers s)
                                       else workers s), destroyer := DBroadcast\<rparr>"
      by (simp split: if_splits)
    with p w show ?thesis by (simp add: wake_inv_def)
  next
    case DestroyFree
    with inv ex tp_event_free [of s s'] show ?thesis by (simp add: wake_inv_def)
  qed
qed

lemma tp_reachable_wake:
  "tp_reachable s0 s \<Longrightarrow> tp_inv s0 \<Longrightarrow> wake_inv s0 \<Longrightarrow> wake_inv s"
proof (induction rule: tp_reachable.induct)
  case tp_start
  then show ?case by simp
next
  case (tp_more s s')
  from tp_more.hyps(2) obtain e where e: "tp_event_exec e s = Some s'" "fault s = None"
    by (auto simp: tp_step.simps tp_exec_def split: if_splits)
  with tp_reachable_inv [OF tp_more.hyps(1) tp_more.prems(1)] consider "tp_inv s" | "pool_gone s"
    by (auto simp: kill_fault_def)
  then show ?case
  proof cases
    case 1
    with tp_more e(1) tp_event_wake show ?thesis by blast
  next
    case 2
    with tp_event_gone [OF 2 e(1)] show ?thesis by (simp add: wake_inv_def pool_gone_def)
  qed
qed

end
