(* ===== verification/Event_Runs.thy ===== *)
theory Event_Runs
  imports C_Base
begin

text \<open>
  The interface between a system of steps and what is proved of its runs: \<open>exec\<close> takes one event (it
  may not be possible, or fault), \<open>run\<close> a list of them. Whatever every step keeps, every run keeps; a
  system whose steps come closer to an end, and that can always make one, ends. The models of the
  event loops and of the interleaved processes interpret these locales.
\<close>

section \<open>Steps that may fault\<close>

locale fallible_runs =
  fixes exec :: "'e \<Rightarrow> 's \<Rightarrow> 's res option"
    and run :: "'e list \<Rightarrow> 's \<Rightarrow> 's res option"
  assumes run_Nil: "run [] s = Some (Inr s)"
    and run_Cons: "run (e # es) s =
      (case exec e s of
         None \<Rightarrow> None
       | Some (Inl err) \<Rightarrow> Some (Inl err)
       | Some (Inr s') \<Rightarrow> run es s')"
begin

text \<open>An invariant under the events in \<open>allowed\<close>; \<open>fails\<close> holds of every fault.\<close>

lemma run_keeps:
  assumes step: "\<And>e s r. ok s \<Longrightarrow> allowed e \<Longrightarrow> exec e s = Some r \<Longrightarrow>
      (case r of Inl err \<Rightarrow> fails err | Inr s' \<Rightarrow> ok s')"
  shows "ok s \<Longrightarrow> \<forall>e \<in> set es. allowed e \<Longrightarrow> run es s = Some r \<Longrightarrow>
    (case r of Inl err \<Rightarrow> fails err | Inr s' \<Rightarrow> ok s')"
proof (induction es arbitrary: s)
  case Nil
  then show ?case by (auto simp: run_Nil)
next
  case (Cons e es)
  then obtain r1 where r1: "exec e s = Some r1" by (auto simp: run_Cons split: option.splits)
  with step [OF Cons.prems(1) _ r1] Cons.prems(2)
  have "case r1 of Inl err \<Rightarrow> fails err | Inr s' \<Rightarrow> ok s'" by simp
  with Cons r1 show ?case by (cases r1) (auto simp: run_Cons)
qed

lemma run_keeps_all:
  assumes "\<And>e s r. ok s \<Longrightarrow> exec e s = Some r \<Longrightarrow> (case r of Inl err \<Rightarrow> fails err | Inr s' \<Rightarrow> ok s')"
    and "ok s" and "run es s = Some r"
  shows "case r of Inl err \<Rightarrow> fails err | Inr s' \<Rightarrow> ok s'"
  by (rule run_keeps [where allowed = "\<lambda>_. True"]) (use assms in auto)

lemma run_keeps_state:
  assumes "\<And>e s s'. ok s \<Longrightarrow> allowed e \<Longrightarrow> exec e s = Some (Inr s') \<Longrightarrow> ok s'"
    and "ok s" and "\<forall>e \<in> set es. allowed e" and "run es s = Some (Inr s')"
  shows "ok s'"
  using run_keeps [of ok allowed "\<lambda>_. True", OF _ assms(2-4)] assms(1)
  by (fastforce split: sum.splits)

text \<open>A state that no event changes.\<close>

lemma run_stuck:
  assumes "\<And>e. exec e s = None \<or> exec e s = Some (Inr s)"
  shows "run es s = Some r \<Longrightarrow> r = Inr s"
proof (induction es)
  case (Cons e es)
  with assms [of e] show ?case by (auto simp: run_Cons)
qed (simp add: run_Nil)

end

section \<open>Steps that do not fault\<close>

locale plain_runs =
  fixes exec :: "'e \<Rightarrow> 's \<Rightarrow> 's option"
    and run :: "'e list \<Rightarrow> 's \<Rightarrow> 's option"
  assumes plain_Nil: "run [] s = Some s"
    and plain_Cons: "run (e # es) s = (case exec e s of None \<Rightarrow> None | Some s' \<Rightarrow> run es s')"

sublocale plain_runs \<subseteq> fallible:
  fallible_runs "\<lambda>e s. map_option Inr (exec e s)" "\<lambda>es s. map_option Inr (run es s)"
  by unfold_locales (simp_all add: plain_Nil plain_Cons split: option.splits)

context plain_runs
begin

lemma run_invariant:
  assumes "\<And>e s s'. ok s \<Longrightarrow> exec e s = Some s' \<Longrightarrow> ok s'" and "ok s" and "run es s = Some s'"
  shows "ok s'"
  using fallible.run_keeps_state [of ok "\<lambda>_. True" s es s'] assms by auto

lemma run_append: "run (es @ fs) s = (case run es s of None \<Rightarrow> None | Some s' \<Rightarrow> run fs s')"
  by (induction es arbitrary: s) (auto simp: plain_Nil plain_Cons split: option.splits)

text \<open>A measure that every step decreases bounds the runs, \<dots>\<close>

lemma run_bounded:
  fixes left :: "'s \<Rightarrow> nat"
  assumes step: "\<And>e s s'. ok s \<Longrightarrow> exec e s = Some s' \<Longrightarrow> ok s' \<and> left s' < left s"
  shows "ok s \<Longrightarrow> run es s = Some s' \<Longrightarrow> ok s' \<and> length es + left s' \<le> left s"
proof (induction es arbitrary: s)
  case (Cons e es)
  then obtain s1 where 1: "exec e s = Some s1" "run es s1 = Some s'"
    by (auto simp: plain_Cons split: option.splits)
  from step [OF Cons.prems(1) 1(1)] Cons.IH [OF _ 1(2)] show ?case by fastforce
qed (simp add: plain_Nil)

text \<open>\<dots> and, if there is always an allowed step that decreases it, some run leads to the end.\<close>

lemma run_reaches:
  fixes left :: "'s \<Rightarrow> nat"
  assumes progress: "\<And>s. ok s \<Longrightarrow> \<not> ends s \<Longrightarrow>
      \<exists>e s'. allowed e \<and> exec e s = Some s' \<and> ok s' \<and> left s' < left s"
  shows "ok s \<Longrightarrow> \<exists>es s'. (\<forall>e \<in> set es. allowed e) \<and> run es s = Some s' \<and> ok s' \<and> ends s'"
proof (induction "left s" arbitrary: s rule: less_induct)
  case less
  show ?case
  proof (cases "ends s")
    case True
    with less.prems show ?thesis by (intro exI [of _ "[]"]) (simp add: plain_Nil)
  next
    case False
    with progress less.prems obtain e s1 where
      1: "allowed e" "exec e s = Some s1" "ok s1" "left s1 < left s" by blast
    with less.hyps obtain es s' where
      "\<forall>e \<in> set es. allowed e" "run es s1 = Some s'" "ok s'" "ends s'" by blast
    with 1 show ?thesis by (intro exI [of _ "e # es"] exI [of _ s']) (simp add: plain_Cons)
  qed
qed

lemma run_finishes:
  fixes left :: "'s \<Rightarrow> nat"
  assumes step: "\<And>e s s'. ok s \<Longrightarrow> exec e s = Some s' \<Longrightarrow> ok s' \<and> left s' < left s"
    and enabled: "\<And>s. ok s \<Longrightarrow> \<not> ends s \<Longrightarrow> \<exists>e s'. exec e s = Some s'"
    and "ok s"
  shows "\<exists>es s'. run es s = Some s' \<and> ok s' \<and> ends s'"
  using run_reaches [of ok ends "\<lambda>_. True" left s] step enabled assms(3) by blast

end

end
