(* ===== verification/ThreadPool_Drain.thy ===== *)
theory ThreadPool_Drain
  imports ThreadPool_Wakeup Event_Runs
begin

text \<open>
  The pool of \<open>thread/threadpool.c\<close> gets its work done: from every reachable state without a pending
  exit request, the workers alone can bring every accepted task to its end. That an awake worker is
  there to begin with is the invariant of \<open>ThreadPool_Wakeup\<close>. And which thread ids the pool holds: those
  of its workers, as long as every creation succeeded.
\<close>

section \<open>Workers stop only at the shutdown\<close>

definition stop_ok :: "tp_sys \<Rightarrow> bool" where
  "stop_ok s \<longleftrightarrow>
     (case tp_pool s of None \<Rightarrow> True | Some p \<Rightarrow> WStopped \<in> set (workers s) \<longrightarrow> shutdown p)"

lemma set_update_other: "x \<in> set (ws[j := w]) \<Longrightarrow> x \<noteq> w \<Longrightarrow> x \<in> set ws"
  using set_update_subset_insert [of ws j w] by blast

lemma signal_worker_stop:
  "signal_worker k ws = Some ws' \<Longrightarrow> WStopped \<in> set ws' \<Longrightarrow> WStopped \<in> set ws"
  by (auto simp: signal_worker_def split: option.splits if_splits dest: set_update_other)

lemma wake_workers_stop [simp]: "WStopped \<in> wake_worker ` ws \<longleftrightarrow> WStopped \<in> ws"
  by (auto simp: wake_worker_def image_iff split: if_splits)

lemma worker_effect_stop:
  assumes st: "stop_ok s" and ex: "worker_effect section j s = Some s'"
    and sec: "\<And>p w p'. section p = Inr (w, p') \<Longrightarrow> queue_result p w p'"
  shows "stop_ok s'"
proof (cases "tp_pool s")
  case None
  with ex show ?thesis by (auto simp: worker_effect_def with_pool_def stop_ok_def)
next
  case (Some p)
  show ?thesis
  proof (cases "section p")
    case (Inl e)
    with Some st ex show ?thesis by (auto simp: worker_effect_def stop_ok_def)
  next
    case (Inr r)
    then obtain w p' where r: "section p = Inr (w, p')" by (cases r) auto
    with Some ex have "tp_pool s' = Some p' \<and> workers s' = (workers s)[j := w]"
      by (cases w) (auto simp: worker_effect_def Let_def)
    moreover from sec [OF r] have "shutdown p' = shutdown p" "w = WStopped \<Longrightarrow> shutdown p"
      by (auto simp: queue_result_def)
    ultimately show ?thesis using st Some by (auto simp: stop_ok_def dest: set_update_other)
  qed
qed

lemma add_effect_stop:
  assumes st: "stop_ok s" and ex: "add_effect i t k s = Some s'"
  shows "stop_ok s'"
proof (cases "tp_pool s")
  case None
  with ex show ?thesis by (auto simp: add_effect_def with_pool_def stop_ok_def)
next
  case (Some p)
  show ?thesis
  proof (cases "threadpool_add t p")
    case (Inr r)
    show ?thesis
    proof (cases r)
      case (AddQueued p')
      with Inr have "tq_put t p = Inr p'" by (auto simp: threadpool_add_def split: if_splits)
      from tq_put_sizes [OF this] have "shutdown p' = shutdown p" by simp
      with Some ex Inr AddQueued st show ?thesis
        by (auto simp: add_effect_def stop_ok_def split: option.splits dest: signal_worker_stop)
    qed (use Some ex Inr st in \<open>auto simp: add_effect_def stop_ok_def\<close>)
  qed (use Some ex st in \<open>auto simp: add_effect_def stop_ok_def\<close>)
qed

lemma grow_effect_stop:
  assumes st: "stop_ok s" and ex: "grow_effect zombie rs q l b s = Some s'"
  shows "stop_ok s'"
proof (cases "tp_pool s")
  case None
  with ex show ?thesis by (auto simp: grow_effect_def with_pool_def stop_ok_def)
next
  case (Some p)
  with ex show ?thesis
  proof (cases rule: grow_effect_cases)
    case same
    with st Some show ?thesis by (simp add: stop_ok_def)
  next
    case (grown add tid'' p')
    with adjust_create_queue [OF grown(1)] Some st show ?thesis by (auto simp: stop_ok_def)
  qed
qed

lemma shrink_effect_stop: "stop_ok s \<Longrightarrow> shrink_effect l b s = Some s' \<Longrightarrow> stop_ok s'"
  by (cases "tp_pool s")
    (auto simp: shrink_effect_def with_pool_def stop_ok_def adjust_wants_fewer_def split: if_splits)

lemma tp_event_stop:
  assumes st: "stop_ok s" and ex: "tp_event_exec e s = Some s'"
  shows "stop_ok s'"
proof (cases e)
  case (WEnter j)
  with ex show ?thesis
    by (intro worker_effect_stop [OF st _ worker_take_queue]) (auto split: if_splits)
next
  case (WResume j)
  with ex show ?thesis
    by (intro worker_effect_stop [OF st _ worker_woken_queue]) (auto split: if_splits)
next
  case (AddCall i t k)
  with ex show ?thesis by (intro add_effect_stop [OF st]) (auto split: if_splits)
next
  case (AddAgain i k)
  with ex st show ?thesis by (auto split: if_splits ppc.splits intro: add_effect_stop)
next
  case (AdjGrow zombie rs)
  with ex st show ?thesis by (auto split: apc.splits intro: grow_effect_stop)
next
  case AdjShrink
  with ex st show ?thesis by (auto split: apc.splits intro: shrink_effect_stop)
next
  case (AdjSignal k)
  with ex st show ?thesis
    by (cases "tp_pool s")
      (auto simp: with_pool_def stop_ok_def split: apc.splits nat.splits option.splits
        dest: signal_worker_stop)
qed (use ex st in \<open>cases "tp_pool s";
      auto simp: stop_ok_def with_pool_def worker_begin_def worker_end_def
        split: if_splits wpc.splits apc.splits sum.splits dest: set_update_other\<close>)+

text \<open>What every event keeps holds in every reachable state.\<close>

lemma tp_reachable_keeps:
  assumes "\<And>e s s'. P s \<Longrightarrow> tp_event_exec e s = Some s' \<Longrightarrow> P s'"
  shows "tp_reachable s0 s \<Longrightarrow> P s0 \<Longrightarrow> P s"
proof (induction rule: tp_reachable.induct)
  case (tp_more s s')
  from tp_more.hyps(2) obtain e where "tp_event_exec e s = Some s'"
    by (auto simp: tp_step.simps tp_exec_def split: if_splits)
  with tp_more assms show ?case by blast
qed

lemma tp_reachable_stop: "tp_reachable s0 s \<Longrightarrow> stop_ok s0 \<Longrightarrow> stop_ok s"
  by (rule tp_reachable_keeps [where P = stop_ok]) (blast intro: tp_event_stop)+

section \<open>The ids in the pool\<close>

text \<open>If every \<open>pthread_create\<close> succeeded, the pool stores no id but those of its workers.\<close>

definition ids_below :: "pool \<Rightarrow> nat \<Rightarrow> bool" where
  "ids_below p k \<longleftrightarrow> (\<forall>ts. threads p = Block ts \<longrightarrow> (\<forall>tid \<in> set ts. tid < k))"

definition ids_inv :: "tp_sys \<Rightarrow> bool" where
  "ids_inv s \<longleftrightarrow>
     (case tp_pool s of None \<Rightarrow> True
      | Some p \<Rightarrow> unborn s = 0 \<longrightarrow> ids_below p (Suc (length (workers s))))"

lemma tq_threads: "tq_get p = Inr (t, p') \<Longrightarrow> threads p' = threads p"
  "tq_put t p = Inr p' \<Longrightarrow> threads p' = threads p"
  by (auto simp: tq_get_def tq_put_def)

lemma worker_take_threads: "worker_take p = Inr (w, p') \<Longrightarrow> threads p' = threads p"
  by (auto simp: worker_take_def tq_threads split: if_splits)

lemma worker_woken_threads: "worker_woken p = Inr (w, p') \<Longrightarrow> threads p' = threads p"
  by (auto simp: worker_woken_def Let_def dest: worker_take_threads split: if_splits)

lemma signal_worker_length: "signal_worker k ws = Some ws' \<Longrightarrow> length ws' = length ws"
  by (auto simp: signal_worker_def split: option.splits if_splits)

text \<open>The manager's round stores its new ids, and others only where a creation failed.\<close>

lemma adjust_create_ids:
  assumes "adjust_create kill rs i added tid' p = Inr (add, tid'', p')"
  shows "added \<le> add \<and> tid' \<le> tid'' \<and> tid'' - tid' \<le> add - added \<and>
    (ids_below p tid' \<and> tid'' - tid' = add - added \<longrightarrow> ids_below p' tid'')"
  using assms
proof (induction kill rs i added tid' p rule: adjust_create.induct)
  case (1 kill rs i added tid' p)
  let ?go = "i < max_thr_num p \<and> added < DEFAULT_THREAD_VARY \<and> live_thr_num p < max_thr_num p"
  show ?case
  proof (cases ?go)
    case False
    with "1.prems" show ?thesis by (subst (asm) adjust_create.simps) (simp add: ids_below_def)
  next
    case go: True
    from "1.prems" go obtain ts free where ts: "threads p = Block ts" "arr_get ts i = Inr (ts ! nat i)"
      and free: "slot_free kill (ts ! nat i) = Inr free"
      by (subst (asm) adjust_create.simps, cases "threads p") (auto simp: arr_get_def split: if_splits)
    have i: "0 \<le> i" "i < int (length ts)" using ts(2) by (auto simp: arr_get_def split: if_splits)
    show ?thesis
    proof (cases free)
      case False
      with "1.prems" go ts free have rec: "adjust_create kill rs (i + 1) added tid' p = Inr (add, tid'', p')"
        by (subst (asm) adjust_create.simps) simp
      have nf: "\<not> False" by simp
      show ?thesis by (rule "1.IH"(2) [OF go nf rec])
    next
      case True
      let ?r = "creation rs added"
      let ?ts = "ts[nat i := stored_id ?r tid']"
      let ?p = "p\<lparr>threads := Block ?ts, live_thr_num := live_thr_num p + 1\<rparr>"
      from "1.prems" go ts free True i have
        rec: "adjust_create kill rs (i + 1) (Suc added) (next_id ?r tid') ?p = Inr (add, tid'', p')"
        by (subst (asm) adjust_create.simps) (auto simp: arr_set_def c_add_def split: if_splits)
      note ih = "1.IH"(1) [OF go TrueI rec]
      show ?thesis
      proof (cases ?r)
        case None
        have "ids_below ?p (Suc tid')" if "ids_below p tid'"
          using that ts(1) set_update_subset_insert [of ts "nat i" tid'] None
          by (fastforce simp: ids_below_def stored_id_def)
        moreover have "next_id ?r tid' = Suc tid'" using None by (simp add: next_id_def)
        ultimately show ?thesis using ih by auto
      next
        case (Some junk)
        then have "next_id ?r tid' = tid'" by (simp add: next_id_def)
        with ih show ?thesis by auto
      qed
    qed
  qed
qed

lemma ids_below_cong: "threads p' = threads p \<Longrightarrow> ids_below p' k = ids_below p k"
  by (simp add: ids_below_def)

lemma worker_effect_ids:
  assumes st: "ids_inv s" and ex: "worker_effect section j s = Some s'"
    and sec: "\<And>p w p'. section p = Inr (w, p') \<Longrightarrow> threads p' = threads p"
  shows "ids_inv s'"
proof (cases "tp_pool s")
  case None
  with ex show ?thesis by (auto simp: worker_effect_def with_pool_def ids_inv_def)
next
  case (Some p)
  show ?thesis
  proof (cases "section p")
    case (Inl e)
    with Some st ex show ?thesis by (auto simp: worker_effect_def ids_inv_def)
  next
    case (Inr r)
    then obtain w p' where r: "section p = Inr (w, p')" by (cases r) auto
    with Some ex have "tp_pool s' = Some p' \<and> workers s' = (workers s)[j := w] \<and> unborn s' = unborn s"
      by (cases w) (auto simp: worker_effect_def Let_def)
    with st Some ids_below_cong [OF sec [OF r]] show ?thesis by (simp add: ids_inv_def)
  qed
qed

lemma add_effect_ids:
  assumes st: "ids_inv s" and ex: "add_effect i t k s = Some s'"
  shows "ids_inv s'"
proof (cases "tp_pool s")
  case None
  with ex show ?thesis by (auto simp: add_effect_def with_pool_def ids_inv_def)
next
  case (Some p)
  show ?thesis
  proof (cases "threadpool_add t p")
    case (Inr r)
    show ?thesis
    proof (cases r)
      case (AddQueued p')
      with Inr have "tq_put t p = Inr p'" by (auto simp: threadpool_add_def split: if_splits)
      from ids_below_cong [OF tq_threads(2) [OF this]] Some ex Inr AddQueued st show ?thesis
        by (auto simp: add_effect_def ids_inv_def split: option.splits dest: signal_worker_length)
    qed (use Some ex Inr st in \<open>auto simp: add_effect_def ids_inv_def\<close>)
  qed (use Some ex st in \<open>auto simp: add_effect_def ids_inv_def\<close>)
qed

lemma grow_effect_ids:
  assumes st: "ids_inv s" and ex: "grow_effect zombie rs q l b s = Some s'"
  shows "ids_inv s'"
proof (cases "tp_pool s")
  case None
  with ex show ?thesis by (auto simp: grow_effect_def with_pool_def ids_inv_def)
next
  case (Some p)
  with ex show ?thesis
  proof (cases rule: grow_effect_cases)
    case same
    with st Some show ?thesis by (simp add: ids_inv_def)
  next
    case (grown add tid'' p')
    with adjust_create_ids [OF grown(1)] Some st show ?thesis by (auto simp: ids_inv_def)
  qed
qed

lemma ids_below_counters [simp]:
  "ids_below (p\<lparr>wait_exit_thr_num := w\<rparr>) = ids_below p"
  "ids_below (p\<lparr>busy_thr_num := b\<rparr>) = ids_below p"
  "ids_below (p\<lparr>shutdown := d\<rparr>) = ids_below p"
  by (simp_all add: ids_below_def fun_eq_iff)

lemma shrink_effect_ids: "ids_inv s \<Longrightarrow> shrink_effect l b s = Some s' \<Longrightarrow> ids_inv s'"
  by (cases "tp_pool s")
    (auto simp: shrink_effect_def with_pool_def ids_inv_def adjust_wants_fewer_def split: if_splits)

lemma tp_event_ids:
  assumes st: "ids_inv s" and ex: "tp_event_exec e s = Some s'"
  shows "ids_inv s'"
proof (cases e)
  case (WEnter j)
  with ex show ?thesis
    by (intro worker_effect_ids [OF st _ worker_take_threads]) (auto split: if_splits)
next
  case (WResume j)
  with ex show ?thesis
    by (intro worker_effect_ids [OF st _ worker_woken_threads]) (auto split: if_splits)
next
  case (AddCall i t k)
  with ex show ?thesis by (intro add_effect_ids [OF st]) (auto split: if_splits)
next
  case (AddAgain i k)
  with ex st show ?thesis by (auto split: if_splits ppc.splits intro: add_effect_ids)
next
  case (AdjGrow zombie rs)
  with ex st show ?thesis by (auto split: apc.splits intro: grow_effect_ids)
next
  case AdjShrink
  with ex st show ?thesis by (auto split: apc.splits intro: shrink_effect_ids)
next
  case (AdjSignal k)
  with ex st show ?thesis
    by (cases "tp_pool s")
      (auto simp: with_pool_def ids_inv_def split: apc.splits nat.splits option.splits
        dest: signal_worker_length)
qed (use ex st in \<open>cases "tp_pool s";
      auto simp: ids_inv_def with_pool_def worker_begin_def worker_end_def
        split: if_splits wpc.splits apc.splits sum.splits\<close>)+

lemma tp_reachable_ids: "tp_reachable s0 s \<Longrightarrow> ids_inv s0 \<Longrightarrow> ids_inv s"
  by (rule tp_reachable_keeps [where P = ids_inv]) (blast intro: tp_event_ids)+

section \<open>Working until nothing is left\<close>

interpretation tp_runs: plain_runs tp_exec tp_run
  by unfold_locales simp_all

text \<open>The moves of the workers, without spurious wake-ups.\<close>

fun worker_event :: "tp_event \<Rightarrow> bool" where
  "worker_event (WEnter j) = True"
| "worker_event (WResume j) = True"
| "worker_event (WBegin j) = True"
| "worker_event (WEnd j) = True"
| "worker_event _ = False"

text \<open>What a worker has still to do, and all of them.\<close>

fun work_left :: "wpc \<Rightarrow> nat" where
  "work_left (WTask t) = 2"
| "work_left (WRun t) = 1"
| "work_left _ = 0"

definition pool_left :: "tp_sys \<Rightarrow> nat" where
  "pool_left s =
     (case tp_pool s of None \<Rightarrow> 0
      | Some p \<Rightarrow> 3 * nat (queue_size p) + sum_list (map work_left (workers s)))"

text \<open>A running pool with nobody asked to leave; \<open>a\<close> are the tasks accepted so far.\<close>

definition at_work :: "task list \<Rightarrow> tp_sys \<Rightarrow> bool" where
  "at_work a s \<longleftrightarrow>
     tp_inv s \<and> wake_inv s \<and> accepted s = a \<and> workers s \<noteq> [] \<and> WRetired \<notin> set (workers s) \<and> WStopped \<notin> set (workers s) \<and>
     (\<exists>p. tp_pool s = Some p \<and> \<not> shutdown p \<and> wait_exit_thr_num p = 0)"

definition work_done :: "tp_sys \<Rightarrow> bool" where
  "work_done s \<longleftrightarrow> mset (finished s) = mset (accepted s)"

lemma at_work_step:
  assumes work: "at_work a s" and ex: "tp_event_exec e s = Some s'" and e: "worker_event e"
    and s': "accepted s' = a" "workers s' = (workers s)[j := w]" "w \<noteq> WRetired" "w \<noteq> WStopped"
      "tp_pool s = Some p" "tp_pool s' = Some p'" "same_off p p' \<or> (\<exists>b. p' = p\<lparr>busy_thr_num := b\<rparr>)"
  shows "at_work a s'"
proof -
  have "tp_inv s'" using work ex e by (intro tp_event_inv [OF _ ex]) (auto simp: at_work_def)
  moreover have "wake_inv s'" using work ex by (intro tp_event_wake [OF _ _ ex]) (auto simp: at_work_def)
  ultimately show ?thesis
    using work s' by (auto simp: at_work_def same_off_def dest: set_update_other)
qed

text \<open>A worker at the queue, which is not empty, takes the first task.\<close>

lemma take_progress:
  assumes work: "at_work a s" and p: "tp_pool s = Some p" "queue_size p \<noteq> 0"
    and j: "j < length (workers s)" "workers s ! j = WLoop \<or> workers s ! j = WWoken"
  shows "\<exists>e s'. worker_event e \<and> tp_exec e s = Some s' \<and> at_work a s' \<and> pool_left s' < pool_left s"
proof -
  from work p(1) have inv: "tp_inv s" "\<not> shutdown p" "wait_exit_thr_num p = 0" "accepted s = a"
    by (auto simp: at_work_def)
  then have ok: "pool_ok p" "fault s = None" using p(1) by (auto elim!: tp_invE)
  then have "tq_ok p" by (simp add: pool_ok_def)
  from tq_get_ok [OF this p(2)] obtain t p' where
    g: "tq_get p = Inr (t, p')" "same_off p p'" by blast
  define s' where "s' = s\<lparr>tp_pool := Some p', workers := (workers s)[j := WTask t],
    producers := map wake_producer (producers s), started := started s @ [t]\<rparr>"
  have take: "worker_take p = Inr (WTask t, p')" "worker_woken p = Inr (WTask t, p')"
    using g(1) p(2) inv(2,3) by (simp_all add: worker_take_def worker_woken_def)
  define e where "e = (if workers s ! j = WLoop then WEnter j else WResume j)"
  have ex: "tp_event_exec e s = Some s'"
    using j p(1) take by (auto simp: e_def worker_effect_def s'_def)
  have "at_work a s'"
    by (rule at_work_step [OF work ex _ _ _ _ _ p(1), of j "WTask t" p'])
      (simp_all add: e_def s'_def inv(4) g(2))
  moreover have "pool_left s' < pool_left s"
  proof -
    have "queue_size p' = queue_size p - 1" using tq_get_sizes [OF g(1)] by simp
    moreover have "0 < queue_size p" using \<open>tq_ok p\<close> p(2) by (auto elim!: tq_okE)
    moreover have "work_left (workers s ! j) = 0" using j(2) by auto
    ultimately show ?thesis
      using sum_list_at [OF j(1), of work_left "WTask t"] p(1)
      by (simp add: pool_left_def s'_def)
  qed
  ultimately show ?thesis using ex ok(2) by (intro exI [of _ e] exI [of _ s']) (simp add: e_def tp_exec_def)
qed

text \<open>A worker that has a task begins it; one that runs it ends it.\<close>

lemma busy_moves:
  assumes "tp_inv s" and "tp_pool s = Some p"
  shows "c_add (busy_thr_num p) 1 = Inr (busy_thr_num p + 1)"
    and "c_sub (busy_thr_num p) 1 = Inr (busy_thr_num p - 1)"
  using assms busy_le_live [of p "unborn s" "workers s"]
  by (auto simp: c_add_def c_sub_def pool_ok_def int_range_defs elim!: tp_invE)

lemma task_progress:
  assumes work: "at_work a s" and j: "j < length (workers s)" "0 < work_left (workers s ! j)"
  shows "\<exists>e s'. worker_event e \<and> tp_exec e s = Some s' \<and> at_work a s' \<and> pool_left s' < pool_left s"
proof -
  from work obtain p where p: "tp_pool s = Some p" and inv: "tp_inv s" "accepted s = a"
    by (auto simp: at_work_def)
  from inv(1) have f: "fault s = None" by (auto elim: tp_invE)
  note busy = busy_moves [OF inv(1) p]
  from j(2) consider t where "workers s ! j = WTask t" | t where "workers s ! j = WRun t"
    by (cases "workers s ! j") auto
  then show ?thesis
  proof cases
    case (1 t)
    let ?p' = "p\<lparr>busy_thr_num := busy_thr_num p + 1\<rparr>"
    define s' where "s' = s\<lparr>tp_pool := Some ?p', workers := (workers s)[j := WRun t]\<rparr>"
    have ex: "tp_event_exec (WBegin j) s = Some s'"
      using 1 j(1) p busy(1) by (simp add: worker_begin_def s'_def)
    have "at_work a s'"
      by (rule at_work_step [OF work ex _ _ _ _ _ p, of j "WRun t" ?p']) (auto simp: s'_def inv(2))
    moreover have "pool_left s' < pool_left s"
      using sum_list_at [OF j(1), of work_left "WRun t"] p 1 by (simp add: pool_left_def s'_def)
    ultimately show ?thesis
      using ex f by (intro exI [of _ "WBegin j"] exI [of _ s']) (simp add: tp_exec_def)
  next
    case (2 t)
    let ?p' = "p\<lparr>busy_thr_num := busy_thr_num p - 1\<rparr>"
    define s' where "s' = s\<lparr>tp_pool := Some ?p', workers := (workers s)[j := WLoop],
      finished := finished s @ [t]\<rparr>"
    have ex: "tp_event_exec (WEnd j) s = Some s'"
      using 2 j(1) p busy(2) by (simp add: worker_end_def s'_def)
    have "at_work a s'"
      by (rule at_work_step [OF work ex _ _ _ _ _ p, of j WLoop ?p']) (auto simp: s'_def inv(2))
    moreover have "pool_left s' < pool_left s"
      using sum_list_at [OF j(1), of work_left WLoop] p 2 by (simp add: pool_left_def s'_def)
    ultimately show ?thesis
      using ex f by (intro exI [of _ "WEnd j"] exI [of _ s']) (simp add: tp_exec_def)
  qed
qed

text \<open>While a task is queued and nobody is busy, somebody is awake.\<close>

lemma somebody_awake:
  assumes work: "at_work a s" and p: "tp_pool s = Some p" "queue_size p \<noteq> 0"
    and idle: "\<forall>w \<in> set (workers s). work_left w = 0"
  shows "\<exists>j < length (workers s). workers s ! j = WLoop \<or> workers s ! j = WWoken"
proof (rule ccontr)
  assume "\<not> ?thesis"
  then have none: "WLoop \<notin> set (workers s)" "WWoken \<notin> set (workers s)" by (auto simp: in_set_conv_nth)
  have sleeping: "w = WWait" if "w \<in> set (workers s)" for w
  proof -
    have "w \<noteq> WRetired" "w \<noteq> WStopped" "w \<noteq> WLoop" "w \<noteq> WWoken" "work_left w = 0"
      using that none idle work by (auto simp: at_work_def simp del: split_paired_All)
    then show ?thesis by (cases w) simp_all
  qed
  from work p(1) have inv: "pool_ok p" "workers s \<noteq> []" "wake_ok p (workers s)" "\<not> shutdown p"
    by (auto simp: at_work_def wake_inv_def elim!: tp_invE)
  with sleeping have "WWait \<in> set (workers s)" by (cases "workers s") auto
  then have "count_where asleep (workers s) \<noteq> 0"
    by (auto simp: count_where_def asleep_def filter_empty_conv)
  moreover have "count_where alert (workers s) = 0"
    using sleeping by (auto simp: count_where_def alert_def filter_empty_conv)
  ultimately have "queue_size p \<le> 0" using inv(3,4) by (auto simp: wake_ok_def)
  moreover have "0 \<le> queue_size p" using inv(1) by (auto simp: pool_ok_def elim!: tq_okE)
  ultimately show False using p(2) by simp
qed

lemma in_flight_none: "\<forall>w \<in> set ws. work_left w = 0 \<Longrightarrow> in_flight ws = {#}"
proof (induction ws)
  case (Cons w ws)
  then have "held w = {#}" by (cases w) auto
  with Cons show ?case by (simp add: in_flight_def)
qed (simp add: in_flight_def)

lemma work_progress:
  assumes work: "at_work a s" and left: "\<not> work_done s"
  shows "\<exists>e s'. worker_event e \<and> tp_exec e s = Some s' \<and> at_work a s' \<and> pool_left s' < pool_left s"
proof (cases "\<forall>w \<in> set (workers s). work_left w = 0")
  case False
  then obtain j where "j < length (workers s)" "0 < work_left (workers s ! j)"
    by (auto simp: in_set_conv_nth)
  with task_progress [OF work] show ?thesis by blast
next
  case True
  from work obtain p where p: "tp_pool s = Some p" "ledger_ok p s" "tq_ok p"
    by (auto simp: at_work_def pool_ok_def elim!: tp_invE)
  have "queue_size p \<noteq> 0"
  proof
    assume "queue_size p = 0"
    then have "tq_contents p = []" using length_tq_contents [OF p(3)] by simp
    with p(2) in_flight_none [OF True] left show False by (simp add: ledger_ok_def work_done_def)
  qed
  with take_progress [OF work p(1)] somebody_awake [OF work p(1) _ True] show ?thesis by blast
qed

lemma work_finishes:
  assumes "at_work a s"
  shows "\<exists>es s'. (\<forall>e \<in> set es. worker_event e) \<and> tp_run es s = Some s' \<and> at_work a s' \<and> work_done s'"
  by (rule tp_runs.run_reaches [OF work_progress assms])

end
