(* ===== verification/ThreadPool_Props.thy ===== *)
theory ThreadPool_Props
  imports ThreadPool_Drain
begin

text \<open>
  The promises of \<open>thread/threadpool.c\<close> for every interleaving of its workers, its callers, its
  manager and \<open>threadpool_destroy\<close>, and the places where it breaks them: creation that fails
  half-way, and destruction.
\<close>

section \<open>Creation\<close>

lemma start_workers_ok:
  "threads p = Block ts \<Longrightarrow> i + n \<le> length ts \<Longrightarrow>
   \<exists>ts'. start_workers rs n i tid' p = Inr (p\<lparr>threads := Block ts'\<rparr>) \<and> length ts' = length ts \<and>
     ((\<forall>k < n. creation rs (i + k) = None) \<and> (\<forall>tid \<in> set ts. tid < tid') \<longrightarrow>
      (\<forall>tid \<in> set ts'. tid < tid' + n))"
proof (induction n arbitrary: i p ts tid')
  case 0
  then have "p\<lparr>threads := Block ts\<rparr> = p" by simp
  with 0 show ?case by (intro exI [of _ ts]) simp
next
  case (Suc n)
  let ?r = "creation rs i"
  let ?ts = "ts[i := stored_id ?r tid']" and ?next = "next_id ?r tid'"
  from Suc.IH [of "p\<lparr>threads := Block ?ts\<rparr>" ?ts "Suc i" ?next] Suc.prems obtain ts' where
    ts': "start_workers rs n (Suc i) ?next (p\<lparr>threads := Block ?ts\<rparr>) = Inr (p\<lparr>threads := Block ts'\<rparr>)"
    "length ts' = length ts"
    and ids: "(\<forall>k < n. creation rs (Suc i + k) = None) \<and> (\<forall>tid \<in> set ?ts. tid < ?next) \<longrightarrow>
      (\<forall>tid \<in> set ts'. tid < ?next + n)" by auto
  have "\<forall>tid \<in> set ts'. tid < tid' + Suc n"
    if all: "\<forall>k < Suc n. creation rs (i + k) = None" and below: "\<forall>tid \<in> set ts. tid < tid'"
  proof -
    have r: "?r = None" using all [THEN spec, of 0] by simp
    have "\<forall>k < n. creation rs (Suc i + k) = None" using all by force
    moreover have "\<forall>tid \<in> set ?ts. tid < ?next"
      using below set_update_subset_insert [of ts i tid'] r
      by (fastforce simp: stored_id_def next_id_def)
    ultimately show ?thesis using ids r by (simp add: next_id_def)
  qed
  with Suc.prems ts' show ?case by auto
qed

lemma start_workers_overrun:
  "threads p = Block ts \<Longrightarrow> i \<le> length ts \<Longrightarrow> length ts < i + n \<Longrightarrow>
   start_workers rs n i tid' p = Inl OutOfBounds"
proof (induction n arbitrary: i p ts tid')
  case (Suc n)
  let ?ts = "ts[i := stored_id (creation rs i) tid']"
  show ?case
  proof (cases "i < length ts")
    case True
    with Suc.IH [of "p\<lparr>threads := Block ?ts\<rparr>" ?ts "Suc i"] Suc.prems
    show ?thesis by simp
  next
    case False
    with Suc.prems show ?thesis by (simp add: arr_set_def)
  qed
qed simp

lemma created_workers_le: "created_workers rs n \<le> n"
  unfolding created_workers_def by (rule order_trans [OF length_filter_le]) simp

lemma created_workers_all: "created_workers rs n = n \<Longrightarrow> k < n \<Longrightarrow> creation rs k = None"
  using length_filter_less [of k "[0..<n]" "\<lambda>k. creation rs k = None"]
  by (fastforce simp: created_workers_def)

text \<open>The pool as \<open>threadpool_create\<close> returns it; \<open>ts\<close> are the thread ids.\<close>

definition fresh_pool :: "task \<Rightarrow> nat list \<Rightarrow> int \<Rightarrow> int \<Rightarrow> int \<Rightarrow> pool" where
  "fresh_pool jt ts min_n max_n queue_max =
     \<lparr>locks_ready = True, threads = Block ts,
      task_queue = Block (replicate (nat queue_max) jt),
      min_thr_num = min_n, max_thr_num = max_n, live_thr_num = min_n,
      busy_thr_num = 0, wait_exit_thr_num = 0, queue_front = 0, queue_rear = 0,
      queue_size = 0, queue_max_size = queue_max, shutdown = False\<rparr>"

definition sizes_ok :: "int \<Rightarrow> int \<Rightarrow> int \<Rightarrow> bool" where
  "sizes_ok min_n max_n queue_max \<longleftrightarrow>
     0 \<le> min_n \<and> min_n \<le> max_n \<and> max_n * 2 \<le> int_max \<and> 0 < queue_max \<and> queue_max \<le> int_max"

definition env_ok :: "create_env \<Rightarrow> bool" where
  "env_ok e \<longleftrightarrow> pool_mem e \<and> threads_mem e \<and> queue_mem e \<and> 4 \<le> inits e"

lemma create_result:
  assumes "sizes_ok min_n max_n queue_max" and "env_ok e"
  shows "\<exists>ts. length ts = nat max_n \<and>
    (created_workers (starts e) (nat min_n) = nat min_n \<longrightarrow> (\<forall>tid \<in> set ts. tid \<le> nat min_n)) \<and>
    threadpool_create e min_n max_n queue_max =
      Inr (Some (fresh_pool (junk_task e) ts min_n max_n queue_max))"
proof -
  let ?p = "fresh_pool (junk_task e) (replicate (nat max_n) 0) min_n max_n queue_max"
  have "\<exists>ts'. start_workers (starts e) (nat min_n) 0 1 ?p = Inr (?p\<lparr>threads := Block ts'\<rparr>) \<and>
      length ts' = length (replicate (nat max_n) (0::nat)) \<and>
      ((\<forall>k < nat min_n. creation (starts e) (0 + k) = None) \<and>
         (\<forall>tid \<in> set (replicate (nat max_n) (0::nat)). tid < 1) \<longrightarrow>
       (\<forall>tid \<in> set ts'. tid < 1 + nat min_n))"
    by (rule start_workers_ok) (use assms in \<open>simp_all add: fresh_pool_def sizes_ok_def nat_mono\<close>)
  then obtain ts' where
    ts': "start_workers (starts e) (nat min_n) 0 1 ?p = Inr (?p\<lparr>threads := Block ts'\<rparr>)"
    "length ts' = nat max_n"
    "(\<forall>k < nat min_n. creation (starts e) k = None) \<longrightarrow> (\<forall>tid \<in> set ts'. tid \<le> nat min_n)"
    by (auto simp: less_Suc_eq_le)
  with assms created_workers_all [of "starts e" "nat min_n"] show ?thesis
    by (intro exI [of _ ts']) (auto simp: threadpool_create_def env_ok_def fresh_pool_def)
qed

lemma in_flight_idle [simp]: "in_flight (replicate n WLoop) = {#}"
  by (induction n) (simp_all add: in_flight_def)

lemma fresh_pool_inv:
  assumes "sizes_ok min_n max_n queue_max" and "length ts = nat max_n"
  shows "tp_inv (tp_init e (fresh_pool jt ts min_n max_n queue_max) n)"
  using assms created_workers_le [of "starts e" "nat min_n"]
  by (auto simp: tp_inv_def tp_init_def fresh_pool_def pool_ok_def tq_ok_def crew_ok_def
      ledger_ok_def tq_contents_def sizes_ok_def count_where_replicate Let_def)

text \<open>What the caller of a successful creation may rely on in every later state.\<close>

lemma created_inv:
  assumes "sizes_ok min_n max_n queue_max" and "env_ok e"
    and "threadpool_create e min_n max_n queue_max = Inr (Some p0)"
  shows "tp_inv (tp_init e p0 n)"
  using create_result [OF assms(1,2)] fresh_pool_inv [OF assms(1)] assms(3) by auto


lemma created_reachable:
  assumes "sizes_ok min_n max_n queue_max" and "env_ok e"
    and "threadpool_create e min_n max_n queue_max = Inr (Some p0)"
    and "tp_reachable (tp_init e p0 n) s" and "tp_pool s = Some p"
  shows "pool_ok p \<and> crew_ok p (unborn s) (workers s) \<and> ledger_ok p s"
  by (rule tp_reachable_pool [OF assms(4) created_inv [OF assms(1-3)] assms(5)])

section \<open>A small pool\<close>

definition all_well :: create_env where
  "all_well = \<lparr>pool_mem = True, threads_mem = True, queue_mem = True, inits = 4,
               starts = [], manager_starts = True, junk_task = \<lparr>func = 7, targ = 7\<rparr>\<rparr>"

text \<open>One worker, at most two, room for two tasks, two callers.\<close>

definition small_pool :: pool where
  "small_pool = fresh_pool \<lparr>func = 7, targ = 7\<rparr> [1, 0] 1 2 2"

definition tk :: "nat \<Rightarrow> task" where "tk n = \<lparr>func = 1, targ = n\<rparr>"

lemma small_ok: "sizes_ok 1 2 2" "env_ok all_well"
  by (simp_all add: sizes_ok_def env_ok_def all_well_def int_range_defs)

lemma small_created: "threadpool_create all_well 1 2 2 = Inr (Some small_pool)"
  by (simp add: threadpool_create_def all_well_def small_pool_def fresh_pool_def arr_set_def
      creation_def stored_id_def numeral_2_eq_2)

lemmas small_defs = tp_exec_def add_effect_def worker_effect_def with_pool_def
  threadpool_add_def tq_put_def tq_get_def signal_worker_def worker_take_def worker_woken_def
  worker_begin_def arr_get_def arr_set_def c_add_def c_sub_def c_mod_def int_range_defs
  tp_init_def created_workers_def creation_def all_well_def small_pool_def fresh_pool_def tk_def Let_def wake_worker_def threadpool_free_def

text \<open>Three tasks are accepted, the worker runs the first and the third waits for room.\<close>

definition small_events :: "tp_event list" where
  "small_events = [WEnter 0, AddCall 0 (tk 1) (Some 0), WResume 0, AddCall 0 (tk 2) None,
     WBegin 0, AddCall 0 (tk 3) None, AddCall 1 (tk 4) None]"

definition small_state :: tp_sys where
  "small_state = \<lparr>tp_pool = Some (small_pool\<lparr>task_queue := Block [tk 3, tk 2],
        busy_thr_num := 1, queue_front := 1, queue_rear := 1, queue_size := 2\<rparr>),
     workers = [WRun (tk 1)], detached = 1, unborn = 0, producers = [PIdle, PWait (tk 4)], adjuster = ATop,
     destroyer = DNone, fault = None, accepted = [tk 1, tk 2, tk 3], started = [tk 1],
     finished = [], dropped = []\<rparr>"

lemma small_run: "tp_run small_events (tp_init all_well small_pool 2) = Some small_state"
  by (simp add: small_events_def small_state_def small_defs numeral_2_eq_2)

lemma small_reachable: "tp_reachable (tp_init all_well small_pool 2) small_state"
  by (rule tp_run_reachable [OF tp_start small_run])


text \<open>Two workers sleep; the task of the first call wakes the first of them.\<close>

definition duo_pool :: pool where
  "duo_pool = fresh_pool \<lparr>func = 7, targ = 7\<rparr> [1, 2] 2 2 2"

definition duo_state :: tp_sys where
  "duo_state = \<lparr>tp_pool = Some (duo_pool\<lparr>task_queue := Block [tk 1, \<lparr>func = 7, targ = 7\<rparr>],
        queue_rear := 1, queue_size := 1\<rparr>),
     workers = [WWoken, WWait], detached = 2, unborn = 0, producers = [PIdle], adjuster = ATop, destroyer = DNone,
     fault = None, accepted = [tk 1], started = [], finished = [], dropped = []\<rparr>"

lemma duo_created: "sizes_ok 2 2 2" "threadpool_create all_well 2 2 2 = Inr (Some duo_pool)"
  by (simp_all add: sizes_ok_def int_range_defs threadpool_create_def all_well_def duo_pool_def
      fresh_pool_def arr_set_def creation_def stored_id_def next_id_def numeral_2_eq_2)

lemma duo_run: "tp_run [WEnter 0, WEnter 1, AddCall 0 (tk 1) (Some 0)] (tp_init all_well duo_pool 1) = Some duo_state"
  by (simp add: duo_state_def duo_pool_def small_defs numeral_2_eq_2)


section \<open>The manager's loop\<close>

lemma count_where_drop:
  "i < length xs \<Longrightarrow>
   count_where P (drop i xs) = (if P (xs ! i) then 1 else 0) + count_where P (drop (Suc i) xs)"
  by (simp flip: Cons_nth_drop_Suc)

text \<open>A slot the manager may fill, and ids that it may ask for.\<close>

definition free_slot :: "(nat \<Rightarrow> int res) \<Rightarrow> nat \<Rightarrow> bool" where
  "free_slot kill tid \<longleftrightarrow> slot_free kill tid = Inr True"

definition askable :: "(nat \<Rightarrow> int res) \<Rightarrow> nat \<Rightarrow> bool" where
  "askable kill tid \<longleftrightarrow> slot_free kill tid = Inr True \<or> slot_free kill tid = Inr False"

lemma adjust_create_count:
  assumes "threads p = Block ts" "int (length ts) = max_thr_num p" "0 \<le> i" "i \<le> max_thr_num p"
    and "added \<le> DEFAULT_THREAD_VARY" "max_thr_num p \<le> int_max" "0 \<le> live_thr_num p"
    and "\<forall>tid \<in> set (drop (nat i) ts). askable kill tid"
  shows "\<exists>tid'' p'. adjust_create kill rs i added tid' p =
    Inr (added + min (DEFAULT_THREAD_VARY - added)
           (min (nat (max_thr_num p - live_thr_num p)) (count_where (free_slot kill) (drop (nat i) ts))),
         tid'', p')"
  using assms
proof (induction kill rs i added tid' p arbitrary: ts rule: adjust_create.induct)
  case (1 kill rs i added tid' p)
  let ?go = "i < max_thr_num p \<and> added < DEFAULT_THREAD_VARY \<and> live_thr_num p < max_thr_num p"
  show ?case
  proof (cases ?go)
    case False
    with "1.prems" show ?thesis by (subst adjust_create.simps) auto
  next
    case go: True
    have i: "nat i < length ts" "nat (i + 1) = Suc (nat i)" using go "1.prems" by auto
    have get: "arr_get ts i = Inr (ts ! nat i)" using i "1.prems" by (simp add: arr_get_def)
    have later: "\<forall>tid \<in> set (drop (nat (i + 1)) ts). askable kill tid"
      using "1.prems"(8) i by (simp flip: Cons_nth_drop_Suc)
    have "askable kill (ts ! nat i)" using "1.prems"(8) i(1) by (simp flip: Cons_nth_drop_Suc)
    then consider "slot_free kill (ts ! nat i) = Inr True" | "slot_free kill (ts ! nat i) = Inr False"
      by (auto simp: askable_def)
    then show ?thesis
    proof cases
      case full: 2
      have nf: "\<not> False" by simp
      have "adjust_create kill rs i added tid' p = adjust_create kill rs (i + 1) added tid' p"
        using full go get "1.prems" by (subst adjust_create.simps) simp
      moreover have "\<not> free_slot kill (ts ! nat i)" using full by (simp add: free_slot_def)
      ultimately show ?thesis
        using "1.IH"(2) [OF go nf "1.prems"(1,2)] go "1.prems" i later
          count_where_drop [OF i(1), of "free_slot kill"] by simp
    next
      case free: 1
      let ?ts = "ts[nat i := stored_id (creation rs added) tid']"
      let ?p = "p\<lparr>threads := Block ?ts, live_thr_num := live_thr_num p + 1\<rparr>"
      let ?next = "next_id (creation rs added) tid'"
      have set: "arr_set ts i (stored_id (creation rs added) tid') = Inr ?ts"
        using i "1.prems" by (simp add: arr_set_def)
      have add: "c_add (live_thr_num p) 1 = Inr (live_thr_num p + 1)"
        using go "1.prems" by (simp add: c_add_def int_range_defs)
      have "\<exists>tid'' p'. adjust_create kill rs (i + 1) (Suc added) ?next ?p =
          Inr (Suc added + min (DEFAULT_THREAD_VARY - Suc added)
            (min (nat (max_thr_num ?p - live_thr_num ?p))
              (count_where (free_slot kill) (drop (nat (i + 1)) ?ts))), tid'', p')"
        by (rule "1.IH"(1) [OF go TrueI]) (use go "1.prems" later i in auto)
      moreover have "nat (max_thr_num p - live_thr_num p) =
          Suc (nat (max_thr_num p - (live_thr_num p + 1)))" using go by arith
      moreover have "adjust_create kill rs i added tid' p =
          adjust_create kill rs (i + 1) (Suc added) ?next ?p"
        using free go get set add "1.prems" by (subst adjust_create.simps) simp
      moreover have "DEFAULT_THREAD_VARY - added = Suc (DEFAULT_THREAD_VARY - Suc added)"
        using go by arith
      moreover have "count_where (free_slot kill) (drop (nat i) ts) =
          Suc (count_where (free_slot kill) (drop (nat (i + 1)) ?ts))"
        using free i count_where_drop [OF i(1), of "free_slot kill"] by (simp add: free_slot_def)
      ultimately show ?thesis by simp
    qed
  qed
qed


section \<open>Destruction\<close>

text \<open>The next access of a worker that is neither retired nor stopped.\<close>

fun next_access :: "nat \<Rightarrow> wpc \<Rightarrow> tp_event" where
  "next_access j (WTask t) = WBegin j"
| "next_access j (WRun t) = WEnd j"
| "next_access j WLoop = WEnter j"
| "next_access j _ = WResume j"

lemma access_after_free:
  assumes "tp_pool s = None" "j < length (workers s)"
    and "workers s ! j = wake_worker w" "w \<noteq> WRetired" "w \<noteq> WStopped"
  shows "tp_event_exec (next_access j w) s = Some (s\<lparr>fault := Some UseAfterFree\<rparr>)"
  using assms by (cases w) (simp_all add: wake_worker_def worker_effect_def with_pool_def)

lemma pool_ok_free: "pool_ok p \<Longrightarrow> threadpool_free (Some p) = Inr 0"
  by (cases "threads p"; cases "task_queue p")
    (auto simp: pool_ok_def tq_ok_def threadpool_free_def)

section \<open>Properties\<close>

text \<open>with sensible sizes, when every allocation and initialisation succeeds, \<open>threadpool_create\<close>
  returns a well-formed pool: empty queue of the wanted capacity, not shut down, none busy, and
  \<open>live_thr_num\<close> equal to \<open>min_thr_num\<close>, however many of the workers could be created.\<close>

theorem threadpool_create_ready:
  assumes "sizes_ok min_n max_n queue_max" and "env_ok e"
  shows "\<exists>p. threadpool_create e min_n max_n queue_max = Inr (Some p) \<and> pool_ok p \<and>
    tq_contents p = [] \<and> queue_max_size p = queue_max \<and> live_thr_num p = min_n \<and>
    max_thr_num p = max_n \<and> busy_thr_num p = 0 \<and> \<not> shutdown p"
proof -
  from create_result [OF assms] obtain ts where ts: "length ts = nat max_n"
    "threadpool_create e min_n max_n queue_max =
       Inr (Some (fresh_pool (junk_task e) ts min_n max_n queue_max))" by blast
  with fresh_pool_inv [OF assms(1) ts(1), of e "junk_task e" 0] show ?thesis
    by (auto simp: tp_init_def tp_inv_def ledger_ok_def Let_def) (simp_all add: fresh_pool_def)
qed

theorem threadpool_create_ready_witness:
  "\<exists>p. threadpool_create all_well 1 2 2 = Inr (Some p) \<and> pool_ok p \<and> live_thr_num p = 1"
  using threadpool_create_ready [OF small_ok] by auto

text \<open>when something fails, \<open>threadpool_create\<close> only copes with the very first allocation: after
  it the clean-up in \<open>threadpool_free\<close> reads a pointer or takes a lock that was never initialised.\<close>

theorem threadpool_create_failure:
  assumes "\<not> env_ok e"
  shows "threadpool_create e min_n max_n queue_max =
    (if pool_mem e then Inl Uninitialised else Inr None)"
  using assms by (auto simp: threadpool_create_def env_ok_def threadpool_free_def Let_def)

theorem threadpool_create_failure_witness:
  "threadpool_create (all_well\<lparr>threads_mem := False\<rparr>) 3 100 100 = Inl Uninitialised"
  using threadpool_create_failure [of "all_well\<lparr>threads_mem := False\<rparr>" 3 100 100]
  by (simp add: env_ok_def all_well_def)

text \<open>a minimum above the maximum is not rejected: starting the workers writes past the end of
  the \<open>threads\<close> array.\<close>

theorem threadpool_create_overrun:
  assumes "env_ok e" and "0 \<le> max_n" and "max_n < min_n"
  shows "threadpool_create e min_n max_n queue_max = Inl OutOfBounds"
proof -
  have "start_workers (starts e) (nat min_n) 0 1
      (fresh_pool (junk_task e) (replicate (nat max_n) 0) min_n max_n queue_max) = Inl OutOfBounds"
    by (rule start_workers_overrun [where ts = "replicate (nat max_n) 0"])
      (use assms in \<open>simp_all add: fresh_pool_def\<close>)
  with assms(1) show ?thesis by (simp add: threadpool_create_def env_ok_def fresh_pool_def)
qed

theorem threadpool_create_overrun_witness:
  "threadpool_create all_well 5 3 10 = Inl OutOfBounds"
  using threadpool_create_overrun [OF small_ok(2), of 3 5] by simp

text \<open>the task ring delivers the tasks in the order in which \<open>threadpool_add\<close> accepted them, for
  any mix of insertions and removals under the code's guards, and never faults.\<close>

theorem task_ring_fifo:
  assumes "tq_ok p"
  shows "\<exists>acc del p'. fifo_run tq_put tq_get (\<lambda>p. queue_size p \<noteq> queue_max_size p)
      (\<lambda>p. queue_size p \<noteq> 0) ops p = Inr (acc, del, p') \<and> tq_ok p' \<and>
    tq_contents p @ acc = del @ tq_contents p'"
  using tq.run_order [OF assms] by blast

theorem task_ring_fifo_witness:
  "\<exists>acc del p'. fifo_run tq_put tq_get (\<lambda>p. queue_size p \<noteq> queue_max_size p)
      (\<lambda>p. queue_size p \<noteq> 0) [Put (tk 1), Get, Put (tk 2)] small_pool = Inr (acc, del, p') \<and>
    acc = del @ tq_contents p'"
proof -
  have "tq_ok small_pool" "tq_contents small_pool = []"
    by (simp_all add: small_pool_def fresh_pool_def tq_ok_def tq_contents_def int_range_defs)
  from task_ring_fifo [OF this(1), of "[Put (tk 1), Get, Put (tk 2)]"] this(2)
  show ?thesis by (simp only: append_Nil) blast
qed

text \<open>C2: let the sizes satisfy \<open>0 <= min <= max\<close>, \<open>2 * max\<close> and the queue size (above 0) fit in an
  \<open>int\<close>. In every state that workers, callers, the manager and the destroyer can reach while the pool
  exists, the queue holds between 0 and \<open>queue_max_size\<close> tasks, the counter \<open>live_thr_num\<close> stays between
  \<open>min_thr_num\<close> and \<open>max_thr_num\<close>, and no more worker threads than it counts exist.\<close>

theorem threadpool_stays_in_bounds:
  assumes "sizes_ok min_n max_n queue_max" and "env_ok e"
    and "threadpool_create e min_n max_n queue_max = Inr (Some p0)"
    and "tp_reachable (tp_init e p0 n) s" and "tp_pool s = Some p"
  shows "0 \<le> queue_size p \<and> queue_size p \<le> queue_max_size p \<and>
    length (tq_contents p) = nat (queue_size p) \<and>
    min_thr_num p \<le> threadpool_all_threadnum p \<and> threadpool_all_threadnum p \<le> max_thr_num p \<and>
    int (length (filter (\<lambda>w. \<not> ended_worker w) (workers s))) \<le> threadpool_all_threadnum p"
proof -
  from created_reachable [OF assms] have ok: "pool_ok p" "tq_ok p" "crew_ok p (unborn s) (workers s)"
    by (simp_all add: pool_ok_def)
  have "count_where (\<lambda>w. \<not> ended_worker w) (workers s) \<le> count_where (\<lambda>w. w \<noteq> WRetired) (workers s)"
    by (rule count_where_mono) (simp add: ended_worker_def)
  with ok show ?thesis
    by (auto simp: pool_ok_def crew_ok_def count_where_def length_tq_contents
        threadpool_all_threadnum_def elim: tq_okE)
qed

theorem threadpool_stays_in_bounds_witness:
  "\<exists>p. tp_pool small_state = Some p \<and> queue_size p = 2 \<and> queue_size p \<le> queue_max_size p \<and>
    threadpool_all_threadnum p \<le> max_thr_num p"
  using threadpool_stays_in_bounds [OF small_ok small_created small_reachable]
  by (simp add: small_state_def)

text \<open>C1: no accepted task is lost, duplicated or overtaken: at every moment the tasks accepted by
  \<open>threadpool_add\<close> are those the workers took, in this order, followed by the queue; and the
  tasks taken are those that finished together with those the workers hold.\<close>

theorem threadpool_keeps_tasks:
  assumes "sizes_ok min_n max_n queue_max" and "env_ok e"
    and "threadpool_create e min_n max_n queue_max = Inr (Some p0)"
    and "tp_reachable (tp_init e p0 n) s" and "tp_pool s = Some p"
  shows "accepted s = started s @ tq_contents p \<and>
    mset (accepted s) = mset (finished s) + in_flight (workers s) + mset (tq_contents p)"
  using created_reachable [OF assms] by (simp add: ledger_ok_def)

theorem threadpool_keeps_tasks_witness:
  "\<exists>p. tp_pool small_state = Some p \<and> [tk 1, tk 2, tk 3] = [tk 1] @ tq_contents p"
  using threadpool_keeps_tasks [OF small_ok small_created small_reachable]
  by (simp add: small_state_def)

text \<open>C4: for sizes as in \<open>threadpool_stays_in_bounds\<close>, in every reachable state of the pool
  \<open>threadpool_busy_threadnum\<close> counts exactly the workers that run a task, and
  \<open>threadpool_all_threadnum\<close> those the manager has not retired plus every call of \<open>pthread_create\<close> that
  failed: the counter goes up whatever the call returned, and never comes down for it.\<close>

theorem threadpool_counters_exact:
  assumes "sizes_ok min_n max_n queue_max" and "env_ok e"
    and "threadpool_create e min_n max_n queue_max = Inr (Some p0)"
    and "tp_reachable (tp_init e p0 n) s" and "tp_pool s = Some p"
  shows "threadpool_busy_threadnum p = int (length (filter running (workers s))) \<and>
    threadpool_all_threadnum p =
      int (length (filter (\<lambda>w. w \<noteq> WRetired) (workers s))) + int (unborn s)"
  using created_reachable [OF assms]
  by (simp add: crew_ok_def count_where_def threadpool_busy_threadnum_def
      threadpool_all_threadnum_def)

text \<open>Of two workers to start only the second one could be created.\<close>

definition half_well :: create_env where
  "half_well = all_well\<lparr>starts := [Some 0, None]\<rparr>"

definition half_pool :: pool where
  "half_pool = fresh_pool \<lparr>func = 7, targ = 7\<rparr> [0, 1] 2 2 2"

lemma half_created: "env_ok half_well" "threadpool_create half_well 2 2 2 = Inr (Some half_pool)"
  by (simp_all add: env_ok_def threadpool_create_def half_well_def all_well_def half_pool_def
      fresh_pool_def arr_set_def creation_def stored_id_def next_id_def numeral_2_eq_2)

theorem threadpool_counters_exact_witness:
  "workers (tp_init half_well half_pool 0) = [WLoop] \<and> threadpool_all_threadnum half_pool = int 1 + int 1"
proof -
  have "tp_pool (tp_init half_well half_pool 0) = Some half_pool"
    "workers (tp_init half_well half_pool 0) = [WLoop]" "unborn (tp_init half_well half_pool 0) = 1"
    by (simp_all add: tp_init_def Let_def created_workers_def creation_def half_well_def all_well_def
        half_pool_def fresh_pool_def numeral_2_eq_2)
  with threadpool_counters_exact [OF duo_created(1) half_created tp_start this(1)]
  show ?thesis by simp
qed

text \<open>C8: no wake-up is lost unless a worker retires: while the pool is not shut down, a task can
  wait in the queue beside a sleeping worker only if, for each such task, a worker is on its way
  to the queue or one has retired. Without retirements a non-empty queue beside a sleeping worker
  always has an awake worker coming.\<close>

theorem threadpool_no_lost_wakeup:
  assumes "sizes_ok min_n max_n queue_max" and "env_ok e"
    and "threadpool_create e min_n max_n queue_max = Inr (Some p0)"
    and "tp_reachable (tp_init e p0 n) s" and "tp_pool s = Some p"
    and "\<not> shutdown p" and "WWait \<in> set (workers s)"
  shows "queue_size p \<le> int (length (filter (\<lambda>w. w = WLoop \<or> w = WWoken \<or> w = WRetired) (workers s))) \<and>
    (0 < queue_size p \<and> WRetired \<notin> set (workers s) \<longrightarrow>
       WLoop \<in> set (workers s) \<or> WWoken \<in> set (workers s))"
proof -
  have inv: "tp_inv (tp_init e p0 n)" by (rule created_inv [OF assms(1-3)])
  have "wake_inv (tp_init e p0 n)"
    by (simp add: tp_init_def Let_def wake_inv_def wake_ok_def count_where_replicate)
  from tp_reachable_wake [OF assms(4) inv this] assms(5,6)
  have "count_where asleep (workers s) = 0 \<or> queue_size p \<le> int (count_where alert (workers s))"
    by (simp add: wake_inv_def wake_ok_def)
  moreover have "count_where asleep (workers s) \<noteq> 0"
    using assms(7) by (auto simp: count_where_def asleep_def filter_empty_conv)
  ultimately have le: "queue_size p \<le> int (length (filter alert (workers s)))"
    by (simp add: count_where_def)
  then have "0 < queue_size p \<Longrightarrow> \<exists>w \<in> set (workers s). alert w"
    by (cases "filter alert (workers s) = []") (simp_all add: filter_empty_conv)
  moreover have "alert = (\<lambda>w. w = WLoop \<or> w = WWoken \<or> w = WRetired)"
    by (rule ext) (simp add: alert_def)
  ultimately show ?thesis using le by (auto simp: alert_def)
qed

theorem threadpool_no_lost_wakeup_witness:
  "\<exists>p. tp_pool duo_state = Some p \<and> queue_size p = 1 \<and>
    queue_size p \<le> int (length (filter (\<lambda>w. w = WLoop \<or> w = WWoken \<or> w = WRetired) [WWoken, WWait]))"
  using threadpool_no_lost_wakeup [OF duo_created(1) small_ok(2) duo_created(2)
      tp_run_reachable [OF tp_start duo_run]]
  by (simp add: duo_state_def duo_pool_def fresh_pool_def)

text \<open>C3: for sizes as in \<open>threadpool_stays_in_bounds\<close>, in every reachable state that has not faulted, of
  a pool that is not shut down, with at least one worker created, no exit request pending and no
  worker retired, the workers alone, without spurious wake-ups and with no help from the manager,
  can bring every task accepted so far to its end, without a fault.\<close>

theorem threadpool_finishes_accepted:
  assumes "sizes_ok min_n max_n queue_max" and "env_ok e"
    and "threadpool_create e min_n max_n queue_max = Inr (Some p0)"
    and "tp_reachable (tp_init e p0 n) s" and "tp_pool s = Some p" and "\<not> shutdown p"
    and "fault s = None" and "workers s \<noteq> []"
    and "wait_exit_thr_num p = 0" and "WRetired \<notin> set (workers s)"
  shows "\<exists>es s'. (\<forall>ev \<in> set es. worker_event ev) \<and> tp_run es s = Some s' \<and> fault s' = None \<and>
    accepted s' = accepted s \<and> mset (finished s') = mset (accepted s)"
proof -
  have inv: "tp_inv (tp_init e p0 n)" by (rule created_inv [OF assms(1-3)])
  have "wake_inv (tp_init e p0 n)" "stop_ok (tp_init e p0 n)"
    by (auto simp: tp_init_def Let_def wake_inv_def wake_ok_def stop_ok_def count_where_replicate)
  with tp_reachable_wake [OF assms(4) inv] tp_reachable_stop [OF assms(4)]
    tp_reachable_running [OF assms(4) inv assms(5,7)] assms(5-10)
  have "at_work (accepted s) s" by (auto simp: at_work_def stop_ok_def)
  from work_finishes [OF this] obtain es s' where "\<forall>ev \<in> set es. worker_event ev"
    "tp_run es s = Some s'" "at_work (accepted s) s'" "work_done s'" by blast
  then show ?thesis
    by (intro exI [of _ es] exI [of _ s']) (auto simp: at_work_def work_done_def elim: tp_invE)
qed

theorem threadpool_finishes_accepted_witness:
  "\<exists>es s'. tp_run es small_state = Some s' \<and> mset (finished s') = {#tk 1, tk 2, tk 3#}"
proof -
  have "tp_pool small_state = Some (small_pool\<lparr>task_queue := Block [tk 3, tk 2],
        busy_thr_num := 1, queue_front := 1, queue_rear := 1, queue_size := 2\<rparr>)"
    by (simp add: small_state_def)
  from threadpool_finishes_accepted [OF small_ok small_created small_reachable this]
  show ?thesis by (auto simp: small_pool_def fresh_pool_def small_state_def)
qed

text \<open>the manager's loop counts up exactly as often as the limit of ten per round, the maximum of
  the pool and the free slots of \<open>threads\<close> allow, as long as no slot it may look at holds an id that
  must not be used.\<close>

theorem adjust_create_exact:
  assumes "pool_ok p" and "threads p = Block ts" and "\<forall>tid \<in> set ts. askable kill tid"
  shows "\<exists>tid'' p'. adjust_create kill rs 0 0 tid' p =
    Inr (min 10 (min (nat (max_thr_num p - live_thr_num p))
                     (length (filter (free_slot kill) ts))), tid'', p') \<and>
    live_thr_num p' = live_thr_num p + int (min 10 (min (nat (max_thr_num p - live_thr_num p))
                     (length (filter (free_slot kill) ts)))) \<and>
    tq_contents p' = tq_contents p"
proof -
  from assms have "int (length ts) = max_thr_num p" "0 \<le> max_thr_num p" "max_thr_num p \<le> int_max"
    "0 \<le> live_thr_num p" by (auto simp: pool_ok_def)
  with adjust_create_count [OF assms(2), of 0 0 kill rs tid'] assms(3)
    adjust_create_ok [OF assms(1), of 0 kill 0 tid' rs]
  show ?thesis
    by (auto simp: DEFAULT_THREAD_VARY_def count_where_def same_crew_def grow_result_def)
qed

theorem adjust_create_exact_witness:
  "\<exists>tid'' p'. adjust_create (\<lambda>tid. Inr 0) [] 0 0 2 small_pool = Inr (1, tid'', p')"
  using adjust_create_exact [of small_pool "[1, 0]" "\<lambda>tid. Inr 0" "[]" 2]
  by (auto simp: small_pool_def fresh_pool_def pool_ok_def tq_ok_def int_range_defs free_slot_def
      askable_def slot_free_def is_thread_alive_def ESRCH_def)

text \<open>a worker woken while an exit request is pending retires without looking at the queue: the
  wake-up that \<open>threadpool_add\<close> sent for its task is used up and the task stays in the queue.\<close>

theorem exit_request_swallows_wakeup:
  assumes "tp_inv s" and "tp_pool s = Some p"
    and "j < length (workers s)" and "workers s ! j = WWoken"
    and "0 < wait_exit_thr_num p" and "min_thr_num p < live_thr_num p"
  shows "\<exists>s' p'. tp_exec (WResume j) s = Some s' \<and> tp_pool s' = Some p' \<and>
    workers s' = (workers s)[j := WRetired] \<and> tq_contents p' = tq_contents p \<and>
    live_thr_num p' = live_thr_num p - 1"
proof -
  from assms(1) have "fault s = None" by (rule tp_invE)
  with assms show ?thesis
    by (simp add: tp_exec_def worker_effect_def with_pool_def worker_woken_def)
qed

text \<open>Two workers; the first one was woken for the task in the queue while one exit is pending.\<close>

definition woken_state :: tp_sys where
  "woken_state = \<lparr>tp_pool = Some (small_pool\<lparr>task_queue := Block [tk 1, tk 9],
        live_thr_num := 2, wait_exit_thr_num := 1, queue_rear := 1, queue_size := 1\<rparr>),
     workers = [WWoken, WWait], detached = 1, unborn = 0, producers = [], adjuster = ATop, destroyer = DNone,
     fault = None, accepted = [tk 1], started = [], finished = [], dropped = []\<rparr>"

theorem exit_request_swallows_wakeup_witness:
  "\<exists>s' p'. tp_exec (WResume 0) woken_state = Some s' \<and> tp_pool s' = Some p' \<and>
    workers s' = [WRetired, WWait] \<and> tq_contents p' = [tk 1]"
proof -
  have "tp_inv woken_state"
    by (simp add: woken_state_def tp_inv_def small_pool_def fresh_pool_def pool_ok_def tq_ok_def
        crew_ok_def ledger_ok_def tq_contents_def ring_def in_flight_def int_range_defs)
  from exit_request_swallows_wakeup [OF this, of _ 0] obtain s' p' where
    "tp_exec (WResume 0) woken_state = Some s'" "tp_pool s' = Some p'"
    "workers s' = [WRetired, WWait]" "tq_contents p' = [tk 1]"
    by (auto simp: woken_state_def small_pool_def fresh_pool_def tq_contents_def ring_def)
  then show ?thesis by blast
qed







text \<open>and \<open>threadpool_destroy\<close> does cause it: it frees the pool without waiting for the detached
  workers, so the next step of any worker that still exists is a use after free.\<close>

theorem threadpool_destroy_races:
  assumes "tp_inv s" and "destroyer s = DNone"
    and "j < length (workers s)" and "workers s ! j \<noteq> WRetired" and "workers s ! j \<noteq> WStopped"
  shows "\<exists>s'. tp_run [DestroyFlag, DestroyWake, DestroyFree, next_access j (workers s ! j)] s
      = Some s' \<and> fault s' = Some UseAfterFree"
proof -
  from assms(1) obtain p where p: "tp_pool s = Some p" "fault s = None" "pool_ok p"
    "crew_ok p (unborn s) (workers s)" by (rule tp_invE)
  let ?q = "p\<lparr>shutdown := True\<rparr>"
  have "0 < live_thr_num p"
    using p(4) count_where_pos [OF assms(3), of "\<lambda>w. w \<noteq> WRetired"] assms(4)
    by (simp add: crew_ok_def)
  moreover have "threadpool_free (Some ?q) = Inr 0"
    using p(3) by (intro pool_ok_free) (simp add: pool_ok_def)
  moreover let ?s = "s\<lparr>workers := map wake_worker (workers s), tp_pool := None, destroyer := DDone\<rparr>"
  have "tp_event_exec (next_access j (workers s ! j)) ?s = Some (?s\<lparr>fault := Some UseAfterFree\<rparr>)"
    using assms by (intro access_after_free) simp_all
  ultimately show ?thesis
    using p assms(2) by (simp add: tp_exec_def with_pool_def)
qed

theorem threadpool_destroy_races_witness:
  "\<exists>s'. tp_run [DestroyFlag, DestroyWake, DestroyFree, WEnd 0] small_state = Some s' \<and>
    fault s' = Some UseAfterFree"
proof -
  have "tp_inv small_state"
    by (rule tp_reachable_running [OF small_reachable created_inv [OF small_ok small_created]])
      (simp_all add: small_state_def)
  from threadpool_destroy_races [OF this, of 0] show ?thesis by (simp add: small_state_def)
qed

end
