(* ===== verification/ThreadPoolSimple.thy ===== *)
theory ThreadPoolSimple
  imports Task_Queue
begin

text \<open>
  \<open>thread/threadpoolsimple.c\<close>: a pool of fixed size whose tasks are numbered by the global
  \<open>beginnum\<close>. As in the other pool a region under the lock is one step, but here \<open>addtask\<close> signals
  after it has released the lock, so the signal is a step of its own. A task carries a pointer to
  itself; the worker copies the task and redirects the pointer to its copy, and \<open>taskRun\<close> reads the
  number through that pointer.
\<close>

section \<open>Data\<close>

text \<open>What \<open>arg\<close> points to: nothing sensible, a slot of the shared array, or the worker's own copy.\<close>

datatype parg = ArgJunk | ArgSlot nat | ArgOwn

record ptask =
  tasknum :: int
  parg :: parg
  task_func :: nat

definition TASK_RUN :: nat where "TASK_RUN = 1"

record spool =
  max_job_num :: int
  job_num :: int
  tasks :: "ptask list"
  job_push :: int
  job_pop :: int
  thr_num :: int
  thr_ids :: "nat list"
  stopping :: bool

section \<open>Creation\<close>

text \<open>No \<open>malloc\<close> is checked: which of the three succeed is the environment's answer.\<close>

record screate_env =
  spool_mem :: bool
  tasks_mem :: bool
  ids_mem :: bool
  junk_ptask :: ptask

text \<open>A pool with the task array missing is what a failed second \<open>malloc\<close> leaves: an empty array.\<close>

definition create_threadpool :: "screate_env \<Rightarrow> int \<Rightarrow> int \<Rightarrow> spool res" where
  "create_threadpool e thrnum maxtasknum =
     (if \<not> spool_mem e then Inl NullDeref
      else if \<not> ids_mem e \<and> 0 < thrnum then Inl NullDeref
      else Inr \<lparr>max_job_num = maxtasknum, job_num = 0,
                tasks = (if tasks_mem e then replicate (nat maxtasknum) (junk_ptask e) else []),
                job_push = 0, job_pop = 0, thr_num = thrnum,
                thr_ids = map Suc [0..<nat thrnum], stopping = False\<rparr>)"

section \<open>The task ring\<close>

text \<open>Positions only grow; the slot is the position modulo the capacity.\<close>

definition sp_put :: "int \<Rightarrow> spool \<Rightarrow> spool res" where
  "sp_put n p =
     bindR (c_mod (job_push p) (max_job_num p)) (\<lambda>taskpos.
     bindR (c_add (job_push p) 1) (\<lambda>push.
     bindR (arr_set (tasks p) taskpos
              \<lparr>tasknum = n, parg = ArgSlot (nat taskpos), task_func = TASK_RUN\<rparr>) (\<lambda>ts.
     bindR (c_add (job_num p) 1) (\<lambda>k.
       Inr (p\<lparr>job_push := push, tasks := ts, job_num := k\<rparr>)))))"

definition sp_get :: "spool \<Rightarrow> (ptask \<times> spool) res" where
  "sp_get p =
     bindR (c_mod (job_pop p) (max_job_num p)) (\<lambda>taskpos.
     bindR (c_add (job_pop p) 1) (\<lambda>pop.
     bindR (arr_get (tasks p) taskpos) (\<lambda>t.
     bindR (c_sub (job_num p) 1) (\<lambda>k.
       Inr (t\<lparr>parg := ArgOwn\<rparr>, p\<lparr>job_pop := pop, job_num := k\<rparr>)))))"

section \<open>Critical sections\<close>

datatype sadd_out = SBlocks | SAdded spool int

text \<open>\<open>addtask\<close> while it holds the lock; the second result is the new \<open>beginnum\<close>.\<close>

definition addtask :: "int \<Rightarrow> spool \<Rightarrow> sadd_out res" where
  "addtask beginnum p =
     (if max_job_num p \<le> job_num p then Inr SBlocks
      else bindR (c_add beginnum 1) (\<lambda>b. bindR (sp_put beginnum p) (\<lambda>p'. Inr (SAdded p' b))))"

text \<open>
  The worker's section: it waits, or it takes a task if there is one and then looks at \<open>shutdown\<close>:
  a task taken at that moment is given up with the worker's copy.
\<close>

datatype strun = SWaits | SExits "ptask option" spool | STakes ptask spool

definition thr_section :: "spool \<Rightarrow> strun res" where
  "thr_section p =
     (if job_num p \<le> 0 \<and> \<not> stopping p then Inr SWaits
      else if job_num p \<noteq> 0
      then bindR (sp_get p) (\<lambda>(t, p'). Inr (if stopping p' then SExits (Some t) p' else STakes t p'))
      else Inr (SExits None p))"

text \<open>\<open>taskRun\<close> reads the number of the task its argument points to.\<close>

definition taskRun :: "ptask \<Rightarrow> spool option \<Rightarrow> int res" where
  "taskRun t pl =
     (case parg t of
        ArgJunk \<Rightarrow> Inl Uninitialised
      | ArgSlot k \<Rightarrow> (case pl of None \<Rightarrow> Inl UseAfterFree
                    | Some p \<Rightarrow> bindR (arr_get (tasks p) (int k)) (\<lambda>s. Inr (tasknum s)))
      | ArgOwn \<Rightarrow> Inr (tasknum t))"

section \<open>The system\<close>

datatype swpc = SLoop | SWait | SWoken | SHold ptask | SRun int | SGone

datatype sppc = SPIdle | SPWait | SPWoken | SPSignal

datatype sdpc = SDNone | SDFlagged | SDBroadcast | SDDone

text \<open>
  \<open>added\<close>, \<open>taken\<close>, \<open>ran\<close> and \<open>given_up\<close> record the numbers of the tasks entered, removed from the
  ring, seen by \<open>taskRun\<close>, and removed by a worker that then exits.
\<close>

record sp_sys =
  thrPool :: "spool option"
  beginnum :: int
  swork :: "swpc list"
  sprod :: "sppc list"
  sdest :: sdpc
  sfault :: "c_error option"
  added :: "int list"
  taken :: "int list"
  ran :: "int list"
  given_up :: "int list"

definition sp_init :: "spool \<Rightarrow> nat \<Rightarrow> sp_sys" where
  "sp_init p n = \<lparr>thrPool = Some p, beginnum = 1000, swork = replicate (length (thr_ids p)) SLoop,
     sprod = replicate n SPIdle, sdest = SDNone, sfault = None, added = [], taken = [],
     ran = [], given_up = []\<rparr>"

text \<open>A signal wakes the chosen waiter and is lost when nobody waits.\<close>

definition signal_at :: "'a \<Rightarrow> 'a \<Rightarrow> nat option \<Rightarrow> 'a list \<Rightarrow> 'a list option" where
  "signal_at waits woken k xs =
     (case k of
        None \<Rightarrow> if waits \<in> set xs then None else Some xs
      | Some i \<Rightarrow> if i < length xs \<and> xs ! i = waits then Some (xs[i := woken]) else None)"

definition on_pool :: "sp_sys \<Rightarrow> (spool \<Rightarrow> sp_sys option res) \<Rightarrow> sp_sys option" where
  "on_pool s f =
     (case thrPool s of
        None \<Rightarrow> Some (s\<lparr>sfault := Some UseAfterFree\<rparr>)
      | Some p \<Rightarrow> (case f p of Inl e \<Rightarrow> Some (s\<lparr>sfault := Some e\<rparr>) | Inr r \<Rightarrow> r))"

definition sadd_effect :: "nat \<Rightarrow> sp_sys \<Rightarrow> sp_sys option" where
  "sadd_effect i s =
     on_pool s (\<lambda>p. bindR (addtask (beginnum s) p) (\<lambda>r. Inr (Some (case r of
         SBlocks \<Rightarrow> s\<lparr>sprod := (sprod s)[i := SPWait]\<rparr>
       | SAdded p' b \<Rightarrow> s\<lparr>thrPool := Some p', beginnum := b, sprod := (sprod s)[i := SPSignal],
                          added := added s @ [beginnum s]\<rparr>))))"

definition sthr_effect :: "nat \<Rightarrow> nat option \<Rightarrow> sp_sys \<Rightarrow> sp_sys option" where
  "sthr_effect j k s =
     on_pool s (\<lambda>p. bindR (thr_section p) (\<lambda>r. Inr (case r of
         SWaits \<Rightarrow> Some (s\<lparr>swork := (swork s)[j := SWait]\<rparr>)
       | SExits None p' \<Rightarrow> Some (s\<lparr>swork := (swork s)[j := SGone]\<rparr>)
       | SExits (Some t) p' \<Rightarrow>
           (case signal_at SPWait SPWoken k (sprod s) of
              None \<Rightarrow> None
            | Some ps \<Rightarrow> Some (s\<lparr>thrPool := Some p', swork := (swork s)[j := SGone], sprod := ps,
                                taken := taken s @ [tasknum t],
                                given_up := given_up s @ [tasknum t]\<rparr>))
       | STakes t p' \<Rightarrow>
           (case signal_at SPWait SPWoken k (sprod s) of
              None \<Rightarrow> None
            | Some ps \<Rightarrow> Some (s\<lparr>thrPool := Some p', swork := (swork s)[j := SHold t], sprod := ps,
                                taken := taken s @ [tasknum t]\<rparr>)))))"

text \<open>\<open>pthread_join\<close> of a detached thread does not wait (it fails with EINVAL), so the pool is freed
  after the broadcast whatever the workers do.\<close>

datatype sp_event =
    SAdd nat
  | SAddAgain nat
  | SAddSpurious nat
  | SSignal nat "nat option"
  | SSection nat "nat option"
  | SSpurious nat
  | SCall nat
  | SReturn nat
  | SFlag
  | SBroadcast
  | SFree

fun sp_event_exec :: "sp_event \<Rightarrow> sp_sys \<Rightarrow> sp_sys option" where
  "sp_event_exec (SAdd i) s =
     (if i < length (sprod s) \<and> sprod s ! i = SPIdle then sadd_effect i s else None)"
| "sp_event_exec (SAddAgain i) s =
     (if i < length (sprod s) \<and> sprod s ! i = SPWoken then sadd_effect i s else None)"
| "sp_event_exec (SAddSpurious i) s =
     (if i < length (sprod s) \<and> sprod s ! i = SPWait
      then Some (s\<lparr>sprod := (sprod s)[i := SPWoken]\<rparr>) else None)"
| "sp_event_exec (SSignal i k) s =
     (if i < length (sprod s) \<and> sprod s ! i = SPSignal
      then on_pool s (\<lambda>p. Inr (case signal_at SWait SWoken k (swork s) of
             None \<Rightarrow> None
           | Some ws \<Rightarrow> Some (s\<lparr>swork := ws, sprod := (sprod s)[i := SPIdle]\<rparr>)))
      else None)"
| "sp_event_exec (SSection j k) s =
     (if j < length (swork s) \<and> (swork s ! j = SLoop \<or> swork s ! j = SWoken)
      then sthr_effect j k s else None)"
| "sp_event_exec (SSpurious j) s =
     (if j < length (swork s) \<and> swork s ! j = SWait
      then Some (s\<lparr>swork := (swork s)[j := SWoken]\<rparr>) else None)"
| "sp_event_exec (SCall j) s =
     (if j < length (swork s)
      then (case swork s ! j of
              SHold t \<Rightarrow>
                (case (if task_func t = TASK_RUN then taskRun t (thrPool s) else Inl Uninitialised) of
                   Inl e \<Rightarrow> Some (s\<lparr>sfault := Some e\<rparr>)
                 | Inr n \<Rightarrow> Some (s\<lparr>swork := (swork s)[j := SRun n], ran := ran s @ [n]\<rparr>))
            | _ \<Rightarrow> None) else None)"
| "sp_event_exec (SReturn j) s =
     (if j < length (swork s)
      then (case swork s ! j of
              SRun n \<Rightarrow> Some (s\<lparr>swork := (swork s)[j := SLoop]\<rparr>)
            | _ \<Rightarrow> None) else None)"
| "sp_event_exec SFlag s =
     (if sdest s = SDNone
      then on_pool s (\<lambda>p. Inr (Some (s\<lparr>thrPool := Some (p\<lparr>stopping := True\<rparr>), sdest := SDFlagged\<rparr>)))
      else None)"
| "sp_event_exec SBroadcast s =
     (if sdest s = SDFlagged
      then on_pool s (\<lambda>p. Inr (Some (s\<lparr>swork := map (\<lambda>w. if w = SWait then SWoken else w) (swork s),
                                      sdest := SDBroadcast\<rparr>)))
      else None)"
| "sp_event_exec SFree s =
     (if sdest s = SDBroadcast
      then on_pool s (\<lambda>p. Inr (Some (s\<lparr>thrPool := None, sdest := SDDone\<rparr>)))
      else None)"

definition sp_exec :: "sp_event \<Rightarrow> sp_sys \<Rightarrow> sp_sys option" where
  "sp_exec e s = (if sfault s = None then sp_event_exec e s else None)"

fun sp_run :: "sp_event list \<Rightarrow> sp_sys \<Rightarrow> sp_sys option" where
  "sp_run [] s = Some s"
| "sp_run (e # es) s = (case sp_exec e s of None \<Rightarrow> None | Some s' \<Rightarrow> sp_run es s')"

inductive sp_reachable :: "sp_sys \<Rightarrow> sp_sys \<Rightarrow> bool" for s0 where
  sp_start: "sp_reachable s0 s0"
| sp_more: "sp_reachable s0 s \<Longrightarrow> sp_exec e s = Some s' \<Longrightarrow> sp_reachable s0 s'"

lemma sp_run_reachable: "sp_reachable s0 s \<Longrightarrow> sp_run es s = Some s' \<Longrightarrow> sp_reachable s0 s'"
proof (induction es arbitrary: s)
  case (Cons e es)
  from Cons.prems(2) obtain s1 where "sp_exec e s = Some s1" "sp_run es s1 = Some s'"
    by (auto split: option.splits)
  with Cons show ?case by (blast intro: sp_more)
qed simp

end
