(* ===== verification/ThreadPoolSimple_Correct.thy ===== *)
theory ThreadPoolSimple_Correct
  imports ThreadPoolSimple "HOL-Library.Multiset"
begin

text \<open>
  Why \<open>thread/threadpoolsimple.c\<close> works while its pool exists: the ring provides the interface of
  \<open>Task_Queue\<close>, tasks are numbered without gaps, and each is run once under its own number.
\<close>

section \<open>The ring is a bounded FIFO\<close>

definition sp_jobs :: "spool \<Rightarrow> ptask list" where
  "sp_jobs p = ring (tasks p) (nat (job_pop p)) (nat (job_num p))"

definition sp_nums :: "spool \<Rightarrow> int list" where
  "sp_nums p = map tasknum (sp_jobs p)"

definition sp_ok :: "spool \<Rightarrow> bool" where
  "sp_ok p \<longleftrightarrow>
     0 < max_job_num p \<and> max_job_num p \<le> int_max \<and> int (length (tasks p)) = max_job_num p \<and>
     0 \<le> job_pop p \<and> job_pop p + job_num p = job_push p \<and> job_push p \<le> int_max \<and>
     0 \<le> job_num p \<and> job_num p \<le> max_job_num p \<and>
     (\<forall>t \<in> set (sp_jobs p). task_func t = TASK_RUN)"

text \<open>Only the queue changed.\<close>

definition same_pool :: "spool \<Rightarrow> spool \<Rightarrow> bool" where
  "same_pool p p' \<longleftrightarrow>
     max_job_num p' = max_job_num p \<and> thr_num p' = thr_num p \<and> thr_ids p' = thr_ids p \<and>
     stopping p' = stopping p"

lemma sp_put_ok:
  assumes ok: "sp_ok p" and room: "job_num p < max_job_num p" "job_push p < int_max"
  shows "\<exists>p'. sp_put n p = Inr p' \<and> sp_ok p' \<and> sp_nums p' = sp_nums p @ [n] \<and>
    job_push p' = job_push p + 1 \<and> same_pool p p'"
proof -
  let ?m = "max_job_num p"
  have b: "0 < ?m" "?m \<le> int_max" "int (length (tasks p)) = ?m" "0 \<le> job_pop p"
    "job_pop p + job_num p = job_push p" "0 \<le> job_num p"
    using ok by (simp_all add: sp_ok_def)
  have L: "length (tasks p) = nat ?m" using b(3) by simp
  let ?pos = "job_push p mod ?m"
  let ?t = "\<lparr>tasknum = n, parg = ArgSlot (nat ?pos), task_func = TASK_RUN\<rparr>"
  let ?p' = "p\<lparr>job_push := job_push p + 1, tasks := (tasks p)[nat ?pos := ?t],
    job_num := job_num p + 1\<rparr>"
  have push: "0 \<le> job_push p" using b by simp
  have put: "sp_put n p = Inr ?p'"
    using b room push
    by (simp add: sp_put_def c_mod_nonneg c_add_def int_range_defs nat_less_iff L arr_set_def)
  have "nat (job_push p) = nat (job_pop p) + nat (job_num p)" using b by (simp flip: nat_add_distrib)
  then have pos: "nat ?pos = (nat (job_pop p) + nat (job_num p)) mod length (tasks p)"
    using b push by (simp add: nat_mod_distrib L)
  have "nat (job_num p + 1) = Suc (nat (job_num p))" using b by simp
  moreover have "nat (job_num p) < length (tasks p)" using b room by (simp add: L)
  ultimately have jobs: "sp_jobs ?p' = sp_jobs p @ [?t]"
    using ring_put [of "nat (job_num p)" "tasks p" "nat (job_pop p)" ?t]
    by (simp add: sp_jobs_def pos)
  have "sp_ok ?p'"
    using ok room jobs unfolding sp_ok_def jobs by simp
  then show ?thesis using put jobs by (simp add: sp_nums_def same_pool_def)
qed

lemma sp_get_ok:
  assumes ok: "sp_ok p" and some: "0 < job_num p"
  shows "\<exists>t p'. sp_get p = Inr (t, p') \<and> sp_ok p' \<and> sp_nums p = tasknum t # sp_nums p' \<and>
    task_func t = TASK_RUN \<and> parg t = ArgOwn \<and> job_push p' = job_push p \<and> same_pool p p'"
proof -
  let ?m = "max_job_num p"
  have b: "0 < ?m" "?m \<le> int_max" "int (length (tasks p)) = ?m" "0 \<le> job_pop p"
    "job_pop p + job_num p = job_push p" "job_push p \<le> int_max" "job_num p \<le> ?m"
    using ok by (simp_all add: sp_ok_def)
  have L: "length (tasks p) = nat ?m" using b(3) by simp
  let ?t = "tasks p ! nat (job_pop p mod ?m)"
  let ?p' = "p\<lparr>job_pop := job_pop p + 1, job_num := job_num p - 1\<rparr>"
  have get: "sp_get p = Inr (?t\<lparr>parg := ArgOwn\<rparr>, ?p')"
    using b some
    by (simp add: sp_get_def c_mod_nonneg c_add_def c_sub_def int_range_defs arr_get_def)
  have "nat (job_num p) = Suc (nat (job_num p - 1))" using some by simp
  moreover have "nat (job_pop p + 1) = Suc (nat (job_pop p))" using b by simp
  moreover have "nat (job_pop p mod ?m) = nat (job_pop p) mod length (tasks p)"
    using b by (simp add: nat_mod_distrib L)
  ultimately have jobs: "sp_jobs p = ?t # sp_jobs ?p'"
    by (simp add: sp_jobs_def ring_get)
  have "sp_ok ?p'" using ok some jobs unfolding sp_ok_def by simp
  moreover have "task_func ?t = TASK_RUN" using ok jobs by (simp add: sp_ok_def)
  ultimately show ?thesis using get jobs by (simp add: sp_nums_def same_pool_def)
qed

lemma length_sp_nums [simp]: "length (sp_nums p) = nat (job_num p)"
  by (simp add: sp_nums_def sp_jobs_def)

interpretation sq: bounded_fifo sp_put "\<lambda>p. bindR (sp_get p) (\<lambda>(t, p'). Inr (tasknum t, p'))"
  "\<lambda>p. job_num p < max_job_num p \<and> job_push p < int_max" "\<lambda>p. 0 < job_num p"
  sp_nums "\<lambda>p. nat (max_job_num p)" sp_ok
proof
  fix p :: spool and n
  assume "sp_ok p" and "job_num p < max_job_num p \<and> job_push p < int_max"
  with sp_put_ok [of p n] show "\<exists>q'. sp_put n p = Inr q' \<and> sp_ok q' \<and>
      sp_nums q' = sp_nums p @ [n] \<and> nat (max_job_num q') = nat (max_job_num p)"
    by (auto simp: same_pool_def)
next
  fix p :: spool
  assume "sp_ok p" and "0 < job_num p"
  from sp_get_ok [OF this] obtain t p' where "sp_get p = Inr (t, p')" "sp_ok p'"
    "sp_nums p = tasknum t # sp_nums p'" "max_job_num p' = max_job_num p"
    by (auto simp: same_pool_def)
  then show "\<exists>t q'. bindR (sp_get p) (\<lambda>(t, p'). Inr (tasknum t, p')) = Inr (t, q') \<and> sp_ok q' \<and>
      sp_nums p = t # sp_nums q' \<and> nat (max_job_num q') = nat (max_job_num p)"
    by simp
next
  fix p :: spool
  assume "sp_ok p"
  then show "length (sp_nums p) \<le> nat (max_job_num p)" by (simp add: sp_ok_def nat_mono)
qed


section \<open>The invariant of the system\<close>

fun carried :: "swpc \<Rightarrow> int multiset" where
  "carried (SHold t) = {#tasknum t#}"
| "carried _ = {#}"

definition carried_all :: "swpc list \<Rightarrow> int multiset" where
  "carried_all ws = sum_list (map carried ws)"

text \<open>A worker holds its own copy of a task that came from \<open>addtask\<close>.\<close>

fun copy_ok :: "swpc \<Rightarrow> bool" where
  "copy_ok (SHold t) \<longleftrightarrow> task_func t = TASK_RUN \<and> parg t = ArgOwn"
| "copy_ok _ \<longleftrightarrow> True"

definition copies_ok :: "swpc list \<Rightarrow> bool" where
  "copies_ok ws \<longleftrightarrow> list_all copy_ok ws"

definition numbers_ok :: "spool \<Rightarrow> sp_sys \<Rightarrow> bool" where
  "numbers_ok p s \<longleftrightarrow>
     beginnum s = 1000 + job_push p \<and> beginnum s \<le> int_max \<and>
     added s = [1000..999 + job_push p] \<and> taken s @ sp_nums p = [1000..999 + job_push p] \<and>
     mset (taken s) = mset (ran s) + carried_all (swork s) + mset (given_up s) \<and>
     (\<not> stopping p \<longrightarrow> given_up s = [])"

definition sp_inv :: "sp_sys \<Rightarrow> bool" where
  "sp_inv s \<longleftrightarrow>
     sfault s = None \<and> copies_ok (swork s) \<and>
     (case thrPool s of None \<Rightarrow> False | Some p \<Rightarrow> sp_ok p \<and> numbers_ok p s)"

text \<open>
  How a run leaves the invariant: the pool has been freed, or the counter of the task numbers has
  reached the largest \<open>int\<close>.
\<close>

definition sp_over :: "sp_sys \<Rightarrow> bool" where
  "sp_over s \<longleftrightarrow>
     (thrPool s = None \<and> (sfault s = None \<or> sfault s = Some UseAfterFree) \<and>
        copies_ok (swork s)) \<or>
     (sfault s = Some SignedOverflow \<and> beginnum s = int_max)"

lemma sp_invE:
  assumes "sp_inv s"
  obtains p where "thrPool s = Some p" "sfault s = None" "sp_ok p" "copies_ok (swork s)"
    "numbers_ok p s"
  using assms by (cases "thrPool s") (auto simp: sp_inv_def)

lemma copies_ok_update: "copies_ok ws \<Longrightarrow> copy_ok w \<Longrightarrow> copies_ok (ws[j := w])"
  by (auto simp: copies_ok_def list_all_iff dest!: subsetD [OF set_update_subset_insert])

lemma carried_all_update:
  "j < length ws \<Longrightarrow> carried_all (ws[j := w]) + carried (ws ! j) = carried_all ws + carried w"
  unfolding carried_all_def by (rule sum_list_map_update)

lemma carried_all_same:
  "j < length ws \<Longrightarrow> carried (ws ! j) = {#} \<Longrightarrow> carried w = {#} \<Longrightarrow>
   carried_all (ws[j := w]) = carried_all ws"
  using carried_all_update [of j ws w] by simp

definition wake_all :: "swpc list \<Rightarrow> swpc list" where
  "wake_all ws = map (\<lambda>w. if w = SWait then SWoken else w) ws"

lemma wake_all_ok [simp]:
  "copies_ok (wake_all ws) = copies_ok ws" "carried_all (wake_all ws) = carried_all ws"
  by (induction ws) (simp_all add: copies_ok_def carried_all_def wake_all_def)

lemma signal_work:
  assumes "signal_at SWait SWoken k ws = Some ws'"
  shows "(copies_ok ws \<longrightarrow> copies_ok ws') \<and> carried_all ws' = carried_all ws"
proof (cases k)
  case None
  with assms show ?thesis by (auto simp: signal_at_def split: if_splits)
next
  case (Some i)
  with assms have "i < length ws" "ws ! i = SWait" "ws' = ws[i := SWoken]"
    by (auto simp: signal_at_def split: if_splits)
  then show ?thesis by (simp add: copies_ok_update carried_all_same)
qed

lemma numbers_ok_cong:
  "numbers_ok p s \<Longrightarrow> carried_all ws = carried_all (swork s) \<Longrightarrow>
   numbers_ok p (s\<lparr>swork := ws\<rparr>)"
  "numbers_ok p s \<Longrightarrow> numbers_ok p (s\<lparr>sprod := ps\<rparr>)"
  "numbers_ok p s \<Longrightarrow> numbers_ok p (s\<lparr>sdest := d\<rparr>)"
  by (simp_all add: numbers_ok_def)

lemma sp_inv_work:
  "sp_inv s \<Longrightarrow> copies_ok ws \<Longrightarrow> carried_all ws = carried_all (swork s) \<Longrightarrow>
   sp_inv (s\<lparr>swork := ws\<rparr>)"
  by (erule sp_invE) (simp add: sp_inv_def numbers_ok_cong)

lemma sp_inv_other [simp]:
  "sp_inv (s\<lparr>sprod := ps\<rparr>) = sp_inv s" "sp_inv (s\<lparr>sdest := d\<rparr>) = sp_inv s"
  by (simp_all add: sp_inv_def numbers_ok_def split: option.splits)

subsection \<open>Entering a task\<close>

lemma upto_snoc: "i \<le> j + 1 \<Longrightarrow> [i..j + 1] = [i..j] @ [j + 1]" for i j :: int
  by (cases "i \<le> j") (simp_all add: upto_rec2)

lemma sadd_inv:
  assumes inv: "sp_inv s" and ex: "sadd_effect i s = Some s'"
  shows "sp_inv s' \<or> sp_over s'"
proof -
  from inv obtain p where p: "thrPool s = Some p" "sfault s = None" "sp_ok p"
    "copies_ok (swork s)" "numbers_ok p s" by (rule sp_invE)
  from p(5) have b: "beginnum s = 1000 + job_push p" "beginnum s \<le> int_max"
    by (simp_all add: numbers_ok_def)
  consider "max_job_num p \<le> job_num p" | "job_num p < max_job_num p" "beginnum s = int_max"
    | "job_num p < max_job_num p" "beginnum s < int_max" using b(2) by linarith
  then show ?thesis
  proof cases
    case 1
    with ex p inv show ?thesis by (auto simp: sadd_effect_def on_pool_def addtask_def)
  next
    case 2
    then have "c_add (beginnum s) 1 = Inl SignedOverflow"
      by (simp add: c_add_def int_range_defs)
    with 2 ex p show ?thesis
      by (auto simp: sadd_effect_def on_pool_def addtask_def sp_over_def)
  next
    case 3
    have add: "c_add (beginnum s) 1 = Inr (beginnum s + 1)"
      using 3 b p(3) by (simp add: c_add_def int_range_defs sp_ok_def)
    have "job_push p < int_max" using 3 b by simp
    from sp_put_ok [OF p(3) 3(1) this, of "beginnum s"] obtain p' where
      p': "sp_put (beginnum s) p = Inr p'" "sp_ok p'" "sp_nums p' = sp_nums p @ [beginnum s]"
        "job_push p' = job_push p + 1" "same_pool p p'" by blast
    with 3 add ex p have s': "s' = s\<lparr>thrPool := Some p', beginnum := beginnum s + 1,
        sprod := (sprod s)[i := SPSignal], added := added s @ [beginnum s]\<rparr>"
      by (simp add: sadd_effect_def on_pool_def addtask_def)
    have "0 \<le> job_push p" using p(3) by (simp add: sp_ok_def)
    then have "[1000..1000 + job_push p] = [1000..999 + job_push p] @ [1000 + job_push p]"
      using upto_snoc [of 1000 "999 + job_push p"] by (simp add: algebra_simps)
    with p(5) p' b 3 have "numbers_ok p' s'"
      unfolding s' by (simp add: numbers_ok_def same_pool_def algebra_simps)
    with s' p p' show ?thesis by (simp add: sp_inv_def)
  qed
qed


subsection \<open>The workers\<close>

text \<open>The outcomes of a worker's section on a well-formed pool.\<close>

lemma thr_section_cases:
  assumes "sp_ok p"
  obtains "thr_section p = Inr SWaits"
  | "thr_section p = Inr (SExits None p)"
  | t p' where "thr_section p = Inr (if stopping p then SExits (Some t) p' else STakes t p')"
      "sp_ok p'" "sp_nums p = tasknum t # sp_nums p'" "task_func t = TASK_RUN" "parg t = ArgOwn"
      "job_push p' = job_push p" "same_pool p p'"
proof (cases "0 < job_num p")
  case True
  from sp_get_ok [OF assms True] obtain t p' where g: "sp_get p = Inr (t, p')" "sp_ok p'"
    "sp_nums p = tasknum t # sp_nums p'" "task_func t = TASK_RUN" "parg t = ArgOwn"
    "job_push p' = job_push p" "same_pool p p'" by blast
  with True have "thr_section p = Inr (if stopping p then SExits (Some t) p' else STakes t p')"
    by (simp add: thr_section_def same_pool_def)
  with g show thesis by (intro that(3))
next
  case False
  with assms have "job_num p = 0" by (simp add: sp_ok_def)
  then show thesis using that(1,2) by (cases "stopping p") (simp_all add: thr_section_def)
qed

lemma sthr_inv:
  assumes inv: "sp_inv s" and ex: "sthr_effect j k s = Some s'"
    and j: "j < length (swork s)" "carried (swork s ! j) = {#}"
  shows "sp_inv s'"
proof -
  from inv obtain p where p: "thrPool s = Some p" "sfault s = None" "sp_ok p"
    "copies_ok (swork s)" "numbers_ok p s" by (rule sp_invE)
  have quiet: "sp_inv (s\<lparr>swork := (swork s)[j := w]\<rparr>)" if "carried w = {#}" "copy_ok w" for w
    using inv p(4) j that by (intro sp_inv_work) (simp_all add: copies_ok_update carried_all_same)
  from p(3) show ?thesis
  proof (cases rule: thr_section_cases)
    case 1
    with ex p have "s' = s\<lparr>swork := (swork s)[j := SWait]\<rparr>"
      by (simp add: sthr_effect_def on_pool_def)
    with quiet show ?thesis by simp
  next
    case 2
    with ex p have "s' = s\<lparr>swork := (swork s)[j := SGone]\<rparr>"
      by (simp add: sthr_effect_def on_pool_def)
    with quiet show ?thesis by simp
  next
    case t: (3 t p')
    define w where "w = (if stopping p then SGone else SHold t)"
    define lost where "lost = (if stopping p then [tasknum t] else [])"
    from t(1) ex p obtain ps where s': "s' = s\<lparr>thrPool := Some p', swork := (swork s)[j := w],
        sprod := ps, taken := taken s @ [tasknum t], given_up := given_up s @ lost\<rparr>"
      by (cases "stopping p")
        (auto simp: sthr_effect_def on_pool_def w_def lost_def split: option.splits)
    have "copy_ok w" using t by (simp add: w_def)
    moreover have "carried_all ((swork s)[j := w]) + mset lost = add_mset (tasknum t) (carried_all (swork s))"
      using carried_all_update [OF j(1), of w] j(2) by (simp add: w_def lost_def)
    then have "mset (taken s @ [tasknum t]) =
        mset (ran s) + carried_all ((swork s)[j := w]) + mset (given_up s @ lost)"
      using p(5) by (simp add: numbers_ok_def ac_simps)
    ultimately show ?thesis
      using s' p t by (simp add: sp_inv_def numbers_ok_def copies_ok_update same_pool_def lost_def)
  qed
qed

lemma scall_inv:
  assumes inv: "sp_inv s" and ex: "sp_event_exec (SCall j) s = Some s'"
  shows "sp_inv s'"
proof -
  from inv obtain p where p: "thrPool s = Some p" "sfault s = None" "sp_ok p"
    "copies_ok (swork s)" "numbers_ok p s" by (rule sp_invE)
  from ex obtain t where t: "j < length (swork s)" "swork s ! j = SHold t"
    by (auto split: if_splits swpc.splits)
  with p(4) have "copy_ok (SHold t)" unfolding copies_ok_def list_all_length by metis
  with ex t have s': "s' = s\<lparr>swork := (swork s)[j := SRun (tasknum t)], ran := ran s @ [tasknum t]\<rparr>"
    by (simp add: taskRun_def)
  have "carried_all (swork s) = add_mset (tasknum t) (carried_all ((swork s)[j := SRun (tasknum t)]))"
    using carried_all_update [OF t(1), of "SRun (tasknum t)"] t(2) by simp
  with s' p show ?thesis by (simp add: sp_inv_def numbers_ok_def copies_ok_update)
qed

subsection \<open>Every event\<close>

lemma sp_event_inv:
  assumes inv: "sp_inv s" and ex: "sp_event_exec e s = Some s'"
  shows "sp_inv s' \<or> sp_over s'"
proof -
  from inv obtain p where p: "thrPool s = Some p" "sfault s = None" "sp_ok p"
    "copies_ok (swork s)" "numbers_ok p s" by (rule sp_invE)
  have quiet: "sp_inv (s\<lparr>swork := (swork s)[j := w]\<rparr>)"
    if "j < length (swork s)" "carried (swork s ! j) = {#}" "carried w = {#}" "copy_ok w" for j w
    using inv p(4) that by (intro sp_inv_work) (simp_all add: copies_ok_update carried_all_same)
  show ?thesis
  proof (cases e)
    case (SAdd i)
    with ex sadd_inv [OF inv] show ?thesis by (simp split: if_splits)
  next
    case (SAddAgain i)
    with ex sadd_inv [OF inv] show ?thesis by (simp split: if_splits)
  next
    case (SAddSpurious i)
    with ex inv show ?thesis by (auto split: if_splits)
  next
    case (SSignal i k)
    with ex p obtain ws where ws: "signal_at SWait SWoken k (swork s) = Some ws"
      "s' = s\<lparr>swork := ws, sprod := (sprod s)[i := SPIdle]\<rparr>"
      by (auto simp: on_pool_def split: if_splits option.splits)
    from signal_work [OF ws(1)] p(4) inv have "sp_inv (s\<lparr>swork := ws\<rparr>)" by (intro sp_inv_work) simp_all
    with ws(2) sp_inv_other(1) [where s = "s\<lparr>swork := ws\<rparr>"] show ?thesis by simp
  next
    case (SSection j k)
    with ex have "j < length (swork s)" "carried (swork s ! j) = {#}" "sthr_effect j k s = Some s'"
      by (auto split: if_splits)
    with sthr_inv [OF inv] show ?thesis by blast
  next
    case (SSpurious j)
    with ex quiet [of j SWoken] show ?thesis by (auto split: if_splits)
  next
    case (SCall j)
    with ex scall_inv [OF inv] show ?thesis by blast
  next
    case (SReturn j)
    with ex quiet [of j SLoop] show ?thesis by (auto split: if_splits swpc.splits)
  next
    case SFlag
    with ex p have "s' = s\<lparr>thrPool := Some (p\<lparr>stopping := True\<rparr>), sdest := SDFlagged\<rparr>"
      by (simp add: on_pool_def split: if_splits)
    with p show ?thesis
      by (simp add: sp_inv_def numbers_ok_def sp_ok_def sp_nums_def sp_jobs_def)
  next
    case SBroadcast
    with ex p have "s' = s\<lparr>swork := wake_all (swork s), sdest := SDBroadcast\<rparr>"
      by (simp add: on_pool_def wake_all_def split: if_splits)
    moreover have "sp_inv (s\<lparr>swork := wake_all (swork s)\<rparr>)"
      using inv p(4) by (intro sp_inv_work) simp_all
    ultimately show ?thesis using sp_inv_other(2) [where s = "s\<lparr>swork := wake_all (swork s)\<rparr>"] by simp
  next
    case SFree
    with ex p have "s' = s\<lparr>thrPool := None, sdest := SDDone\<rparr>"
      by (simp add: on_pool_def split: if_splits)
    with p show ?thesis by (simp add: sp_over_def)
  qed
qed

text \<open>After the pool is gone, a worker can still finish its copy, but every lock is a fault.\<close>

lemma on_pool_over:
  "sp_over s \<Longrightarrow> sfault s = None \<Longrightarrow> on_pool s f = Some s' \<Longrightarrow> sp_over s'"
  by (auto simp: on_pool_def sp_over_def)

lemma sp_over_free [simp]:
  "thrPool s = None \<Longrightarrow> sfault s = None \<Longrightarrow> sp_over s = copies_ok (swork s)"
  by (simp add: sp_over_def)

lemma sp_event_over:
  assumes over: "sp_over s" and run: "sfault s = None" and ex: "sp_event_exec e s = Some s'"
  shows "sp_over s'"
proof -
  from over run have gone: "thrPool s = None" "copies_ok (swork s)" by (auto simp: sp_over_def)
  note effects = sadd_effect_def sthr_effect_def
  show ?thesis
  proof (cases e)
    case (SCall j)
    with ex obtain t where t: "j < length (swork s)" "swork s ! j = SHold t"
      by (auto split: if_splits swpc.splits)
    with gone have "copy_ok (SHold t)" unfolding copies_ok_def list_all_length by metis
    with ex t SCall gone run show ?thesis by (auto simp: taskRun_def copies_ok_update)
  qed (use ex gone run on_pool_over [OF over run] in
    \<open>auto simp: effects copies_ok_update split: if_splits swpc.splits\<close>)
qed

theorem sp_reachable_inv:
  "sp_reachable s0 s \<Longrightarrow> sp_inv s0 \<Longrightarrow> sp_inv s \<or> sp_over s"
proof (induction rule: sp_reachable.induct)
  case (sp_more s e s')
  then have "sfault s = None" "sp_event_exec e s = Some s'" by (auto simp: sp_exec_def split: if_splits)
  with sp_more sp_event_inv sp_event_over show ?case by blast
qed simp

end
