(* ===== verification/ThreadPoolSimple_Props.thy ===== *)
theory ThreadPoolSimple_Props
  imports ThreadPoolSimple_Correct
begin

text \<open>
  The promises of \<open>thread/threadpoolsimple.c\<close> for every interleaving, and its two weak points: what
  destruction does to queued tasks and to the memory.
\<close>

section \<open>Creation\<close>

definition senv_ok :: "screate_env \<Rightarrow> bool" where
  "senv_ok e \<longleftrightarrow> spool_mem e \<and> tasks_mem e \<and> ids_mem e"

lemma screate_inv:
  assumes "create_threadpool e n m = Inr p" and "senv_ok e" and "0 < m" and "m \<le> int_max"
  shows "sp_inv (sp_init p k)"
proof -
  have "copies_ok (replicate i SLoop)" "carried_all (replicate i SLoop) = {#}" for i
    by (induction i) (simp_all add: copies_ok_def carried_all_def)
  with assms show ?thesis
    by (auto simp: create_threadpool_def senv_ok_def sp_init_def sp_inv_def numbers_ok_def
        sp_ok_def sp_nums_def sp_jobs_def int_range_defs)
qed

section \<open>A small pool\<close>

definition well :: screate_env where
  "well = \<lparr>spool_mem = True, tasks_mem = True, ids_mem = True,
           junk_ptask = \<lparr>tasknum = 7, parg = ArgJunk, task_func = 0\<rparr>\<rparr>"

definition tiny_pool :: spool where
  "tiny_pool = \<lparr>max_job_num = 2, job_num = 0, tasks = [junk_ptask well, junk_ptask well],
     job_push = 0, job_pop = 0, thr_num = 1, thr_ids = [1], stopping = False\<rparr>"

lemma well_ok: "senv_ok well"
  by (simp add: senv_ok_def well_def)

lemma tiny_created: "create_threadpool well 1 2 = Inr tiny_pool"
  by (simp add: create_threadpool_def tiny_pool_def well_def numeral_2_eq_2)

lemma tiny_bounds: "0 < (2::int)" "(2::int) \<le> int_max"
  by (simp_all add: int_range_defs)

lemmas tiny_defs = sp_exec_def sadd_effect_def sthr_effect_def on_pool_def addtask_def
  thr_section_def sp_put_def sp_get_def taskRun_def signal_at_def arr_get_def arr_set_def
  c_add_def c_sub_def c_mod_def int_range_defs sp_init_def tiny_pool_def well_def TASK_RUN_def

text \<open>
  Three tasks enter a ring of two slots: the third overwrites the slot of the first while the
  worker is about to run its copy of the first.
\<close>

definition tiny_events :: "sp_event list" where
  "tiny_events = [SSection 0 None, SAdd 0, SSignal 0 (Some 0), SAdd 0, SSignal 0 None,
     SSection 0 None, SAdd 0, SSignal 0 None, SCall 0]"

definition tiny_state :: sp_sys where
  "tiny_state = \<lparr>thrPool = Some (tiny_pool\<lparr>job_num := 2, tasks :=
        [\<lparr>tasknum = 1002, parg = ArgSlot 0, task_func = 1\<rparr>,
         \<lparr>tasknum = 1001, parg = ArgSlot 1, task_func = 1\<rparr>], job_push := 3, job_pop := 1\<rparr>),
     beginnum = 1003, swork = [SRun 1000], sprod = [SPIdle], sdest = SDNone, sfault = None,
     added = [1000, 1001, 1002], taken = [1000], ran = [1000], given_up = []\<rparr>"

lemma tiny_run: "sp_run tiny_events (sp_init tiny_pool 1) = Some tiny_state"
  by (simp add: tiny_events_def tiny_state_def tiny_defs numeral_2_eq_2)

lemma tiny_reachable: "sp_reachable (sp_init tiny_pool 1) tiny_state"
  by (rule sp_run_reachable [OF sp_start tiny_run])

section \<open>Properties\<close>

text \<open>the ring of the simple pool, whose positions are never reduced, still delivers the task
  numbers in the order of \<open>addtask\<close>, for any mix of insertions and removals.\<close>

theorem simple_ring_fifo:
  assumes "sp_ok p"
  shows "\<exists>acc del p'. fifo_run sp_put (\<lambda>p. bindR (sp_get p) (\<lambda>(t, p'). Inr (tasknum t, p')))
      (\<lambda>p. job_num p < max_job_num p \<and> job_push p < int_max) (\<lambda>p. 0 < job_num p) ops p
      = Inr (acc, del, p') \<and> sp_ok p' \<and> sp_nums p @ acc = del @ sp_nums p'"
  using sq.run_order [OF assms] by blast

theorem simple_ring_fifo_witness:
  "\<exists>acc del p'. fifo_run sp_put (\<lambda>p. bindR (sp_get p) (\<lambda>(t, p'). Inr (tasknum t, p')))
      (\<lambda>p. job_num p < max_job_num p \<and> job_push p < int_max) (\<lambda>p. 0 < job_num p)
      [Put 4, Get] tiny_pool = Inr (acc, del, p') \<and> acc = del @ sp_nums p'"
proof -
  have "sp_ok tiny_pool" "sp_nums tiny_pool = []"
    by (simp_all add: tiny_pool_def sp_ok_def sp_nums_def sp_jobs_def int_range_defs)
  from simple_ring_fifo [OF this(1), of "[Put 4, Get]"] this(2)
  show ?thesis by (simp only: append_Nil) blast
qed

text \<open>C17: in every reachable state of an existing pool without overflow, \<open>addtask\<close> has numbered the
  tasks 1000, 1001, ... without gaps, and the workers have taken them in this order: the numbers
  taken followed by those in the ring are all numbers given out, at most \<open>max_job_num\<close> of them
  waiting.\<close>

theorem simple_tasks_numbered:
  assumes "create_threadpool e n m = Inr p0" and "senv_ok e" and "0 < m" and "m \<le> int_max"
    and "sp_reachable (sp_init p0 k) s" and "thrPool s = Some p" and "sfault s = None"
  shows "added s = [1000..999 + job_push p] \<and> added s = taken s @ sp_nums p \<and>
    length (sp_nums p) \<le> nat (max_job_num p)"
proof -
  from sp_reachable_inv [OF assms(5) screate_inv [OF assms(1-4)]] assms(6,7)
  have "sp_ok p" "numbers_ok p s" by (auto simp: sp_inv_def sp_over_def)
  with sq.bounded show ?thesis by (simp add: numbers_ok_def)
qed

theorem simple_tasks_numbered_witness:
  "\<exists>p. thrPool tiny_state = Some p \<and> [1000, 1001, 1002] = [1000] @ sp_nums p"
  using simple_tasks_numbered [OF tiny_created well_ok tiny_bounds tiny_reachable]
  by (simp add: tiny_state_def)

text \<open>C16: every task runs under its own number and at most once: the numbers that \<open>taskRun\<close> reads
  are, with those of the copies workers hold and of the copies given up, exactly the numbers
  taken. Overwriting a slot never changes a task that a worker has copied.\<close>

theorem simple_runs_once:
  assumes "create_threadpool e n m = Inr p0" and "senv_ok e" and "0 < m" and "m \<le> int_max"
    and "sp_reachable (sp_init p0 k) s" and "thrPool s = Some p" and "sfault s = None"
  shows "mset (taken s) = mset (ran s) + carried_all (swork s) + mset (given_up s) \<and>
    distinct (ran s @ given_up s) \<and> set (ran s) \<subseteq> {1000..<1000 + job_push p} \<and>
    (\<not> stopping p \<longrightarrow> given_up s = [])"
proof -
  from sp_reachable_inv [OF assms(5) screate_inv [OF assms(1-4)]] assms(6,7)
  have n: "mset (taken s) = mset (ran s) + carried_all (swork s) + mset (given_up s)"
    "\<not> stopping p \<longrightarrow> given_up s = []" "taken s @ sp_nums p = [1000..999 + job_push p]"
    by (auto simp: sp_inv_def sp_over_def numbers_ok_def)
  from n(3) have d: "distinct (taken s)" "set (taken s) \<subseteq> {1000..999 + job_push p}"
    by (metis distinct_append distinct_upto, metis Un_upper1 set_append set_upto)
  obtain rest where "mset rest = carried_all (swork s)" by (metis ex_mset)
  with n(1) have "mset (taken s) = mset ((ran s @ given_up s) @ rest)" by (simp add: ac_simps)
  then have "distinct ((ran s @ given_up s) @ rest)" "set (taken s) = set ((ran s @ given_up s) @ rest)"
    using d(1) by (metis mset_eq_imp_distinct_iff, metis mset_eq_setD)
  with n d show ?thesis by auto
qed

theorem simple_runs_once_witness:
  "\<exists>p. thrPool tiny_state = Some p \<and> set [1000] \<subseteq> {1000..<1000 + job_push p} \<and>
    {#1000#} = mset (ran tiny_state) + carried_all (swork tiny_state) + mset (given_up tiny_state)"
  using simple_runs_once [OF tiny_created well_ok tiny_bounds tiny_reachable]
  by (simp add: tiny_state_def)

text \<open>a worker that takes a task after \<open>destroy_threadpool\<close> has set \<open>shutdown\<close> exits with it: the
  oldest queued task is removed and never run.\<close>

theorem simple_shutdown_drops_task:
  assumes "sp_ok p" and "0 < job_num p" and "stopping p"
  shows "\<exists>t p'. thr_section p = Inr (SExits (Some t) p') \<and>
    sp_nums p = tasknum t # sp_nums p' \<and> job_num p' = job_num p - 1"
proof -
  from sp_get_ok [OF assms(1,2)] obtain t p' where g: "sp_get p = Inr (t, p')" "sp_ok p'"
    "sp_nums p = tasknum t # sp_nums p'" "same_pool p p'" by blast
  then have "length (sp_nums p) = Suc (length (sp_nums p'))" by simp
  moreover have "0 \<le> job_num p'" using g(2) by (simp add: sp_ok_def)
  ultimately have "job_num p' = job_num p - 1" using assms(2) by simp
  with g assms show ?thesis by (simp add: thr_section_def same_pool_def)
qed

theorem simple_shutdown_drops_task_witness:
  "\<exists>t p'. thr_section (tiny_pool\<lparr>tasks := [\<lparr>tasknum = 1000, parg = ArgSlot 0, task_func = 1\<rparr>,
       junk_ptask well], job_num := 1, job_push := 1, stopping := True\<rparr>)
     = Inr (SExits (Some t) p')"
  using simple_shutdown_drops_task [of "tiny_pool\<lparr>tasks :=
      [\<lparr>tasknum = 1000, parg = ArgSlot 0, task_func = 1\<rparr>, junk_ptask well],
      job_num := 1, job_push := 1, stopping := True\<rparr>"]
  by (auto simp: tiny_pool_def sp_ok_def sp_jobs_def ring_def int_range_defs TASK_RUN_def)

text \<open>the simple pool can go wrong in two ways only: the task counter passes the largest \<open>int\<close>, or
  a thread uses the pool after \<open>destroy_threadpool\<close> has freed it.\<close>

theorem simple_only_faults:
  assumes "create_threadpool e n m = Inr p0" and "senv_ok e" and "0 < m" and "m \<le> int_max"
    and "sp_reachable (sp_init p0 k) s" and "sfault s = Some err"
  shows "err = SignedOverflow \<and> beginnum s = int_max \<or> err = UseAfterFree \<and> thrPool s = None"
  using sp_reachable_inv [OF assms(5) screate_inv [OF assms(1-4)]] assms(6)
  by (auto simp: sp_inv_def sp_over_def)

text \<open>The destroyer frees the pool while the worker waits to be scheduled.\<close>

definition gone_state :: sp_sys where
  "gone_state = (sp_init tiny_pool 0)\<lparr>thrPool := None, sdest := SDDone, sfault := Some UseAfterFree\<rparr>"

lemma gone_run: "sp_run [SFlag, SBroadcast, SFree, SSection 0 None] (sp_init tiny_pool 0) = Some gone_state"
  by (simp add: gone_state_def tiny_defs)

theorem simple_only_faults_witness:
  "sfault gone_state = Some UseAfterFree \<and> thrPool gone_state = None"
  using simple_only_faults [OF tiny_created well_ok tiny_bounds sp_run_reachable [OF sp_start gone_run]]
  by (simp add: gone_state_def)

end
