(* ===== verification/Pub.thy ===== *)
theory Pub
  imports C_Base "HOL-Library.Char_ord"
begin

text \<open>
  \<open>web/pub.c\<close>: the type of a file from its name, a line from a socket, and URL encoding and
  decoding. A \<open>char *\<close> that is written through is an index into an array of characters, so writing
  past the array is a fault; decoding reads and writes the same array and may be used in place.
\<close>

section \<open>C strings\<close>

definition NUL :: char where "NUL = CHR 0x00"

text \<open>The C string that starts at index \<open>i\<close> of an array.\<close>

definition c_string :: "string \<Rightarrow> nat \<Rightarrow> string" where
  "c_string mem i = takeWhile (\<lambda>c. c \<noteq> NUL) (drop i mem)"

text \<open>\<open>printf("%s", p)\<close> of a whole array reads to the first NUL, which may lie behind it.\<close>

definition print_text :: "string \<Rightarrow> string res" where
  "print_text mem = (if NUL \<in> set mem then Inr (c_string mem 0) else Inl OutOfBounds)"

text \<open>\<open>char\<close> is signed on the platform.\<close>

definition c_char :: "char \<Rightarrow> int" where
  "c_char c = (let n = of_char c in if n < 128 then n else n - 256)"

definition char_of_int :: "int \<Rightarrow> char" where
  "char_of_int n = char_of (n mod 256)"

text \<open>\<open>strrchr(s, c)\<close>: the suffix from the last \<open>c\<close>, or no pointer.\<close>

fun strrchr :: "string \<Rightarrow> char \<Rightarrow> string option" where
  "strrchr [] c = None"
| "strrchr (x # xs) c =
     (case strrchr xs c of Some t \<Rightarrow> Some t | None \<Rightarrow> if x = c then Some (x # xs) else None)"

text \<open>The classes of \<open>ctype.h\<close> in the C locale.\<close>

definition isdigit :: "char \<Rightarrow> bool" where
  "isdigit c \<longleftrightarrow> CHR ''0'' \<le> c \<and> c \<le> CHR ''9''"

definition isalnum :: "char \<Rightarrow> bool" where
  "isalnum c \<longleftrightarrow> isdigit c \<or> (CHR ''a'' \<le> c \<and> c \<le> CHR ''z'') \<or> (CHR ''A'' \<le> c \<and> c \<le> CHR ''Z'')"

definition isxdigit :: "char \<Rightarrow> bool" where
  "isxdigit c \<longleftrightarrow> isdigit c \<or> (CHR ''a'' \<le> c \<and> c \<le> CHR ''f'') \<or> (CHR ''A'' \<le> c \<and> c \<le> CHR ''F'')"

section \<open>File types\<close>

definition get_mime_type :: "string \<Rightarrow> string" where
  "get_mime_type name =
     (case strrchr name (CHR ''.'') of
        None \<Rightarrow> ''text/plain; charset=utf-8''
      | Some dot \<Rightarrow>
          if dot = ''.html'' \<or> dot = ''.htm'' then ''text/html; charset=utf-8''
          else if dot = ''.jpg'' \<or> dot = ''.jpeg'' then ''image/jpeg''
          else if dot = ''.gif'' then ''image/gif''
          else if dot = ''.png'' then ''image/png''
          else if dot = ''.css'' then ''text/css''
          else if dot = ''.au'' then ''audio/basic''
          else if dot = ''.wav'' then ''audio/wav''
          else if dot = ''.avi'' then ''video/x-msvideo''
          else if dot = ''.mov'' \<or> dot = ''.qt'' then ''video/quicktime''
          else if dot = ''.mpeg'' \<or> dot = ''.mpe'' then ''video/mpeg''
          else if dot = ''.vrml'' \<or> dot = ''.wrl'' then ''model/vrml''
          else if dot = ''.midi'' \<or> dot = ''.mid'' then ''audio/midi''
          else if dot = ''.mp3'' then ''audio/mpeg''
          else if dot = ''.ogg'' then ''application/ogg''
          else if dot = ''.pac'' then ''application/x-ns-proxy-autoconfig''
          else ''text/plain; charset=utf-8'')"

section \<open>A line from a socket\<close>

text \<open>
  What a connection still delivers: the bytes the peer sends before it stops, and what \<open>recv\<close>
  returns afterwards (0 when the peer has closed, a negative number after an error). \<open>recv\<close> of one
  byte leaves the caller's variable alone when nothing arrives.
\<close>

record conn =
  pending :: string
  at_end :: int

definition recv1 :: "conn \<Rightarrow> char \<Rightarrow> int \<times> char \<times> conn" where
  "recv1 k c =
     (case pending k of [] \<Rightarrow> (at_end k, c, k) | x # xs \<Rightarrow> (1, x, k\<lparr>pending := xs\<rparr>))"

definition recv1_peek :: "conn \<Rightarrow> char \<Rightarrow> int \<times> char" where
  "recv1_peek k c = (case pending k of [] \<Rightarrow> (at_end k, c) | x # xs \<Rightarrow> (1, x))"

lemma recv1_shrinks: "recv1 k c = (n, c', k') \<Longrightarrow> length (pending k') \<le> length (pending k)"
  by (auto simp: recv1_def split: list.splits)

text \<open>The loop, with the values of \<open>c\<close> and \<open>i\<close>; every round ends the loop or advances \<open>i\<close>.\<close>

function get_line_loop :: "int \<Rightarrow> char \<Rightarrow> int \<Rightarrow> string \<Rightarrow> conn \<Rightarrow> (int \<times> string \<times> conn) res" where
  "get_line_loop sz c i buf k =
     (if i < sz - 1 \<and> c \<noteq> CHR 0x0A
      then
        let (n, c1, k1) = recv1 k c
        in if n > 0
           then
             let (c2, k2) =
               (if c1 = CHR 0x0D
                then let (n2, c3) = recv1_peek k1 c1
                     in if n2 > 0 \<and> c3 = CHR 0x0A
                        then (let (_, c4, k4) = recv1 k1 c3 in (c4, k4))
                        else (CHR 0x0A, k1)
                else (c1, k1))
             in bindR (arr_set buf i c2) (\<lambda>buf'. get_line_loop sz c2 (i + 1) buf' k2)
           else get_line_loop sz (CHR 0x0A) i buf k1
      else Inr (i, buf, k))"
  by pat_completeness auto
termination
  by (relation "measures [\<lambda>(sz, c, i, buf, k). nat (sz - 1 - i),
                          \<lambda>(sz, c, i, buf, k). if c = CHR 0x0A then 0 else 1]") auto

declare get_line_loop.simps [simp del]

definition get_line :: "string \<Rightarrow> int \<Rightarrow> conn \<Rightarrow> (int \<times> string \<times> conn) res" where
  "get_line buf sz k =
     bindR (get_line_loop sz NUL 0 buf k) (\<lambda>(i, buf', k').
     bindR (arr_set buf' i NUL) (\<lambda>buf''. Inr (i, buf'', k')))"

section \<open>URL decoding\<close>

definition hexit :: "char \<Rightarrow> int" where
  "hexit c =
     (if c_char c \<ge> c_char (CHR ''0'') \<and> c_char c \<le> c_char (CHR ''9'')
      then c_char c - c_char (CHR ''0'')
      else if c_char c \<ge> c_char (CHR ''a'') \<and> c_char c \<le> c_char (CHR ''f'')
      then c_char c - c_char (CHR ''a'') + 10
      else if c_char c \<ge> c_char (CHR ''A'') \<and> c_char c \<le> c_char (CHR ''F'')
      then c_char c - c_char (CHR ''A'') + 10
      else 0)"

text \<open>The condition of the loop body, with C's short-circuit evaluation.\<close>

definition escape_at :: "string \<Rightarrow> int \<Rightarrow> bool res" where
  "escape_at mem from =
     bindR (arr_get mem from) (\<lambda>c0.
       if c0 \<noteq> CHR 0x25 then Inr False
       else bindR (arr_get mem (from + 1)) (\<lambda>c1.
         if \<not> isxdigit c1 then Inr False
         else bindR (arr_get mem (from + 2)) (\<lambda>c2. Inr (isxdigit c2))))"

function strdecode :: "string \<Rightarrow> int \<Rightarrow> int \<Rightarrow> string res" where
  "strdecode mem to from =
     (if from < 0 \<or> int (length mem) \<le> from then Inl OutOfBounds
      else if mem ! nat from = NUL then arr_set mem to NUL
      else
        bindR (escape_at mem from) (\<lambda>esc.
          if esc
          then
            bindR (arr_get mem (from + 1)) (\<lambda>c1.
            bindR (arr_get mem (from + 2)) (\<lambda>c2.
              if 0 \<le> to \<and> to < int (length mem)
              then strdecode (mem[nat to := char_of_int (hexit c1 * 16 + hexit c2)]) (to + 1) (from + 3)
              else Inl OutOfBounds))
          else
            if 0 \<le> to \<and> to < int (length mem)
            then strdecode (mem[nat to := mem ! nat from]) (to + 1) (from + 1)
            else Inl OutOfBounds))"
  by pat_completeness auto
termination
  by (relation "measure (\<lambda>(mem, to, from). nat (int (length mem) - from))") auto

declare strdecode.simps [simp del]

section \<open>URL encoding\<close>

definition url_plain :: "char \<Rightarrow> bool" where
  "url_plain c \<longleftrightarrow> isalnum c \<or> c \<in> set ''/_.-~''"

definition hex_digit :: "int \<Rightarrow> char" where
  "hex_digit n = (if n < 10 then char_of_int (48 + n) else char_of_int (87 + n))"

text \<open>What \<open>sprintf(to, "%%%02x", (int)*from & 0xff)\<close> puts before its terminator.\<close>

definition hex_escape :: "char \<Rightarrow> string" where
  "hex_escape c =
     (let n = c_char c mod 256 in [CHR 0x25, hex_digit (n div 16), hex_digit (n mod 16)])"

text \<open>Writing a string and its terminator at an index.\<close>

fun put_string :: "string \<Rightarrow> int \<Rightarrow> string \<Rightarrow> string res" where
  "put_string mem i [] = arr_set mem i NUL"
| "put_string mem i (c # cs) = bindR (arr_set mem i c) (\<lambda>mem'. put_string mem' (i + 1) cs)"

text \<open>
  \<open>from\<close> is a string of its own; \<open>tosize\<close> is the size the caller states. \<open>tolen\<close> is an \<open>int\<close>, whatever the
  size: its sums may overflow.
\<close>

fun strencode_loop :: "string \<Rightarrow> int \<Rightarrow> int \<Rightarrow> int \<Rightarrow> string \<Rightarrow> string res" where
  "strencode_loop mem to tolen tosize [] = arr_set mem to NUL"
| "strencode_loop mem to tolen tosize (c # from) =
     bindR (c_add tolen 4) (\<lambda>reserve.
       if reserve < tosize
       then if url_plain c
            then bindR (arr_set mem to c) (\<lambda>mem'.
                 bindR (c_add tolen 1) (\<lambda>tolen'.
                   strencode_loop mem' (to + 1) tolen' tosize from))
            else bindR (put_string mem to (hex_escape c)) (\<lambda>mem'.
                 bindR (c_add tolen 3) (\<lambda>tolen'.
                   strencode_loop mem' (to + 3) tolen' tosize from))
       else arr_set mem to NUL)"

definition strencode :: "string \<Rightarrow> int \<Rightarrow> int \<Rightarrow> string \<Rightarrow> string res" where
  "strencode mem to tosize from = strencode_loop mem to 0 tosize from"

end
