(* ===== verification/Pub_Correct.thy ===== *)
theory Pub_Correct
  imports Pub
begin

text \<open>
  What the functions of \<open>web/pub.c\<close> compute, stated without indices: the suffix a type depends on,
  the line a socket delivers, and URL encoding and decoding as functions on strings, with the
  exact contents of memory afterwards.
\<close>

section \<open>File types\<close>

lemma strrchr_none: "c \<notin> set s \<Longrightarrow> strrchr s c = None"
  by (induction s) auto

lemma strrchr_last: "c \<notin> set ext \<Longrightarrow> strrchr (base @ c # ext) c = Some (c # ext)"
  by (induction base) (simp_all add: strrchr_none)

section \<open>Lines\<close>

text \<open>
  The first line of a stream, at most \<open>m\<close> characters of it, with its terminator as one line feed;
  and a whole stream with every terminator as one line feed.
\<close>

fun skip_lf :: "string \<Rightarrow> string" where
  "skip_lf [] = []"
| "skip_lf (c # cs) = (if c = CHR 0x0A then cs else c # cs)"

fun line_upto :: "nat \<Rightarrow> string \<Rightarrow> string \<times> string" where
  "line_upto 0 xs = ([], xs)"
| "line_upto (Suc m) [] = ([], [])"
| "line_upto (Suc m) (c # cs) =
     (if c = CHR 0x0A then ([CHR 0x0A], cs)
      else if c = CHR 0x0D then ([CHR 0x0A], skip_lf cs)
      else let (l, r) = line_upto m cs in (c # l, r))"

lemma length_skip_lf [termination_simp]: "length (skip_lf cs) \<le> length cs"
  by (cases cs) simp_all

fun line_ends :: "string \<Rightarrow> string" where
  "line_ends [] = []"
| "line_ends (c # cs) =
     (if c = CHR 0x0D then CHR 0x0A # line_ends (skip_lf cs) else c # line_ends cs)"

lemma line_upto_ends: "line_upto m xs = (l, r) \<Longrightarrow> line_ends xs = l @ line_ends r"
  by (induction m xs arbitrary: l r rule: line_upto.induct) (auto split: if_splits prod.splits)

lemma line_upto_length: "line_upto m xs = (l, r) \<Longrightarrow> length l \<le> m"
  by (induction m xs arbitrary: l r rule: line_upto.induct) (auto split: if_splits prod.splits)

lemma line_upto_shape:
  "line_upto m xs = (l, r) \<Longrightarrow> CHR 0x0A \<notin> set (butlast l) \<and> CHR 0x0D \<notin> set l"
  by (induction m xs arbitrary: l r rule: line_upto.induct) (auto split: if_splits prod.splits)

lemma line_upto_complete:
  "line_upto m xs = (l, r) \<Longrightarrow> length l = m \<or> r = [] \<or> l \<noteq> [] \<and> last l = CHR 0x0A"
  by (induction m xs arbitrary: l r rule: line_upto.induct) (auto split: if_splits prod.splits)

lemma get_line_loop_stops [simp]:
  "get_line_loop sz (CHR 0x0A) i buf k = Inr (i, buf, k)"
  by (subst get_line_loop.simps) simp

lemma recv_crlf:
  "(let (n2, c3) = recv1_peek (k\<lparr>pending := cs\<rparr>) c
    in if n2 > 0 \<and> c3 = CHR 0x0A
       then (let (_, c4, k4) = recv1 (k\<lparr>pending := cs\<rparr>) c3 in (c4, k4))
       else (CHR 0x0A, k\<lparr>pending := cs\<rparr>)) = (CHR 0x0A, k\<lparr>pending := skip_lf cs\<rparr>)"
  by (cases cs) (simp_all add: recv1_peek_def recv1_def)

lemma get_line_loop_result:
  assumes "at_end k \<le> 0" and "c \<noteq> CHR 0x0A" and "int i + int m = sz - 1" and "i + m < length buf"
    and "line_upto m (pending k) = (l, r)"
  shows "get_line_loop sz c (int i) buf k =
    Inr (int (i + length l), overwrite buf i l, k\<lparr>pending := r\<rparr>)"
  using assms
proof (induction m "pending k" arbitrary: c i buf k l r rule: line_upto.induct)
  case 1
  then show ?case by (subst get_line_loop.simps) simp
next
  case (2 m)
  then show ?case by (subst get_line_loop.simps) (simp add: recv1_def)
next
  case (3 m x xs)
  let ?k = "k\<lparr>pending := xs\<rparr>"
  have rec: "recv1 k c = (1, x, ?k)" using 3(2) by (simp add: recv1_def flip: 3(2))
  have go: "int i < sz - 1" "int i < int (length buf)" using 3(5,6) by simp_all
  show ?case
  proof (cases "x = CHR 0x0A \<or> x = CHR 0x0D")
    case True
    then have "l = [CHR 0x0A]" "r = (if x = CHR 0x0D then skip_lf xs else xs)"
      using 3(7) by (auto simp flip: 3(2))
    with True go 3(4) rec recv_crlf [where k = k and cs = xs and c = x] show ?thesis
      by (subst get_line_loop.simps)
        (auto simp: overwrite_Cons [symmetric])
  next
    case False
    then obtain l' where l': "line_upto m xs = (l', r)" "l = x # l'"
      using 3(7) by (auto simp flip: 3(2) split: prod.splits)
    have "get_line_loop sz x (int (Suc i)) (buf[i := x]) ?k =
        Inr (int (Suc i + length l'), overwrite (buf[i := x]) (Suc i) l', ?k\<lparr>pending := r\<rparr>)"
      by (rule 3(1)) (use False 3(3,5,6) l' in auto)
    with False go 3(4) rec l' show ?thesis
      by (subst get_line_loop.simps) (simp add: overwrite_Cons add.commute)
  qed
qed

lemma get_line_result:
  assumes "at_end k \<le> 0" and "1 \<le> sz" and "sz \<le> int (length buf)"
    and "line_upto (nat (sz - 1)) (pending k) = (l, r)"
  shows "get_line buf sz k =
    Inr (int (length l), overwrite buf 0 (l @ [NUL]), k\<lparr>pending := r\<rparr>)"
proof -
  have len: "length l < length buf" using line_upto_length [OF assms(4)] assms(2,3) by linarith
  have "get_line_loop sz NUL (int 0) buf k =
      Inr (int (0 + length l), overwrite buf 0 l, k\<lparr>pending := r\<rparr>)"
    by (rule get_line_loop_result [OF assms(1) _ _ _ assms(4)])
      (use assms(2,3) in \<open>auto simp: NUL_def\<close>)
  with len overwrite_snoc [of 0 l buf NUL] show ?thesis
    by (simp add: get_line_def)
qed


section \<open>Decoding\<close>

fun url_decode :: "string \<Rightarrow> string" where
  "url_decode (c # a # b # s) =
     (if c = CHR 0x25 \<and> isxdigit a \<and> isxdigit b
      then char_of_int (hexit a * 16 + hexit b) # url_decode s
      else c # url_decode (a # b # s))"
| "url_decode s = s"

lemma NUL_not_hex [simp]: "\<not> isxdigit NUL"
  by (simp add: isxdigit_def isdigit_def NUL_def less_eq_char_def)

lemma drop_at:
  "drop from mem = x # xs \<Longrightarrow> from < length mem \<and> mem ! from = x \<and> drop (Suc from) mem = xs"
  by (metis Cons_nth_drop_Suc drop_all linorder_not_less list.discI list.inject)

lemma drop_get: "drop from mem = x # xs \<Longrightarrow> arr_get mem (int from) = Inr x"
  using drop_at by fastforce

text \<open>An escape at \<open>from\<close>, seen from the text that is left.\<close>

lemma escape_at_eq:
  assumes d: "drop from mem = c # s @ NUL # post" and "NUL \<notin> set s"
  shows "escape_at mem (int from) =
    Inr (c = CHR 0x25 \<and> (\<exists>a b t. s = a # b # t \<and> isxdigit a \<and> isxdigit b))"
proof -
  note g0 = drop_get [OF d]
  have d1: "drop (Suc from) mem = s @ NUL # post" using drop_at [OF d] by simp
  show ?thesis
  proof (cases s)
    case Nil
    with drop_get [of "Suc from" mem] d1 have "arr_get mem (int from + 1) = Inr NUL"
      by (simp add: add.commute)
    with g0 Nil show ?thesis by (simp add: escape_at_def)
  next
    case (Cons a s')
    with drop_get [of "Suc from" mem a] d1 have g1: "arr_get mem (int from + 1) = Inr a"
      by (simp add: add.commute)
    have d2: "drop (Suc (Suc from)) mem = s' @ NUL # post" using d1 Cons drop_at by fastforce
    show ?thesis
    proof (cases s')
      case Nil
      with drop_get [of "Suc (Suc from)" mem] d2 have "arr_get mem (int from + 2) = Inr NUL"
        by (simp add: add.commute)
      with g0 g1 Nil Cons show ?thesis by (simp add: escape_at_def)
    next
      case (Cons b t)
      with drop_get [of "Suc (Suc from)" mem b] d2 have "arr_get mem (int from + 2) = Inr b"
        by (simp add: add.commute)
      with g0 g1 Cons \<open>s = a # s'\<close> show ?thesis by (simp add: escape_at_def)
    qed
  qed
qed

lemma url_decode_plain:
  "\<not> (c = CHR 0x25 \<and> (\<exists>a b t. s = a # b # t \<and> isxdigit a \<and> isxdigit b)) \<Longrightarrow>
   url_decode (c # s) = c # url_decode s"
  by (cases "c # s" rule: url_decode.cases) auto

text \<open>
  The text may be decoded onto itself or to any place before it: the decoded text is never longer
  than the part already read.
\<close>

lemma strdecode_result:
  assumes "drop from mem = s @ NUL # post" and "NUL \<notin> set s" and "to \<le> from"
  shows "strdecode mem (int to) (int from) = Inr (overwrite mem to (url_decode s @ [NUL]))"
  using assms
proof (induction s arbitrary: mem to "from" rule: length_induct)
  case (1 s)
  have to: "to < length mem" using "1.prems"(1,3) by (cases s) (auto dest: drop_at)
  show ?case
  proof (cases s)
    case Nil
    with drop_at [of "from" mem] "1.prems"(1) have "from < length mem" "mem ! from = NUL" by simp_all
    with Nil to show ?thesis by (subst strdecode.simps) (simp add: overwrite_step [symmetric])
  next
    case (Cons c s')
    have d: "drop from mem = c # s' @ NUL # post" using Cons "1.prems"(1) by simp
    have c: "from < length mem" "mem ! from = c" "c \<noteq> NUL" "NUL \<notin> set s'"
      using drop_at [OF d] Cons "1.prems"(2) by auto
    have d1: "drop (Suc from) mem = s' @ NUL # post" using drop_at [OF d] by simp
    note esc = escape_at_eq [OF d c(4)]
    show ?thesis
    proof (cases "c = CHR 0x25 \<and> (\<exists>a b t. s' = a # b # t \<and> isxdigit a \<and> isxdigit b)")
      case False
      have "strdecode (mem[to := c]) (int (to + 1)) (int (from + 1)) =
          Inr (overwrite (mem[to := c]) (to + 1) (url_decode s' @ [NUL]))"
        using "1.IH" [rule_format, of s' "from + 1" "mem[to := c]" "to + 1"] Cons d1 c(4) "1.prems"(3)
        by simp
      moreover have "escape_at mem (int from) = Inr False" unfolding esc using False by blast
      ultimately show ?thesis using False c to Cons
        by (subst strdecode.simps) (simp add: overwrite_Cons url_decode_plain add.commute)
    next
      case True
      then obtain a b t where t: "c = CHR 0x25" "s' = a # b # t" "isxdigit a" "isxdigit b" by blast
      have d2: "drop (Suc (Suc from)) mem = b # t @ NUL # post" using d1 t drop_at by fastforce
      have d3: "drop (from + 3) mem = t @ NUL # post"
        using drop_at [OF d2] by (simp add: numeral_3_eq_3)
      have g: "arr_get mem (int from + 1) = Inr a" "arr_get mem (int from + 2) = Inr b"
        using drop_get [of "Suc from" mem a] drop_get [OF d2] d1 t by (simp_all add: add.commute)
      let ?x = "char_of_int (hexit a * 16 + hexit b)"
      have "strdecode (mem[to := ?x]) (int (to + 1)) (int (from + 3)) =
          Inr (overwrite (mem[to := ?x]) (to + 1) (url_decode t @ [NUL]))"
        using "1.IH" [rule_format, of t "from + 3" "mem[to := ?x]" "to + 1"] Cons t d3 c(4) "1.prems"(3)
        by simp
      moreover have "escape_at mem (int from) = Inr True" unfolding esc using True by blast
      ultimately show ?thesis using g c to Cons t
        by (subst strdecode.simps) (simp add: overwrite_Cons add.commute)
    qed
  qed
qed

section \<open>Encoding\<close>

definition url_enc1 :: "char \<Rightarrow> string" where
  "url_enc1 c = (if url_plain c then [c] else hex_escape c)"

definition url_encode :: "string \<Rightarrow> string" where
  "url_encode s = concat (map url_enc1 s)"

text \<open>The characters that fit.\<close>

fun fitting :: "nat \<Rightarrow> nat \<Rightarrow> string \<Rightarrow> nat" where
  "fitting n sz [] = 0"
| "fitting n sz (c # s) = (if n + 4 < sz then Suc (fitting (n + length (url_enc1 c)) sz s) else 0)"

lemma length_hex_escape [simp]: "length (hex_escape c) = 3"
  by (simp add: hex_escape_def Let_def)

lemma put_string_result:
  "i + length s < length mem \<Longrightarrow> put_string mem (int i) s = Inr (overwrite mem i (s @ [NUL]))"
proof (induction s arbitrary: mem i)
  case Nil
  then show ?case by (simp add: overwrite_step [symmetric])
next
  case (Cons c s)
  from Cons.IH [of "i + 1" "mem[i := c]"] Cons.prems show ?case
    by (simp add: overwrite_Cons add.commute)
qed

lemma overwrite_shadow:
  assumes "i + length s < length mem"
  shows "overwrite (overwrite mem i (s @ [NUL])) (i + length s) (x # t) = overwrite mem i (s @ x # t)"
  using overwrite_overwrite [of i s mem "x # t"] assms
  by (simp flip: overwrite_snoc)

lemma tolen_adds:
  "int n + 4 \<le> int_max \<Longrightarrow> 0 \<le> m \<Longrightarrow> m \<le> 4 \<Longrightarrow> c_add (int n) m = Inr (int n + m)"
  by (simp add: c_add_def int_range_defs)

lemma strencode_loop_result:
  assumes "n < sz" and "to + (sz - n) \<le> length mem" and "int sz + 3 \<le> int_max"
  shows "strencode_loop mem (int to) (int n) (int sz) s =
    Inr (overwrite mem to (url_encode (take (fitting n sz s) s) @ [NUL]))"
  using assms
proof (induction s arbitrary: mem to n)
  case Nil
  then show ?case by (simp add: url_encode_def overwrite_one)
next
  case (Cons c s)
  note add = tolen_adds [of n]
  have max: "int n + 4 \<le> int_max" using Cons.prems(1,3) by simp
  show ?case
  proof (cases "n + 4 < sz")
    case False
    with Cons.prems max show ?thesis by (simp add: add url_encode_def overwrite_one)
  next
    case True
    let ?e = "url_enc1 c"
    have len: "length ?e = (if url_plain c then 1 else 3)" by (simp add: url_enc1_def)
    show ?thesis
    proof (cases "url_plain c")
      case plain: True
      from Cons.IH [of "n + 1" "to + 1" "mem[to := c]"] True Cons.prems plain len max show ?thesis
        by (simp add: add overwrite_Cons add.commute url_encode_def url_enc1_def)
    next
      case False
      let ?m = "overwrite mem to (hex_escape c @ [NUL])"
      have "put_string mem (int to) (hex_escape c) = Inr ?m"
        using True Cons.prems by (intro put_string_result) simp
      moreover have "length ?m = length mem" using True Cons.prems by simp
      moreover have "overwrite ?m (to + 3) (t @ [NUL]) = overwrite mem to (hex_escape c @ t @ [NUL])" for t
        using overwrite_shadow [of to "hex_escape c" mem] True Cons.prems by (cases t) simp_all
      ultimately show ?thesis
        using Cons.IH [of "n + 3" "to + 3" ?m] True Cons.prems False max
        by (simp add: add url_encode_def url_enc1_def add.commute)
    qed
  qed
qed

lemma c_string_overwrite:
  "NUL \<notin> set s \<Longrightarrow> c_string (overwrite mem 0 (s @ [NUL])) 0 = s"
proof -
  assume "NUL \<notin> set s"
  then have "takeWhile (\<lambda>c. c \<noteq> NUL) s = s" by (simp add: takeWhile_eq_all_conv) blast
  with \<open>NUL \<notin> set s\<close> show ?thesis
    by (simp add: c_string_def overwrite_def takeWhile_append2)
qed

end
