(* ===== verification/Pub_Props.thy ===== *)
theory Pub_Props
  imports Pub_Correct
begin

text \<open>The promises of \<open>web/pub.c\<close>, with the concrete strings of the witnesses.\<close>

section \<open>The round trip of URL encoding\<close>










lemma fitting_bounds:
  "n < sz \<Longrightarrow> fitting n sz s \<le> length s \<and> n + length (url_encode (take (fitting n sz s) s)) < sz \<and>
   (fitting n sz s < length s \<longrightarrow> sz \<le> n + length (url_encode (take (fitting n sz s) s)) + 4)"
proof (induction s arbitrary: n)
  case (Cons c s)
  have "length (url_enc1 c) \<le> 3" by (simp add: url_enc1_def)
  with Cons.IH [of "n + length (url_enc1 c)"] Cons.prems show ?case
    by (auto simp: url_encode_def)
qed (simp add: url_encode_def)

section \<open>Properties\<close>

definition mime_table :: "(string \<times> string) list" where
  "mime_table =
    [(''html'', ''text/html; charset=utf-8''), (''htm'', ''text/html; charset=utf-8''),
     (''jpg'', ''image/jpeg''), (''jpeg'', ''image/jpeg''), (''gif'', ''image/gif''),
     (''png'', ''image/png''), (''css'', ''text/css''), (''au'', ''audio/basic''),
     (''wav'', ''audio/wav''), (''avi'', ''video/x-msvideo''), (''mov'', ''video/quicktime''),
     (''qt'', ''video/quicktime''), (''mpeg'', ''video/mpeg''), (''mpe'', ''video/mpeg''),
     (''vrml'', ''model/vrml''), (''wrl'', ''model/vrml''), (''midi'', ''audio/midi''),
     (''mid'', ''audio/midi''), (''mp3'', ''audio/mpeg''), (''ogg'', ''application/ogg''),
     (''pac'', ''application/x-ns-proxy-autoconfig'')]"

text \<open>the type of a file depends only on what follows the last dot of its name, and is looked up
  in a table with plain text as the default.\<close>

theorem get_mime_type_by_extension:
  assumes "CHR ''.'' \<notin> set ext"
  shows "get_mime_type (base @ CHR ''.'' # ext) =
    (case map_of mime_table ext of Some t \<Rightarrow> t | None \<Rightarrow> ''text/plain; charset=utf-8'')"
  using strrchr_last [OF assms, of base] by (simp add: get_mime_type_def mime_table_def)

theorem get_mime_type_by_extension_witness:
  "get_mime_type ''aa/bb.v2/photo.jpeg'' = ''image/jpeg''"
  using get_mime_type_by_extension [of "''jpeg''" "''aa/bb.v2/photo''"] by (simp add: mime_table_def)

text \<open>C23: let a failing or ended \<open>recv\<close> return 0 or less and the size fit the buffer. \<open>get_line\<close> stores the
  next line of the stream: all its characters up to and with the first line end (LF, CR or CRLF, stored
  as one LF), and fewer only where \<open>size - 1\<close> characters are stored or the stream is over. It terminates
  them, returns their number, touches nothing behind, and leaves the rest of the stream.\<close>

theorem get_line_stores_line:
  assumes "at_end k \<le> 0" and "1 \<le> sz" and "sz \<le> int (length buf)"
  shows "\<exists>l r. get_line buf sz k = Inr (int (length l), l @ NUL # drop (length l + 1) buf, k\<lparr>pending := r\<rparr>) \<and>
    line_ends (pending k) = l @ line_ends r \<and> int (length l) < sz \<and>
    CHR 0x0A \<notin> set (butlast l) \<and> CHR 0x0D \<notin> set l \<and>
    (int (length l) = sz - 1 \<or> r = [] \<or> l \<noteq> [] \<and> last l = CHR 0x0A)"
proof -
  obtain l r where l: "line_upto (nat (sz - 1)) (pending k) = (l, r)" by fastforce
  from line_upto_length [OF l] assms have "int (length l) < sz" by linarith
  moreover have "int (length l) = sz - 1 \<or> r = [] \<or> l \<noteq> [] \<and> last l = CHR 0x0A"
    using line_upto_complete [OF l] assms(2) by auto
  moreover have "get_line buf sz k =
      Inr (int (length l), l @ NUL # drop (length l + 1) buf, k\<lparr>pending := r\<rparr>)"
    using get_line_result [OF assms l] by (simp add: overwrite_def)
  ultimately show ?thesis
    using line_upto_ends [OF l] line_upto_shape [OF l] by blast
qed

theorem get_line_stores_line_witness:
  "\<exists>l r. get_line (replicate 8 (CHR ''x'')) 8 \<lparr>pending = ''GET'' @ [CHR 0x0D, CHR 0x0A] @ ''Host'', at_end = 0\<rparr>
     = Inr (int (length l), l @ NUL # drop (length l + 1) (replicate 8 (CHR ''x'')),
            \<lparr>pending = r, at_end = 0\<rparr>) \<and> ''GET'' @ [CHR 0x0A] @ ''Host'' = l @ line_ends r \<and>
     CHR 0x0A \<notin> set (butlast l) \<and> (length l = 7 \<or> r = [] \<or> l \<noteq> [] \<and> last l = CHR 0x0A)"
  using get_line_stores_line [of "\<lparr>pending = ''GET'' @ [CHR 0x0D, CHR 0x0A] @ ''Host'', at_end = 0\<rparr>" 8
    "replicate 8 (CHR ''x'')"] by auto

text \<open>C21: decoding in place, as the web server does it, replaces the text by its decoded form, ends it
  with a terminator and changes no other character of the memory.\<close>

theorem strdecode_in_place:
  assumes "NUL \<notin> set s"
  shows "strdecode (pre @ s @ NUL # post) (int (length pre)) (int (length pre)) =
    Inr (pre @ url_decode s @ NUL # drop (length (url_decode s) + 1) (s @ NUL # post))"
  using strdecode_result [of "length pre" "pre @ s @ NUL # post" s post "length pre"] assms
  by (simp add: overwrite_def)

theorem strdecode_in_place_witness:
  "strdecode (''/'' @ ''a%41%zz%3'' @ NUL # ''rest'') 1 1 =
    Inr (''/'' @ ''aA%zz%3'' @ NUL # drop 8 (''a%41%zz%3'' @ NUL # ''rest''))"
  using strdecode_in_place [of "''a%41%zz%3''" "''/''" "''rest''"]
  by (simp add: isxdigit_def isdigit_def NUL_def less_eq_char_def hexit_def c_char_def char_of_int_def
      char_of_eq_iff)

text \<open>C22: for a stated size that an \<open>int\<close> can count (up to three below its maximum) and a text of ASCII
  characters, the only ones \<open>isalnum\<close> is defined for, \<open>strencode\<close> never writes outside the \<open>tosize\<close>
  characters it is given; it encodes as many characters of the text as fit with a reserve of four, and
  always terminates the result.\<close>

theorem strencode_fits:
  assumes "0 < sz" and "sz \<le> length mem" and "int sz + 3 \<le> int_max"
    and "\<forall>c \<in> set s. (of_char c :: nat) < 128"
  shows "\<exists>m. strencode mem 0 (int sz) s =
      Inr (url_encode (take m s) @ NUL # drop (length (url_encode (take m s)) + 1) mem) \<and>
    m \<le> length s \<and> length (url_encode (take m s)) < sz \<and>
    (m < length s \<longrightarrow> sz \<le> length (url_encode (take m s)) + 4)"
  using strencode_loop_result [of 0 sz 0 mem s] fitting_bounds [of 0 sz s] assms
  by (auto simp: strencode_def overwrite_def)

text \<open>Beyond that size the counter overflows.\<close>

lemma strencode_overflow:
  "int_max - 4 < tolen \<Longrightarrow> tolen \<le> int_max \<Longrightarrow>
   strencode_loop mem to tolen tosize (c # s) = Inl SignedOverflow"
  by (simp add: c_add_def int_range_defs)

theorem strencode_fits_witness:
  "\<exists>m. strencode (replicate 9 (CHR ''x'')) 0 9 ''a b c'' =
      Inr (url_encode (take m ''a b c'') @ NUL # drop (length (url_encode (take m ''a b c'')) + 1)
             (replicate 9 (CHR ''x''))) \<and> length (url_encode (take m ''a b c'')) < 9"
  using strencode_fits [of 9 "replicate 9 (CHR ''x'')" "''a b c''"] by (auto simp: int_max_def)



end
