(* ===== verification/Wrap.thy ===== *)
theory Wrap
  imports C_Base
begin

text \<open>
  \<open>socket/wrap.c\<close>: the system calls with their error handling. What the kernel answers is a script
  per file descriptor: the chunks that arrive, with failing calls between them. A script is finite,
  so a call is interrupted finitely often; after its end a read reports end of file and a write
  accepts everything. Sizes are natural numbers, as \<open>size_t\<close> is unsigned.
\<close>

section \<open>What the kernel answers\<close>

datatype errno = EINTR | ECONNABORTED | EAGAIN | EOTHER

datatype rd = Data string | RdErr errno

datatype rres = Got string | End | Failed errno

text \<open>
  One \<open>read\<close> of up to \<open>n\<close> bytes. An empty chunk stands for an end of file, which stays.
\<close>

fun kread :: "nat \<Rightarrow> rd list \<Rightarrow> rres \<times> rd list" where
  "kread n [] = (End, [])"
| "kread n (RdErr e # k) = (Failed e, k)"
| "kread n (Data d # k) =
     (if n = 0 \<or> d = [] then (End, Data d # k)
      else (Got (take n d), if length d \<le> n then k else Data (drop n d) # k))"

datatype wr = Took nat | WrErr errno

datatype wres = Wrote nat | WFailed errno

fun kwrite :: "nat \<Rightarrow> wr list \<Rightarrow> wres \<times> wr list" where
  "kwrite n [] = (Wrote n, [])"
| "kwrite n (WrErr e # k) = (WFailed e, k)"
| "kwrite n (Took m # k) = (Wrote (min m n), k)"

section \<open>Calls that exit on error\<close>

definition perr_exit :: "'a res" where
  "perr_exit = Inl (Exited (-1))"

text \<open>\<open>Accept\<close> blocks for ever when the kernel offers no further answer.\<close>

fun Accept :: "(errno + int) list \<Rightarrow> (int \<times> (errno + int) list) run" where
  "Accept [] = None"
| "Accept (Inr fd # k) = returns (fd, k)"
| "Accept (Inl e # k) =
     (if e = ECONNABORTED \<or> e = EINTR then Accept k else lift_res perr_exit)"

text \<open>The argument is what the system call of the same name returned.\<close>

definition Bind :: "int \<Rightarrow> int res" where
  "Bind n = (if n < 0 then perr_exit else Inr n)"

definition Connect :: "int \<Rightarrow> int res" where
  "Connect n = (if n < 0 then perr_exit else Inr n)"

definition Listen :: "int \<Rightarrow> int res" where
  "Listen n = (if n < 0 then perr_exit else Inr n)"

definition Socket :: "int \<Rightarrow> int res" where
  "Socket n = (if n < 0 then perr_exit else Inr n)"

definition Close :: "int \<Rightarrow> int res" where
  "Close n = (if n = -1 then perr_exit else Inr n)"

section \<open>Reading and writing once\<close>

text \<open>The loop \<open>again: read; if EINTR goto again\<close>.\<close>

function read_again :: "nat \<Rightarrow> rd list \<Rightarrow> rres \<times> rd list" where
  "read_again n k =
     (case kread n k of
        (Failed e, k') \<Rightarrow> if e = EINTR then read_again n k' else (Failed e, k')
      | (r, k') \<Rightarrow> (r, k'))"
  by pat_completeness auto

lemma kread_fails: "kread n k = (Failed e, k') \<Longrightarrow> k = RdErr e # k'"
  by (cases "(n, k)" rule: kread.cases) (auto split: if_splits)

termination read_again
  by (relation "measure (\<lambda>(n, k). length k)") (auto dest!: kread_fails [OF sym])

declare read_again.simps [simp del]

definition Read :: "string \<Rightarrow> int \<Rightarrow> nat \<Rightarrow> rd list \<Rightarrow> (int \<times> string \<times> rd list) res" where
  "Read mem ptr nbytes k =
     (case read_again nbytes k of
        (Failed e, k') \<Rightarrow> Inr (-1, mem, k')
      | (End, k') \<Rightarrow> Inr (0, mem, k')
      | (Got d, k') \<Rightarrow> bindR (store mem ptr d) (\<lambda>mem'. Inr (int (length d), mem', k')))"

text \<open>The second component is what the peer receives.\<close>

function Write :: "string \<Rightarrow> wr list \<Rightarrow> int \<times> string \<times> wr list" where
  "Write msg k =
     (case kwrite (length msg) k of
        (WFailed e, k') \<Rightarrow> if e = EINTR then Write msg k' else (-1, [], k')
      | (Wrote m, k') \<Rightarrow> (int m, take m msg, k'))"
  by pat_completeness auto

lemma kwrite_fails: "kwrite n k = (WFailed e, k') \<Longrightarrow> k = WrErr e # k'"
  by (cases "(n, k)" rule: kwrite.cases) auto

lemma kwrite_wrote: "kwrite n k = (Wrote m, k') \<Longrightarrow> m \<le> n \<and> length k' \<le> length k \<and> (k \<noteq> [] \<longrightarrow> length k' < length k)"
  by (cases "(n, k)" rule: kwrite.cases) auto

termination Write
  by (relation "measure (\<lambda>(msg, k). length k)") (auto dest!: kwrite_fails [OF sym])

declare Write.simps [simp del]

section \<open>Reading and writing all\<close>

function readn_loop :: "string \<Rightarrow> int \<Rightarrow> nat \<Rightarrow> nat \<Rightarrow> rd list \<Rightarrow> (int \<times> string \<times> rd list) res" where
  "readn_loop mem ptr nleft n k =
     (if nleft > 0
      then (case kread nleft k of
              (Failed e, k') \<Rightarrow>
                if e = EINTR then readn_loop mem ptr nleft n k' else Inr (-1, mem, k')
            | (End, k') \<Rightarrow> Inr (int (n - nleft), mem, k')
            | (Got d, k') \<Rightarrow>
                bindR (store mem ptr d) (\<lambda>mem'.
                  readn_loop mem' (ptr + int (length d)) (nleft - length d) n k'))
      else Inr (int (n - nleft), mem, k))"
  by pat_completeness auto

lemma kread_got: "kread n k = (Got d, k') \<Longrightarrow> 0 < length d \<and> length d \<le> n"
  by (cases "(n, k)" rule: kread.cases) (auto split: if_splits)

termination readn_loop
  by (relation "measures [\<lambda>(mem, ptr, nleft, n, k). nleft, \<lambda>(mem, ptr, nleft, n, k). length k]")
    (auto dest!: kread_fails [OF sym] kread_got [OF sym])

declare readn_loop.simps [simp del]

definition Readn :: "string \<Rightarrow> int \<Rightarrow> nat \<Rightarrow> rd list \<Rightarrow> (int \<times> string \<times> rd list) res" where
  "Readn mem vptr n k = readn_loop mem vptr n n k"

text \<open>\<open>msg\<close> is the text still to write, \<open>sent\<close> what the peer has got.\<close>

function writen_loop :: "string \<Rightarrow> string \<Rightarrow> nat \<Rightarrow> wr list \<Rightarrow> int \<times> string \<times> wr list" where
  "writen_loop sent msg n k =
     (if length msg > 0
      then (case kwrite (length msg) k of
              (WFailed e, k') \<Rightarrow>
                if e = EINTR then writen_loop sent msg n k' else (-1, sent, k')
            | (Wrote m, k') \<Rightarrow>
                if m = 0 then (-1, sent, k')
                else writen_loop (sent @ take m msg) (drop m msg) n k')
      else (int n, sent, k))"
  by pat_completeness auto
termination
  by (relation "measures [\<lambda>(sent, msg, n, k). length msg, \<lambda>(sent, msg, n, k). length k]")
    (auto dest!: kwrite_fails [OF sym])

declare writen_loop.simps [simp del]

definition Writen :: "string \<Rightarrow> wr list \<Rightarrow> int \<times> string \<times> wr list" where
  "Writen msg k = writen_loop [] msg (length msg) k"

section \<open>Lines through a static buffer\<close>

text \<open>
  The static variables of \<open>my_read\<close> belong to the process, not to a descriptor; the kernel's
  scripts belong to descriptors.
\<close>

record rl =
  read_cnt :: int
  read_ptr :: int
  read_buf :: string
  kern :: "nat \<Rightarrow> rd list"

definition my_read :: "nat \<Rightarrow> rl \<Rightarrow> (int \<times> char option \<times> rl) res" where
  "my_read fd w =
     (let deliver = (\<lambda>w. bindR (arr_get (read_buf w) (read_ptr w)) (\<lambda>c.
            Inr (1, Some c, w\<lparr>read_cnt := read_cnt w - 1, read_ptr := read_ptr w + 1\<rparr>)))
      in if read_cnt w \<le> 0
         then (case read_again 100 (kern w fd) of
                 (Failed e, k) \<Rightarrow> Inr (-1, None, w\<lparr>read_cnt := -1, kern := (kern w)(fd := k)\<rparr>)
               | (End, k) \<Rightarrow> Inr (0, None, w\<lparr>read_cnt := 0, kern := (kern w)(fd := k)\<rparr>)
               | (Got d, k) \<Rightarrow>
                   bindR (store (read_buf w) 0 d) (\<lambda>b.
                     deliver (w\<lparr>read_cnt := int (length d), read_ptr := 0, read_buf := b,
                                kern := (kern w)(fd := k)\<rparr>)))
         else deliver w)"

text \<open>\<open>Readline\<close>, from round \<open>n\<close> of its loop on, \<open>ptr\<close> being where the next character goes.\<close>

function readline_loop :: "nat \<Rightarrow> string \<Rightarrow> int \<Rightarrow> nat \<Rightarrow> nat \<Rightarrow> rl \<Rightarrow> (int \<times> string \<times> rl) res" where
  "readline_loop fd mem ptr n maxlen w =
     (if n < maxlen
      then bindR (my_read fd w) (\<lambda>(rc, c, w').
        if rc = 1
        then bindR (arr_set mem ptr (the c)) (\<lambda>mem'.
               if the c = CHR 0x0A
               then bindR (arr_set mem' (ptr + 1) (CHR 0x00)) (\<lambda>mem''. Inr (int n, mem'', w'))
               else readline_loop fd mem' (ptr + 1) (n + 1) maxlen w')
        else if rc = 0
        then bindR (arr_set mem ptr (CHR 0x00)) (\<lambda>mem'. Inr (int n - 1, mem', w'))
        else Inr (-1, mem, w'))
      else bindR (arr_set mem ptr (CHR 0x00)) (\<lambda>mem'. Inr (int n, mem', w)))"
  by pat_completeness auto
termination
  by (relation "measure (\<lambda>(fd, mem, ptr, n, maxlen, w). maxlen - n)") auto

declare readline_loop.simps [simp del]

definition Readline :: "nat \<Rightarrow> string \<Rightarrow> nat \<Rightarrow> rl \<Rightarrow> (int \<times> string \<times> rl) res" where
  "Readline fd mem maxlen w = readline_loop fd mem 0 1 maxlen w"

section \<open>A listening socket\<close>

record sockaddr =
  sin_family :: nat
  sin_port :: "16 word"
  s_addr :: "32 word"

definition AF_INET :: nat where "AF_INET = 2"
definition INADDR_ANY :: "32 word" where "INADDR_ANY = 0"

definition htons :: "16 word \<Rightarrow> 16 word" where
  "htons x = or (push_bit 8 x) (drop_bit 8 x)"

text \<open>
  The answers of \<open>socket\<close> and \<open>bind\<close> and the result of \<open>inet_pton\<close> (a status and, when it is
  positive, the address) are arguments; the result is the descriptor and the address bound.
\<close>

definition tcp4bind ::
  "int \<Rightarrow> (string \<Rightarrow> int \<times> 32 word) \<Rightarrow> int \<Rightarrow> int \<Rightarrow> string option \<Rightarrow> (int \<times> sockaddr) res" where
  "tcp4bind socket_rc inet_pton bind_rc port ip =
     bindR (Socket socket_rc) (\<lambda>lfd.
     bindR (case ip of
              None \<Rightarrow> Inr INADDR_ANY
            | Some s \<Rightarrow> (case inet_pton s of (rc, a) \<Rightarrow>
                if rc \<le> 0 then Inl (Exited 1) else Inr a)) (\<lambda>addr.
     bindR (Bind bind_rc) (\<lambda>_.
       Inr (lfd, \<lparr>sin_family = AF_INET, sin_port = htons (word_of_int port), s_addr = addr\<rparr>))))"

end
