(* ===== verification/Wrap_Correct.thy ===== *)
theory Wrap_Correct
  imports Wrap
begin

text \<open>
  What the loops of \<open>socket/wrap.c\<close> deliver, in terms of the bytes that arrive before the connection
  ends or fails, however they are cut into chunks and however often the calls are interrupted.
\<close>

section \<open>The bytes of a script\<close>

text \<open>The bytes before the first failure that is not an interruption, and that failure.\<close>

fun avail :: "rd list \<Rightarrow> string" where
  "avail [] = []"
| "avail (RdErr e # k) = (if e = EINTR then avail k else [])"
| "avail (Data d # k) = (if d = [] then [] else d @ avail k)"

fun stop :: "rd list \<Rightarrow> errno option" where
  "stop [] = None"
| "stop (RdErr e # k) = (if e = EINTR then stop k else Some e)"
| "stop (Data d # k) = (if d = [] then None else stop k)"

lemma kread_got_avail:
  "kread n k = (Got d, k') \<Longrightarrow> avail k = d @ avail k' \<and> stop k' = stop k"
  by (cases "(n, k)" rule: kread.cases) (auto split: if_splits)

lemma kread_end: "kread n k = (End, k') \<Longrightarrow> 0 < n \<Longrightarrow> avail k = [] \<and> stop k = None \<and> k' = k"
  by (cases "(n, k)" rule: kread.cases) (auto split: if_splits)

text \<open>What a retried read returns.\<close>

definition read_spec :: "nat \<Rightarrow> rd list \<Rightarrow> rres \<times> rd list \<Rightarrow> bool" where
  "read_spec n k r \<longleftrightarrow>
     (case r of
        (Got d, k') \<Rightarrow> 0 < length d \<and> length d \<le> n \<and> avail k = d @ avail k' \<and> stop k' = stop k
      | (End, k') \<Rightarrow> avail k = [] \<and> stop k = None \<and> avail k' = [] \<and> stop k' = None
      | (Failed e, k') \<Rightarrow> avail k = [] \<and> stop k = Some e \<and> e \<noteq> EINTR)"

lemma read_again_spec: "0 < n \<Longrightarrow> read_spec n k (read_again n k)"
proof (induction n k rule: read_again.induct)
  case (1 n k)
  show ?case
  proof (cases "kread n k")
    case (Pair r k')
    show ?thesis
    proof (cases r)
      case (Got d)
      with Pair kread_got [of n k d k'] kread_got_avail [of n k d k'] show ?thesis
        by (subst read_again.simps) (simp add: read_spec_def)
    next
      case End
      with Pair kread_end [of n k k'] "1.prems" show ?thesis
        by (subst read_again.simps) (simp add: read_spec_def)
    next
      case (Failed e)
      with Pair have k: "k = RdErr e # k'" by (simp add: kread_fails)
      show ?thesis
      proof (cases "e = EINTR")
        case True
        from "1.IH" [OF Pair [symmetric] Failed True "1.prems"]
        have "read_spec n k' (read_again n k')" .
        moreover have "read_again n k = read_again n k'"
          using Pair Failed True by (subst read_again.simps) simp
        ultimately show ?thesis
          using k True by (auto simp: read_spec_def split: prod.splits rres.splits)
      next
        case False
        with Pair Failed k show ?thesis by (subst read_again.simps) (simp add: read_spec_def)
      qed
    qed
  qed
qed

section \<open>\<open>Readn\<close>\<close>

lemma readn_loop_result:
  assumes "i + nleft \<le> length mem" and "nleft \<le> n"
  shows "\<exists>k'. readn_loop mem (int i) nleft n k =
    Inr (if nleft \<le> length (avail k) \<or> stop k = None
         then int (n - nleft + length (take nleft (avail k))) else -1,
         overwrite mem i (take nleft (avail k)), k') \<and>
    (nleft \<le> length (avail k) \<or> stop k = None \<longrightarrow>
       avail k' = drop nleft (avail k) \<and> stop k' = stop k)"
  using assms
proof (induction mem "int i" nleft n k arbitrary: i rule: readn_loop.induct)
  case (1 mem nleft n k)
  show ?case
  proof (cases "nleft = 0")
    case True
    then show ?thesis by (subst readn_loop.simps) simp
  next
    case False
    obtain r k' where rk: "kread nleft k = (r, k')" by fastforce
    show ?thesis
    proof (cases r)
      case (Got d)
      note g = kread_got [OF rk [unfolded Got]] kread_got_avail [OF rk [unfolded Got]]
      let ?m = "overwrite mem i d"
      have st: "store mem (int i) d = Inr ?m" using g "1.prems" by (intro store_ok) simp
      have step: "readn_loop mem (int i) nleft n k =
          readn_loop ?m (int (i + length d)) (nleft - length d) n k'"
        using False rk Got st by (subst readn_loop.simps) simp
      have le: "nleft - length d \<le> n" "i + length d + (nleft - length d) \<le> length ?m"
        using "1.prems" g by simp_all
      from "1.hyps"(1) [OF _ rk [symmetric] Got, of "i + length d" ?m] False le
      obtain k2 where k2: "readn_loop ?m (int (i + length d)) (nleft - length d) n k' =
          Inr (if nleft - length d \<le> length (avail k') \<or> stop k' = None
               then int (n - (nleft - length d) + length (take (nleft - length d) (avail k'))) else -1,
               overwrite ?m (i + length d) (take (nleft - length d) (avail k')), k2)"
        "nleft - length d \<le> length (avail k') \<or> stop k' = None \<longrightarrow>
           avail k2 = drop (nleft - length d) (avail k') \<and> stop k2 = stop k'"
        by auto
      have "overwrite ?m (i + length d) (take (nleft - length d) (avail k')) =
          overwrite mem i (take nleft (avail k))"
        using g "1.prems" by (simp add: overwrite_overwrite)
      moreover have "n - (nleft - length d) + length (take (nleft - length d) (avail k')) =
          n - nleft + length (take nleft (avail k))"
        using g "1.prems" by simp
      ultimately show ?thesis using step k2 g by auto
    next
      case End
      with rk kread_end [of nleft k k'] False show ?thesis
        by (subst readn_loop.simps) simp
    next
      case (Failed e)
      with rk have k: "k = RdErr e # k'" by (simp add: kread_fails)
      show ?thesis
      proof (cases "e = EINTR")
        case True
        have step: "readn_loop mem (int i) nleft n k = readn_loop mem (int i) nleft n k'"
          using rk Failed True \<open>nleft \<noteq> 0\<close> by (subst readn_loop.simps) simp
        have eqs: "avail k = avail k'" "stop k = stop k'" using k True by simp_all
        show ?thesis
          unfolding step eqs using "1.hyps"(2) [OF _ rk [symmetric] Failed True, of i]
            \<open>nleft \<noteq> 0\<close> "1.prems" by simp
      next
        case False
        with rk Failed k \<open>nleft \<noteq> 0\<close> show ?thesis by (subst readn_loop.simps) simp
      qed
    qed
  qed
qed


section \<open>\<open>Writen\<close>\<close>

text \<open>
  What the kernel takes of \<open>n\<close> characters offered again and again: interruptions do not count, the first
  other failure, or a write of nothing, ends it.
\<close>

fun taken :: "nat \<Rightarrow> wr list \<Rightarrow> nat" where
  "taken n [] = n"
| "taken n (WrErr e # k) = (if n \<noteq> 0 \<and> e = EINTR then taken n k else 0)"
| "taken n (Took m # k) = (if n = 0 \<or> m = 0 then 0 else min m n + taken (n - min m n) k)"

definition no_failure :: "wr list \<Rightarrow> bool" where
  "no_failure k \<longleftrightarrow> (\<forall>x \<in> set k. case x of WrErr e \<Rightarrow> e = EINTR | Took m \<Rightarrow> 0 < m)"

lemma taken_le: "taken n k \<le> n"
  by (induction n k rule: taken.induct) auto

lemma taken_all: "no_failure k \<Longrightarrow> taken n k = n"
  by (induction n k rule: taken.induct) (auto simp: no_failure_def)

lemma writen_loop_wrote:
  "0 < length msg \<Longrightarrow> kwrite (length msg) k = (Wrote m, k') \<Longrightarrow> m \<noteq> 0 \<Longrightarrow>
   writen_loop sent msg n k = writen_loop (sent @ take m msg) (drop m msg) n k'"
  by (subst writen_loop.simps) simp

text \<open>\<open>Writen\<close> sends just that, and returns the length if it is everything, or else -1.\<close>

lemma writen_loop_result:
  "\<exists>k'. writen_loop sent msg n k =
     (if taken (length msg) k = length msg then int n else -1, sent @ take (taken (length msg) k) msg, k')"
proof (induction sent msg n k rule: writen_loop.induct)
  case (1 sent msg n k)
  show ?case
  proof (cases "msg = []")
    case True
    with taken_le [of 0 k] show ?thesis by (subst writen_loop.simps) simp
  next
    case False
    then have pos: "0 < length msg" by simp
    show ?thesis
    proof (cases k)
      case Nil
      with pos show ?thesis
        using "1.IH"(1) [OF pos _ refl, of "length msg" "[]"]
        by (subst writen_loop.simps) simp
    next
      case (Cons x k')
      show ?thesis
      proof (cases x)
        case (WrErr e)
        with Cons have rk: "kwrite (length msg) k = (WFailed e, k')" by simp
        show ?thesis
        proof (cases "e = EINTR")
          case True
          from "1.IH"(2) [OF pos rk [symmetric] refl True] pos rk True WrErr Cons show ?thesis
            by (subst writen_loop.simps) simp
        next
          case False
          with pos rk WrErr Cons show ?thesis by (subst writen_loop.simps) simp
        qed
      next
        case (Took m)
        let ?m = "min m (length msg)"
        from Took Cons have rk: "kwrite (length msg) k = (Wrote ?m, k')" by simp
        show ?thesis
        proof (cases "m = 0")
          case True
          with pos rk Took Cons show ?thesis by (subst writen_loop.simps) simp
        next
          case m: False
          then have "?m \<noteq> 0" using pos by simp
          from "1.IH"(1) [OF pos rk [symmetric] refl this] obtain k2 where
            j: "writen_loop (sent @ take ?m msg) (drop ?m msg) n k' =
              (if taken (length (drop ?m msg)) k' = length (drop ?m msg) then int n else -1,
               (sent @ take ?m msg) @ take (taken (length (drop ?m msg)) k') (drop ?m msg), k2)" by blast
          have "writen_loop sent msg n k = writen_loop (sent @ take ?m msg) (drop ?m msg) n k'"
            using writen_loop_wrote [OF pos rk \<open>?m \<noteq> 0\<close>] .
          moreover have "taken (length msg) k = ?m + taken (length msg - ?m) k'"
            using Took Cons m pos by simp
          ultimately show ?thesis using j by (intro exI [of _ k2]) (auto simp: take_add)
        qed
      qed
    qed
  qed
qed

section \<open>\<open>my_read\<close> and \<open>Readline\<close>\<close>

definition buffered :: "rl \<Rightarrow> string" where
  "buffered w = take (nat (read_cnt w)) (drop (nat (read_ptr w)) (read_buf w))"

text \<open>What a reader of descriptor \<open>fd\<close> will see.\<close>

definition upcoming :: "nat \<Rightarrow> rl \<Rightarrow> string" where
  "upcoming fd w = buffered w @ avail (kern w fd)"

definition rl_ok :: "rl \<Rightarrow> bool" where
  "rl_ok w \<longleftrightarrow> length (read_buf w) = 100 \<and>
     (0 < read_cnt w \<longrightarrow> 0 \<le> read_ptr w \<and> read_ptr w + read_cnt w \<le> 100)"

definition same_others :: "nat \<Rightarrow> rl \<Rightarrow> rl \<Rightarrow> bool" where
  "same_others fd w w' \<longleftrightarrow> (\<forall>fd'. fd' \<noteq> fd \<longrightarrow> kern w' fd' = kern w fd')"

lemma same_others_trans: "same_others fd w w' \<Longrightarrow> same_others fd w' w'' \<Longrightarrow> same_others fd w w''"
  by (simp add: same_others_def)

lemma deliver_result:
  assumes "rl_ok w" and "0 < read_cnt w"
  shows "\<exists>c cs. buffered w = c # cs \<and> arr_get (read_buf w) (read_ptr w) = Inr c \<and>
    buffered (w\<lparr>read_cnt := read_cnt w - 1, read_ptr := read_ptr w + 1\<rparr>) = cs \<and>
    rl_ok (w\<lparr>read_cnt := read_cnt w - 1, read_ptr := read_ptr w + 1\<rparr>)"
proof -
  let ?i = "nat (read_ptr w)"
  have b: "0 \<le> read_ptr w" "read_ptr w + read_cnt w \<le> 100" "length (read_buf w) = 100"
    using assms by (simp_all add: rl_ok_def)
  have i: "?i < length (read_buf w)" using b assms(2) by simp
  have n: "nat (read_cnt w) = Suc (nat (read_cnt w - 1))" using assms(2) by simp
  have s: "nat (read_ptr w + 1) = Suc ?i" using b(1) by simp
  have "buffered w = read_buf w ! ?i # take (nat (read_cnt w - 1)) (drop (Suc ?i) (read_buf w))"
    unfolding buffered_def n using i by (simp flip: Cons_nth_drop_Suc)
  with b assms(2) i s show ?thesis by (simp add: buffered_def rl_ok_def)
qed

lemma my_read_next:
  assumes ok: "rl_ok w" and up: "upcoming fd w = c # cs"
  shows "\<exists>w'. my_read fd w = Inr (1, Some c, w') \<and> rl_ok w' \<and> upcoming fd w' = cs \<and>
    stop (kern w' fd) = stop (kern w fd) \<and> same_others fd w w'"
proof (cases "read_cnt w \<le> 0")
  case False
  then have "0 < read_cnt w" by simp
  from deliver_result [OF ok this] False up show ?thesis
    by (auto simp: my_read_def upcoming_def same_others_def)
next
  case True
  then have "buffered w = []" by (simp add: buffered_def)
  with up have av: "avail (kern w fd) = c # cs" by (simp add: upcoming_def)
  obtain r k where rk: "read_again 100 (kern w fd) = (r, k)" by fastforce
  with read_again_spec [of 100 "kern w fd"] av obtain d where d: "r = Got d" "0 < length d"
    "length d \<le> 100" "avail (kern w fd) = d @ avail k" "stop k = stop (kern w fd)"
    by (cases r) (auto simp: read_spec_def)
  let ?b = "overwrite (read_buf w) 0 d"
  let ?w = "w\<lparr>read_cnt := int (length d), read_ptr := 0, read_buf := ?b, kern := (kern w)(fd := k)\<rparr>"
  have len: "length (read_buf w) = 100" using ok by (simp add: rl_ok_def)
  have st: "store (read_buf w) 0 d = Inr ?b" using d(3) len by (simp add: store_def)
  have ok1: "rl_ok ?w" using d(3) len by (simp add: rl_ok_def)
  have bd: "buffered ?w = d" by (simp add: buffered_def overwrite_def)
  obtain x xs where xs: "d = x # xs" using d(2) by (cases d) auto
  have x: "d = x # xs" "arr_get ?b 0 = Inr x"
    "buffered (?w\<lparr>read_cnt := int (length d) - 1, read_ptr := 1\<rparr>) = xs"
    "rl_ok (?w\<lparr>read_cnt := int (length d) - 1, read_ptr := 1\<rparr>)"
    using deliver_result [OF ok1] d(2) xs unfolding bd by simp_all
  have "my_read fd w = Inr (1, Some x, ?w\<lparr>read_cnt := int (length d) - 1, read_ptr := 1\<rparr>)"
    using True rk d(1) st x(2) by (simp add: my_read_def)
  with x d av show ?thesis by (auto simp: upcoming_def same_others_def)
qed

lemma my_read_stops:
  assumes ok: "rl_ok w" and up: "upcoming fd w = []"
  shows "\<exists>w'. my_read fd w = Inr (if stop (kern w fd) = None then 0 else -1, None, w') \<and> rl_ok w' \<and>
    same_others fd w w' \<and> buffered w' = [] \<and>
    (stop (kern w fd) = None \<longrightarrow> upcoming fd w' = [] \<and> stop (kern w' fd) = None)"
proof -
  have len: "length (read_buf w) = 100" using ok by (simp add: rl_ok_def)
  have "\<not> 0 < read_cnt w"
    using deliver_result [OF ok] up by (auto simp: upcoming_def)
  then have cnt: "read_cnt w \<le> 0" by simp
  obtain r k where rk: "read_again 100 (kern w fd) = (r, k)" by fastforce
  with read_again_spec [of 100 "kern w fd"] up show ?thesis
    using cnt len
    by (cases r) (auto simp: read_spec_def my_read_def upcoming_def buffered_def rl_ok_def same_others_def)
qed

text \<open>The line a reader gets: up to and including the line feed, at most \<open>m\<close> characters.\<close>

fun take_line :: "nat \<Rightarrow> string \<Rightarrow> string" where
  "take_line 0 s = []"
| "take_line (Suc m) [] = []"
| "take_line (Suc m) (c # s) = (if c = CHR 0x0A then [c] else c # take_line m s)"

lemma take_line_prefix: "\<exists>r. s = take_line m s @ r"
  by (induction m s rule: take_line.induct) auto

lemma take_line_found:
  "CHR 0x0A \<notin> set l \<Longrightarrow> length l < m \<Longrightarrow> take_line m (l @ CHR 0x0A # r) = l @ [CHR 0x0A]"
  by (induction l arbitrary: m; case_tac m) auto

lemma length_take_line: "length (take_line m s) \<le> m"
  by (induction m s rule: take_line.induct) auto


text \<open>The value \<open>Readline\<close> returns for a line of text \<open>l\<close> that starts at index \<open>i\<close>.\<close>

definition readline_value :: "nat \<Rightarrow> nat \<Rightarrow> nat \<Rightarrow> string \<Rightarrow> errno option \<Rightarrow> int" where
  "readline_value maxlen i m l st =
     (if CHR 0x0A \<in> set l then int (i + length l)
      else if length l = m then int maxlen
      else if st = None then int (i + length l) else -1)"

definition readline_post :: "nat \<Rightarrow> rl \<Rightarrow> nat \<Rightarrow> string \<Rightarrow> rl \<Rightarrow> bool" where
  "readline_post fd w m l w' \<longleftrightarrow>
     rl_ok w' \<and> same_others fd w w' \<and>
     (CHR 0x0A \<notin> set l \<and> length l \<noteq> m \<longrightarrow> buffered w' = []) \<and>
     (CHR 0x0A \<in> set l \<or> length l = m \<or> stop (kern w fd) = None \<longrightarrow>
        upcoming fd w' = drop (length l) (upcoming fd w) \<and> stop (kern w' fd) = stop (kern w fd))"

definition readline_text :: "nat \<Rightarrow> string \<Rightarrow> errno option \<Rightarrow> string" where
  "readline_text m l st =
     (if CHR 0x0A \<in> set l \<or> length l = m \<or> st = None then l @ [CHR 0x00] else l)"

lemma overwrite_two: "i + 1 < length mem \<Longrightarrow> (mem[i := c])[Suc i := d] = overwrite mem i [c, d]"
  using overwrite_overwrite [of i "[c]" mem "[d]"] by (simp add: overwrite_one)

lemma readline_loop_result:
  assumes "rl_ok w" and "i + m + 1 = maxlen" and "maxlen \<le> length mem"
    and "l = take_line m (upcoming fd w)"
  shows "\<exists>w'. readline_loop fd mem (int i) (i + 1) maxlen w =
      Inr (readline_value maxlen i m l (stop (kern w fd)),
           overwrite mem i (readline_text m l (stop (kern w fd))), w') \<and>
    readline_post fd w m l w'"
  using assms
proof (induction m arbitrary: i mem w l)
  case 0
  then have "readline_loop fd mem (int i) (i + 1) maxlen w =
      Inr (int maxlen, overwrite mem i [CHR 0x00], w)"
    by (subst readline_loop.simps) (simp add: overwrite_one)
  with 0 show ?case
    by (simp add: readline_value_def readline_text_def readline_post_def same_others_def)
next
  case (Suc m)
  have n: "i + 1 < maxlen" and i: "i < length mem" "i + 1 < length mem"
    using Suc.prems(2,3) by simp_all
  show ?case
  proof (cases "upcoming fd w")
    case Nil
    from my_read_stops [OF Suc.prems(1) Nil] obtain w' where
      r: "my_read fd w = Inr (if stop (kern w fd) = None then 0 else -1, None, w')" "rl_ok w'"
        "same_others fd w w'" "buffered w' = []"
        "stop (kern w fd) = None \<longrightarrow> upcoming fd w' = [] \<and> stop (kern w' fd) = None"
      by (elim exE conjE) (rule that)
    have l: "l = []" using Suc.prems(4) Nil by simp
    show ?thesis
    proof (cases "stop (kern w fd)")
      case None
      with r(1) n i have "readline_loop fd mem (int i) (i + 1) maxlen w =
          Inr (int i, overwrite mem i [CHR 0x00], w')"
        by (subst readline_loop.simps) (simp add: overwrite_one)
      with None r l Nil show ?thesis
        by (simp add: readline_value_def readline_text_def readline_post_def)
    next
      case (Some e)
      with r(1) n have "readline_loop fd mem (int i) (i + 1) maxlen w = Inr (-1, mem, w')"
        by (subst readline_loop.simps) simp
      with Some r l Nil show ?thesis
        by (simp add: readline_value_def readline_text_def readline_post_def)
    qed
  next
    case (Cons c cs)
    from my_read_next [OF Suc.prems(1) Cons] obtain w1 where
      r: "my_read fd w = Inr (1, Some c, w1)" "rl_ok w1" "upcoming fd w1 = cs"
        "stop (kern w1 fd) = stop (kern w fd)" "same_others fd w w1" by blast
    show ?thesis
    proof (cases "c = CHR 0x0A")
      case True
      have "readline_loop fd mem (int i) (i + 1) maxlen w =
          Inr (int (i + 1), overwrite mem i [c, CHR 0x00], w1)"
        using r(1) n i True overwrite_two [of i mem c "CHR 0x00"]
        by (subst readline_loop.simps) (simp add: nat_add_distrib)
      moreover have "l = [c]" using Suc.prems(4) Cons True by simp
      ultimately show ?thesis using r Cons True
        by (simp add: readline_value_def readline_text_def readline_post_def)
    next
      case False
      let ?l = "take_line m (upcoming fd w1)"
      have l: "l = c # ?l" using Suc.prems(4) Cons False r(3) by simp
      have step: "readline_loop fd mem (int i) (i + 1) maxlen w =
          readline_loop fd (mem[i := c]) (int (i + 1)) (i + 1 + 1) maxlen w1"
        using r(1) n i False by (subst readline_loop.simps) (simp add: add.commute)
      from Suc.IH [of w1 "i + 1" "mem[i := c]" ?l] r Suc.prems obtain w' where
        w': "readline_loop fd (mem[i := c]) (int (i + 1)) (i + 1 + 1) maxlen w1 =
          Inr (readline_value maxlen (i + 1) m ?l (stop (kern w fd)),
               overwrite (mem[i := c]) (i + 1) (readline_text m ?l (stop (kern w fd))), w')"
          "readline_post fd w1 m ?l w'" by auto
      have "readline_value maxlen (i + 1) m ?l (stop (kern w fd)) =
          readline_value maxlen i (Suc m) l (stop (kern w fd))"
        using False l by (simp add: readline_value_def)
      moreover have "overwrite (mem[i := c]) (i + 1) (readline_text m ?l (stop (kern w fd))) =
          overwrite mem i (readline_text (Suc m) l (stop (kern w fd)))"
        using False l i by (simp add: readline_text_def overwrite_Cons)
      moreover have "readline_post fd w (Suc m) l w'"
        using w'(2) l False r Cons same_others_trans [OF r(5)] by (auto simp: readline_post_def)
      ultimately show ?thesis using step w'(1) by auto
    qed
  qed
qed

lemma Readline_result:
  assumes "rl_ok w" and "0 < maxlen" and "maxlen \<le> length mem"
    and "l = take_line (maxlen - 1) (upcoming fd w)"
  shows "\<exists>w'. Readline fd mem maxlen w =
      Inr (readline_value maxlen 0 (maxlen - 1) l (stop (kern w fd)),
           overwrite mem 0 (readline_text (maxlen - 1) l (stop (kern w fd))), w') \<and>
    readline_post fd w (maxlen - 1) l w'"
  using readline_loop_result [of w 0 "maxlen - 1" maxlen mem l fd] assms by (simp add: Readline_def)

end
