(* ===== verification/Wrap_Props.thy ===== *)
theory Wrap_Props
  imports Wrap_Correct
begin

text \<open>
  The promises of \<open>socket/wrap.c\<close> to the servers and clients that use it, and the two surprises of
  \<open>Readline\<close>: its value when the buffer fills, and its buffer shared between descriptors.
\<close>

section \<open>Byte order\<close>

lemma htons_swaps: "uint (htons x) = uint x mod 256 * 256 + uint x div 256"
proof -
  let ?u = "uint x"
  have u: "0 \<le> ?u" "?u < 65536" using uint_lt2p [of x] by simp_all
  let ?a = "take_bit 16 (push_bit 8 ?u)" and ?b = "drop_bit 8 (take_bit 16 ?u)"
  have "uint (htons x) = or ?a ?b"
    by (simp add: htons_def unsigned_or_eq unsigned_push_bit_eq unsigned_drop_bit_eq)
  also have "\<dots> = ?a + ?b"
    by (rule disjunctive_add [symmetric]) (auto simp: bit_simps)
  also have "?b = ?u div 256" using u by (simp add: drop_bit_eq_div take_bit_eq_mod)
  also have "?a = ?u mod 256 * 256" using mult_mod_left [of ?u 256 256] by (simp add: push_bit_eq_mult take_bit_eq_mod)
  finally show ?thesis .
qed

section \<open>Properties\<close>

text \<open>C19: \<open>Readn\<close> collects exactly \<open>n\<close> bytes however they are cut into chunks and however often the
  reads are interrupted; it returns less only at the end of the stream, and -1 only when a read
  fails before \<open>n\<close> bytes have come. Nothing is lost unless it fails.\<close>

theorem Readn_collects:
  assumes "p + n \<le> length mem"
  shows "\<exists>k'. Readn mem (int p) n k =
    Inr (if n \<le> length (avail k) \<or> stop k = None then int (min n (length (avail k))) else -1,
         take p mem @ take n (avail k) @ drop (p + min n (length (avail k))) mem, k') \<and>
    (n \<le> length (avail k) \<or> stop k = None \<longrightarrow> avail k' = drop n (avail k) \<and> stop k' = stop k)"
proof -
  from readn_loop_result [OF assms order_refl, of k] obtain k' where k':
    "readn_loop mem (int p) n n k =
      Inr (if n \<le> length (avail k) \<or> stop k = None
           then int (n - n + length (take n (avail k))) else -1,
           overwrite mem p (take n (avail k)), k')"
    "n \<le> length (avail k) \<or> stop k = None \<longrightarrow> avail k' = drop n (avail k) \<and> stop k' = stop k"
    by (elim exE conjE) (rule that)
  show ?thesis
    by (rule exI [of _ k'], rule conjI [OF _ k'(2)])
      (simp add: Readn_def k'(1) overwrite_def min.commute)
qed

theorem Readn_collects_witness:
  "\<exists>k'. Readn (replicate 6 (CHR ''-'')) 0 5 [Data ''ab'', RdErr EINTR, Data ''cdef''] =
    Inr (5, ''abcde-'', k') \<and> avail k' = ''f''"
  using Readn_collects [of 0 5 "replicate 6 (CHR ''-'')" "[Data ''ab'', RdErr EINTR, Data ''cdef'']"]
  by (auto simp: numeral_eq_Suc)

text \<open>C39: \<open>Writen\<close> goes on through every interruption and every short write: when the kernel gives no other
  failing answer, the peer gets the whole text and the length is returned. When there is one before
  the end (an error, or a write of nothing), the peer has got what was taken up to it, and -1 is
  returned, unless that was everything.\<close>

theorem Writen_sends_all:
  "(no_failure k \<longrightarrow> (\<exists>k'. Writen msg k = (int (length msg), msg, k'))) \<and>
   (\<exists>k'. Writen msg k = (if taken (length msg) k = length msg then int (length msg) else -1,
      take (taken (length msg) k) msg, k'))"
  using writen_loop_result [of "[]" msg "length msg" k] taken_all [of k "length msg"]
  by (auto simp: Writen_def)

theorem Writen_sends_all_witness:
  "(\<exists>k'. Writen ''hello'' [WrErr EINTR, Took 2, WrErr EINTR, Took 1] = (5, ''hello'', k')) \<and>
   (\<exists>k'. Writen ''hello'' [Took 2, WrErr EINTR, Took 1, WrErr EAGAIN, Took 2] = (-1, ''hel'', k'))"
proof -
  have "no_failure [WrErr EINTR, Took 2, WrErr EINTR, Took 1]" by (simp add: no_failure_def)
  with Writen_sends_all [of "[WrErr EINTR, Took 2, WrErr EINTR, Took 1]" "''hello''"]
    Writen_sends_all [of "[Took 2, WrErr EINTR, Took 1, WrErr EAGAIN, Took 2]" "''hello''"]
  show ?thesis by (simp add: eval_nat_numeral)
qed

text \<open>a single \<open>Write\<close> retries interruptions only: it may send just the front of the text, and then
  says how much.\<close>

theorem Write_may_be_short:
  "\<exists>n m k'. Write msg k = (n, take m msg, k') \<and>
     (n = int m \<and> m \<le> length msg \<or> n = -1 \<and> m = 0)"
proof (induction msg k rule: Write.induct)
  case (1 msg k)
  obtain r k' where rk: "kwrite (length msg) k = (r, k')" by fastforce
  show ?case
  proof (cases r)
    case (Wrote m)
    with rk kwrite_wrote [of "length msg" k m k'] have "Write msg k = (int m, take m msg, k')" "m \<le> length msg"
      by (subst Write.simps, simp_all)
    then show ?thesis by blast
  next
    case (WFailed e)
    show ?thesis
    proof (cases "e = EINTR")
      case True
      from 1 [OF rk [symmetric] WFailed True] rk WFailed True show ?thesis
        by (subst Write.simps) simp
    next
      case False
      with rk WFailed have "Write msg k = (-1, take 0 msg, k')" by (subst Write.simps) simp
      then show ?thesis by blast
    qed
  qed
qed

text \<open>C18: \<open>Readline\<close> with room for the line returns the number of characters of the next line with its
  line feed, stores it terminated, and leaves the rest of the stream for the next call; the other
  descriptors are untouched.\<close>

theorem Readline_returns_line:
  assumes "rl_ok w" and "0 < maxlen" and "maxlen \<le> length mem"
    and "upcoming fd w = line @ CHR 0x0A # rest" and "CHR 0x0A \<notin> set line"
    and "length line + 1 < maxlen"
  shows "\<exists>w'. Readline fd mem maxlen w =
      Inr (int (length line + 1), line @ CHR 0x0A # CHR 0x00 # drop (length line + 2) mem, w') \<and>
    rl_ok w' \<and> upcoming fd w' = rest \<and> same_others fd w w'"
proof -
  from assms have l: "take_line (maxlen - 1) (upcoming fd w) = line @ [CHR 0x0A]"
    by (simp add: take_line_found)
  from Readline_result [OF assms(1-3) refl, of fd] obtain w' where
    "Readline fd mem maxlen w = Inr (int (length line + 1),
       overwrite mem 0 (line @ [CHR 0x0A, CHR 0x00]), w')"
    "readline_post fd w (maxlen - 1) (line @ [CHR 0x0A]) w'"
    unfolding l readline_value_def readline_text_def by auto
  with assms(4) show ?thesis by (simp add: readline_post_def overwrite_def)
qed

text \<open>Two descriptors; the static buffer holds what was read ahead from descriptor 4.\<close>

definition two_fds :: rl where
  "two_fds = \<lparr>read_cnt = 4, read_ptr = 96, read_buf = replicate 96 (CHR ''x'') @ ''hi'' @ [CHR 0x0A] @ ''a'',
     kern = (\<lambda>fd. if fd = 4 then [Data ''bc''] else [Data ''ZZ''])\<rparr>"

lemma two_fds_ok: "rl_ok two_fds"
  by (simp add: rl_ok_def two_fds_def)

lemma two_fds_upcoming:
  "upcoming fd two_fds = ''hi'' @ CHR 0x0A # ''a'' @ (if fd = 4 then ''bc'' else ''ZZ'')"
proof -
  have "buffered two_fds = ''hi'' @ [CHR 0x0A] @ ''a''"
    by (simp add: buffered_def two_fds_def)
  then show ?thesis by (simp add: upcoming_def two_fds_def)
qed

theorem Readline_returns_line_witness:
  "\<exists>w'. Readline 4 (replicate 8 (CHR ''-'')) 8 two_fds =
      Inr (3, ''hi'' @ CHR 0x0A # CHR 0x00 # ''----'', w') \<and> upcoming 4 w' = ''abc''"
  using Readline_returns_line [OF two_fds_ok, of 8 "replicate 8 (CHR ''-'')" 4 "''hi''" "''abc''"]
  by (auto simp: two_fds_upcoming numeral_eq_Suc)

text \<open>when the buffer fills before a line feed comes, \<open>Readline\<close> stores \<open>maxlen - 1\<close> characters
  but returns \<open>maxlen\<close>: one more than the string it stored has.\<close>

theorem Readline_full_buffer:
  assumes "rl_ok w" and "0 < maxlen" and "maxlen \<le> length mem"
    and "upcoming fd w = line @ rest" and "CHR 0x0A \<notin> set line" and "length line + 1 = maxlen"
  shows "\<exists>w'. Readline fd mem maxlen w =
      Inr (int (length line + 1), line @ CHR 0x00 # drop (length line + 1) mem, w') \<and>
    upcoming fd w' = rest"
proof -
  have "CHR 0x0A \<notin> set l \<Longrightarrow> take_line (length l) (l @ r) = l" for l r
    by (induction l) auto
  with assms(4-6) have l: "take_line (maxlen - 1) (upcoming fd w) = line" by auto
  from Readline_result [OF assms(1-3) refl, of fd] obtain w' where
    "Readline fd mem maxlen w = Inr (int maxlen, overwrite mem 0 (line @ [CHR 0x00]), w')"
    "readline_post fd w (maxlen - 1) line w'"
    unfolding l readline_value_def readline_text_def using assms(5,6) by auto
  with assms(4,6) show ?thesis by (auto simp: readline_post_def overwrite_def)
qed

theorem Readline_full_buffer_witness:
  "\<exists>w'. Readline 4 (replicate 3 (CHR ''-'')) 3 two_fds = Inr (3, ''hi'' @ [CHR 0x00], w')"
  using Readline_full_buffer [OF two_fds_ok, of 3 "replicate 3 (CHR ''-'')" 4 "''hi''"
      "CHR 0x0A # ''abc''"]
  by (auto simp: two_fds_upcoming numeral_eq_Suc)

text \<open>the read-ahead buffer is not kept per descriptor: what \<open>my_read\<close> has read ahead from one
  descriptor is delivered to the next caller, whichever descriptor it asks for.\<close>

theorem my_read_mixes_descriptors:
  assumes "rl_ok w" and "0 < read_cnt w"
  shows "\<exists>w'. my_read fd w = Inr (1, Some (hd (buffered w)), w') \<and>
    my_read fd' w = my_read fd w \<and> kern w' = kern w \<and> buffered w' = tl (buffered w)"
  using deliver_result [OF assms] assms(2) by (auto simp: my_read_def)

theorem my_read_mixes_descriptors_witness:
  "\<exists>w'. my_read 9 two_fds = Inr (1, Some (CHR ''h''), w')"
proof -
  have "buffered two_fds = ''hi'' @ [CHR 0x0A] @ ''a''" "0 < read_cnt two_fds"
    by (simp_all add: buffered_def two_fds_def)
  with my_read_mixes_descriptors [OF two_fds_ok, of 9] show ?thesis by auto
qed

text \<open>\<open>tcp4bind\<close> binds the port in network byte order to the given address or to every address;
  it ends the process when the socket, the address or the binding fails.\<close>

theorem tcp4bind_outcome:
  "tcp4bind socket_rc pton bind_rc port ip =
    (if socket_rc < 0 then Inl (Exited (-1))
     else if (\<exists>s. ip = Some s \<and> fst (pton s) \<le> 0) then Inl (Exited 1)
     else if bind_rc < 0 then Inl (Exited (-1))
     else Inr (socket_rc,
       \<lparr>sin_family = 2, sin_port = htons (word_of_int port),
        s_addr = (case ip of None \<Rightarrow> 0 | Some s \<Rightarrow> snd (pton s))\<rparr>)) \<and>
   uint (htons x) = uint x mod 256 * 256 + uint x div 256"
  using htons_swaps [of x]
  by (auto simp: tcp4bind_def Socket_def Bind_def perr_exit_def AF_INET_def INADDR_ANY_def
      split: option.splits prod.splits)

end
