(* ===== verification/Lock.thy ===== *)
theory Lock
  imports LinkList
begin

text \<open>
  \<open>pipe/lock.c\<close>, its first two demonstrations (the third is in theory \<open>Semaphore\<close>). Writers and
  readers share a counter under a read-write lock; producers and consumers share a linked list
  under a mutex with a condition variable. A region under the mutex is one step; the parts of \<open>producer\<close> and
  \<open>consumer\<close> outside it (the signal, \<open>list_show\<close>, the use of the element taken) are steps of their
  own, \<open>list_show\<close> one step per element.
\<close>

section \<open>The read-write lock\<close>

definition thread_write :: "int \<Rightarrow> int res" where
  "thread_write n_number = bindR (c_add n_number 1) (\<lambda>cur. Inr cur)"

definition thread_read :: "int \<Rightarrow> int" where
  "thread_read n_number = n_number"

text \<open>
  \<open>testRwlock\<close>: an entry of \<open>thread\<close> is empty until its thread has been created. The result is the
  list of threads joined; \<open>ok\<close> says which creations succeed.
\<close>

fun rw_create :: "(nat \<Rightarrow> bool) \<Rightarrow> nat \<Rightarrow> nat \<Rightarrow> nat \<Rightarrow> nat option list \<Rightarrow> nat option list option res" where
  "rw_create ok off i 0 th = Inr (Some th)"
| "rw_create ok off i (Suc n) th =
     (if ok i
      then bindR (arr_set th (int (off + i)) (Some i)) (\<lambda>th'. rw_create ok off (Suc i) n th')
      else Inr None)"

fun rw_join :: "nat option list \<Rightarrow> nat list res" where
  "rw_join [] = Inr []"
| "rw_join (None # th) = Inl Uninitialised"
| "rw_join (Some t # th) = bindR (rw_join th) (\<lambda>ts. Inr (t # ts))"

definition testRwlock :: "(nat \<Rightarrow> bool) \<Rightarrow> nat list option res" where
  "testRwlock ok =
     bindR (rw_create ok 0 0 3 (replicate 8 None)) (\<lambda>r1.
       case r1 of None \<Rightarrow> Inr None
       | Some th1 \<Rightarrow> bindR (rw_create ok 3 3 2 th1) (\<lambda>r2.
           case r2 of None \<Rightarrow> Inr None
           | Some th2 \<Rightarrow> bindR (rw_join th2) (\<lambda>ts. Inr (Some ts))))"

section \<open>Producers and consumers under the mutex\<close>

text \<open>
  A producer is at the top of its loop, about to signal, about to start \<open>list_show\<close>, or inside it
  at the node \<open>P\<close>. A consumer is at the top of its loop, waiting, woken, or holds the node it took.
\<close>

datatype ppos = PTop | PSignal | PShow | PAt ptr

datatype cpos = CTop | CWait | CWoken | CGot nat

text \<open>
  \<open>lock_fault\<close> is a fault while the mutex is held or of the consumer's own node, \<open>show_fault\<close> one of
  the unprotected \<open>list_show\<close>. \<open>made\<close> and \<open>eaten\<close> count the elements entered and consumed.
\<close>

record lk =
  lk_heap :: heap
  lk_list :: ptr
  lk_prod :: "ppos list"
  lk_cons :: "cpos list"
  lock_fault :: "c_error option"
  show_fault :: "c_error option"
  made :: nat
  eaten :: nat

text \<open>The producer's section; the return value of \<open>list_tail_insert\<close> is ignored.\<close>

definition produce :: "nat \<Rightarrow> lk \<Rightarrow> lk option" where
  "produce i s =
     (case list_tail_insert (lk_heap s) (lk_list s) 10 of
        None \<Rightarrow> None
      | Some (Inl e) \<Rightarrow> Some (s\<lparr>lock_fault := Some e\<rparr>)
      | Some (Inr (rc, h)) \<Rightarrow>
          Some (s\<lparr>lk_heap := h, lk_prod := (lk_prod s)[i := PSignal],
                  made := (if rc = 0 then Suc (made s) else made s)\<rparr>))"

definition consume_poo :: "nat \<Rightarrow> lk \<Rightarrow> lk option" where
  "consume_poo j s =
     (case list_poo (lk_heap s) (lk_list s) of
        None \<Rightarrow> None
      | Some (Inl e) \<Rightarrow> Some (s\<lparr>lock_fault := Some e\<rparr>)
      | Some (Inr (v, h)) \<Rightarrow>
          Some (s\<lparr>lk_heap := h, lk_cons := (lk_cons s)[j := (case v of None \<Rightarrow> CTop | Some t \<Rightarrow> CGot t)]\<rparr>))"

definition consume :: "nat \<Rightarrow> lk \<Rightarrow> lk option" where
  "consume j s =
     (case listEmpty (lk_heap s) (lk_list s) of
        Inl e \<Rightarrow> Some (s\<lparr>lock_fault := Some e\<rparr>)
      | Inr r \<Rightarrow> if r = 0 then Some (s\<lparr>lk_cons := (lk_cons s)[j := CWait]\<rparr>)
                 else consume_poo j s)"

text \<open>The consumer prints the value of its node and frees it.\<close>

definition consume_use :: "nat \<Rightarrow> nat \<Rightarrow> lk \<Rightarrow> lk option" where
  "consume_use j t s =
     Some (case bindR (node_at (lk_heap s) (Some t)) (\<lambda>_. free_node (lk_heap s) (Some t)) of
             Inl e \<Rightarrow> s\<lparr>lock_fault := Some e\<rparr>
           | Inr h \<Rightarrow> s\<lparr>lk_heap := h, lk_cons := (lk_cons s)[j := CTop], eaten := Suc (eaten s)\<rparr>)"

definition lk_signal :: "nat option \<Rightarrow> cpos list \<Rightarrow> cpos list option" where
  "lk_signal k cs =
     (case k of
        None \<Rightarrow> if CWait \<in> set cs then None else Some cs
      | Some j \<Rightarrow> if j < length cs \<and> cs ! j = CWait then Some (cs[j := CWoken]) else None)"

text \<open>One read of \<open>list_show\<close>: of the header, or of the node it has come to.\<close>

definition show_head :: "nat \<Rightarrow> lk \<Rightarrow> lk" where
  "show_head i s =
     (case node_at (lk_heap s) (lk_list s) of
        Inl e \<Rightarrow> s\<lparr>show_fault := Some e\<rparr>
      | Inr n \<Rightarrow> s\<lparr>lk_prod := (lk_prod s)[i := PAt (nxt n)]\<rparr>)"

definition show_at :: "nat \<Rightarrow> ptr \<Rightarrow> lk \<Rightarrow> lk" where
  "show_at i P s =
     (case node_at (lk_heap s) P of
        Inl e \<Rightarrow> s\<lparr>show_fault := Some e\<rparr>
      | Inr n \<Rightarrow> s\<lparr>lk_prod := (lk_prod s)[i := (if nxt n \<noteq> None then PAt (nxt n) else PTop)]\<rparr>)"

datatype lk_event =
    LProduce nat
  | LSignal nat "nat option"
  | LShow nat
  | LConsume nat
  | LSpurious nat
  | LUse nat

fun lk_event_exec :: "lk_event \<Rightarrow> lk \<Rightarrow> lk option" where
  "lk_event_exec (LProduce i) s =
     (if i < length (lk_prod s) \<and> lk_prod s ! i = PTop then produce i s else None)"
| "lk_event_exec (LSignal i k) s =
     (if i < length (lk_prod s) \<and> lk_prod s ! i = PSignal
      then (case lk_signal k (lk_cons s) of
              None \<Rightarrow> None
            | Some cs \<Rightarrow> Some (s\<lparr>lk_cons := cs, lk_prod := (lk_prod s)[i := PShow]\<rparr>))
      else None)"
| "lk_event_exec (LShow i) s =
     (if i < length (lk_prod s)
      then (case lk_prod s ! i of
              PShow \<Rightarrow> Some (show_head i s)
            | PAt P \<Rightarrow> Some (show_at i P s)
            | _ \<Rightarrow> None) else None)"
| "lk_event_exec (LConsume j) s =
     (if j < length (lk_cons s)
      then (case lk_cons s ! j of
              CTop \<Rightarrow> consume j s
            | CWoken \<Rightarrow> consume_poo j s
            | _ \<Rightarrow> None) else None)"
| "lk_event_exec (LSpurious j) s =
     (if j < length (lk_cons s) \<and> lk_cons s ! j = CWait
      then Some (s\<lparr>lk_cons := (lk_cons s)[j := CWoken]\<rparr>) else None)"
| "lk_event_exec (LUse j) s =
     (if j < length (lk_cons s)
      then (case lk_cons s ! j of CGot t \<Rightarrow> consume_use j t s | _ \<Rightarrow> None) else None)"

definition lk_exec :: "lk_event \<Rightarrow> lk \<Rightarrow> lk option" where
  "lk_exec e s = (if lock_fault s = None \<and> show_fault s = None then lk_event_exec e s else None)"

fun lk_run :: "lk_event list \<Rightarrow> lk \<Rightarrow> lk option" where
  "lk_run [] s = Some s"
| "lk_run (e # es) s = (case lk_exec e s of None \<Rightarrow> None | Some s' \<Rightarrow> lk_run es s')"

inductive lk_reachable :: "lk \<Rightarrow> lk \<Rightarrow> bool" for s0 where
  lk_start: "lk_reachable s0 s0"
| lk_more: "lk_reachable s0 s \<Longrightarrow> lk_exec e s = Some s' \<Longrightarrow> lk_reachable s0 s'"

text \<open>
  \<open>testThreadMutex\<close> after its creations: a fresh list, \<open>np\<close> producers and \<open>nc\<close> consumers. \<open>listCreate\<close>
  is not checked for failure.
\<close>

definition testThreadMutex :: "nat \<Rightarrow> nat \<Rightarrow> heap \<Rightarrow> lk res" where
  "testThreadMutex np nc h =
     bindR (listCreate h) (\<lambda>(H, h'). Inr
       \<lparr>lk_heap = h', lk_list = H, lk_prod = replicate np PTop, lk_cons = replicate nc CTop,
        lock_fault = None, show_fault = None, made = 0, eaten = 0\<rparr>)"

end
