(* ===== verification/Lock_Correct.thy ===== *)
theory Lock_Correct
  imports Lock LinkList_Correct
begin

text \<open>
  What the mutex of \<open>pipe/lock.c\<close> guarantees: the list stays well formed, an element that a consumer
  has taken is its own, every element is in the list, in a consumer's hands or consumed, and no
  wake-up is lost.
\<close>

text \<open>The nodes in the consumers' hands.\<close>

fun got :: "cpos \<Rightarrow> nat multiset" where
  "got (CGot t) = {#t#}"
| "got _ = {#}"

definition hands :: "cpos list \<Rightarrow> nat multiset" where
  "hands cs = sum_list (map got cs)"

text \<open>They are live, off the list and different from each other.\<close>

definition hands_ok :: "heap \<Rightarrow> ptr \<Rightarrow> (nat \<times> int) list \<Rightarrow> nat multiset \<Rightarrow> bool" where
  "hands_ok h H ns M \<longleftrightarrow>
     (\<forall>t. count M t \<le> 1) \<and>
     (\<forall>t \<in># M. t \<in> dom (cells h) \<and> t \<notin> fst ` set ns \<and> H \<noteq> Some t)"

definition coming :: "cpos \<Rightarrow> bool" where
  "coming c \<longleftrightarrow> c = CTop \<or> c = CWoken"

text \<open>A sleeping consumer beside an element: a signal or an awake consumer is on its way.\<close>

definition calls_ok :: "nat \<Rightarrow> ppos list \<Rightarrow> cpos list \<Rightarrow> bool" where
  "calls_ok n ps cs \<longleftrightarrow>
     count_where (\<lambda>c. c = CWait) cs = 0 \<or>
     n \<le> count_where coming cs + count_where (\<lambda>p. p = PSignal) ps"

definition lk_inv :: "lk \<Rightarrow> bool" where
  "lk_inv s \<longleftrightarrow>
     lock_fault s = None \<and>
     (\<exists>ns. list_at (lk_heap s) (lk_list s) ns \<and> hands_ok (lk_heap s) (lk_list s) ns (hands (lk_cons s)) \<and>
        made s = length ns + size (hands (lk_cons s)) + eaten s \<and>
        calls_ok (length ns) (lk_prod s) (lk_cons s))"

lemma coming_simps [simp]:
  "coming CTop" "coming CWoken" "\<not> coming CWait" "\<not> coming (CGot t)"
  by (simp_all add: coming_def)

section \<open>Moves of one thread\<close>

lemma hands_move:
  "j < length cs \<Longrightarrow> hands (cs[j := c]) + got (cs ! j) = hands cs + got c"
  unfolding hands_def by (rule sum_list_map_update)

lemma hands_same: "j < length cs \<Longrightarrow> got c = got (cs ! j) \<Longrightarrow> hands (cs[j := c]) = hands cs"
  using hands_move [of j cs c] by simp

lemma hands_ok_take:
  assumes "hands_ok h H (ns @ [(t, w)]) M"
    and "dom (cells h') = dom (cells h)" "t \<in> dom (cells h)" "t \<notin> fst ` set ns" "H \<noteq> Some t"
  shows "hands_ok h' H ns (add_mset t M)"
proof -
  have "t \<notin># M" using assms(1) by (auto simp: hands_ok_def)
  then have "count M t = 0" by (simp add: not_in_iff)
  with assms show ?thesis by (auto simp: hands_ok_def)
qed

lemma hands_ok_insert:
  assumes "hands_ok h H ns M" "dom (cells h') = insert b (dom (cells h))" "b \<notin> dom (cells h)"
  shows "hands_ok h' H (ns @ [(b, v)]) M"
  using assms by (auto simp: hands_ok_def)

lemma hands_ok_drop:
  assumes "hands_ok h H ns (add_mset t M)"
  shows "hands_ok (h\<lparr>cells := (cells h)(t := None)\<rparr>) H ns M"
proof -
  have le: "count (add_mset t M) u \<le> 1" for u using assms by (simp add: hands_ok_def)
  from le [of t] have "t \<notin># M" by (simp add: not_in_iff)
  moreover have "count M u \<le> 1" for u using le [of u] by (cases "u = t") simp_all
  ultimately show ?thesis using assms by (auto simp: hands_ok_def)
qed

lemma calls_ok_move:
  assumes "calls_ok n ps cs" "j < length cs" "c \<noteq> CWait" "coming (cs ! j) \<longrightarrow> coming c"
  shows "calls_ok n ps (cs[j := c])"
  using assms count_where_update [OF assms(2), of "\<lambda>c. c = CWait" c]
    count_where_update [OF assms(2), of coming c]
  by (auto simp: calls_ok_def split: if_splits)

lemma calls_ok_take:
  assumes "calls_ok (Suc n) ps cs" "j < length cs" "coming (cs ! j)"
  shows "calls_ok n ps (cs[j := CGot t])"
  using assms count_where_update [OF assms(2), of "\<lambda>c. c = CWait" "CGot t"]
    count_where_update [OF assms(2), of coming "CGot t"]
  by (auto simp: calls_ok_def split: if_splits)

lemma calls_ok_empty [simp]: "calls_ok 0 ps cs"
  by (simp add: calls_ok_def)

lemma calls_ok_produce:
  assumes "calls_ok n ps cs" "i < length ps" "ps ! i \<noteq> PSignal" "m \<le> Suc n"
  shows "calls_ok m (ps[i := PSignal]) cs"
  using assms count_where_update [OF assms(2), of "\<lambda>p. p = PSignal" PSignal]
  by (auto simp: calls_ok_def)

lemma calls_ok_signal:
  assumes "calls_ok n ps cs" "i < length ps" "ps ! i = PSignal" "lk_signal k cs = Some cs'" "p \<noteq> PSignal"
  shows "calls_ok n (ps[i := p]) cs'"
proof (cases k)
  case None
  with assms(4) have "cs' = cs" "CWait \<notin> set cs" by (auto simp: lk_signal_def split: if_splits)
  moreover from this(2) have "count_where (\<lambda>c. c = CWait) cs = 0"
    by (auto simp: count_where_def filter_empty_conv)
  ultimately show ?thesis by (simp add: calls_ok_def)
next
  case (Some j)
  with assms(4) have j: "j < length cs" "cs ! j = CWait" "cs' = cs[j := CWoken]"
    by (auto simp: lk_signal_def split: if_splits)
  with assms count_where_update [OF j(1), of "\<lambda>c. c = CWait" CWoken]
    count_where_update [OF j(1), of coming CWoken]
    count_where_update [OF assms(2), of "\<lambda>p. p = PSignal" p]
  show ?thesis by (auto simp: calls_ok_def)
qed

lemma lk_signal_hands:
  assumes "lk_signal k cs = Some cs'"
  shows "hands cs' = hands cs"
proof (cases k)
  case None
  with assms show ?thesis by (auto simp: lk_signal_def split: if_splits)
next
  case (Some j)
  with assms have j: "j < length cs" "cs ! j = CWait" "cs' = cs[j := CWoken]"
    by (auto simp: lk_signal_def split: if_splits)
  then show ?thesis by (simp add: hands_same)
qed

lemma calls_ok_quiet:
  "calls_ok n ps cs \<Longrightarrow> ps ! i \<noteq> PSignal \<Longrightarrow> p \<noteq> PSignal \<Longrightarrow> calls_ok n (ps[i := p]) cs"
  using count_where_update [of i ps "\<lambda>p. p = PSignal" p]
  by (cases "i < length ps") (auto simp: calls_ok_def list_update_beyond)

section \<open>The events\<close>

lemma lk_invE:
  assumes "lk_inv s"
  obtains ns where "lock_fault s = None" "list_at (lk_heap s) (lk_list s) ns"
    "hands_ok (lk_heap s) (lk_list s) ns (hands (lk_cons s))"
    "made s = length ns + size (hands (lk_cons s)) + eaten s"
    "calls_ok (length ns) (lk_prod s) (lk_cons s)"
  using assms by (auto simp: lk_inv_def)

lemma produce_inv:
  assumes inv: "lk_inv s" and i: "i < length (lk_prod s)" "lk_prod s ! i = PTop"
    and ex: "produce i s = Some s'"
  shows "lk_inv s'"
proof -
  from inv obtain ns where s: "lock_fault s = None" "list_at (lk_heap s) (lk_list s) ns"
    "hands_ok (lk_heap s) (lk_list s) ns (hands (lk_cons s))"
    "made s = length ns + size (hands (lk_cons s)) + eaten s"
    "calls_ok (length ns) (lk_prod s) (lk_cons s)" by (rule lk_invE)
  let ?h = "lk_heap s" and ?H = "lk_list s"
  show ?thesis
  proof (cases "moom ?h (brk ?h)")
    case True
    let ?h' = "?h\<lparr>brk := Suc (brk ?h)\<rparr>"
    from tail_insert_no_memory [OF s(2) True, of 10] have
      r: "list_tail_insert ?h ?H 10 = returns (-1, ?h')" "list_at ?h' ?H ns" by simp_all
    with ex have s': "s' = s\<lparr>lk_heap := ?h', lk_prod := (lk_prod s)[i := PSignal]\<rparr>"
      by (simp add: produce_def returns_def)
    moreover have "hands_ok ?h' ?H ns (hands (lk_cons s))" using s(3) by (simp add: hands_ok_def)
    ultimately show ?thesis
      using s r(2) calls_ok_produce [OF s(5) i(1), of "length ns"] i(2) by (auto simp: lk_inv_def)
  next
    case False
    from tail_insert_result [OF s(2) False, of 10] obtain h' where
      r: "list_tail_insert ?h ?H 10 = returns (0, h')" "list_at h' ?H (ns @ [(brk ?h, 10)])"
        "dom (cells h') = insert (brk ?h) (dom (cells ?h))" by blast
    from r(1) ex have s': "s' = s\<lparr>lk_heap := h', lk_prod := (lk_prod s)[i := PSignal], made := Suc (made s)\<rparr>"
      by (simp add: produce_def returns_def)
    have "heap_ok ?h" using s(2) by (simp add: list_at_def)
    then have "brk ?h \<notin> dom (cells ?h)" by (auto simp: heap_ok_def)
    from hands_ok_insert [OF s(3) r(3) this] r(2) s' s(1,4) i(2)
      calls_ok_produce [OF s(5) i(1), of "Suc (length ns)"]
    show ?thesis by (auto simp: lk_inv_def)
  qed
qed

lemma consume_poo_inv:
  assumes inv: "lk_inv s" and j: "j < length (lk_cons s)" "coming (lk_cons s ! j)"
    and ex: "consume_poo j s = Some s'"
  shows "lk_inv s'"
proof -
  from inv obtain ns where s: "lock_fault s = None" "list_at (lk_heap s) (lk_list s) ns"
    "hands_ok (lk_heap s) (lk_list s) ns (hands (lk_cons s))"
    "made s = length ns + size (hands (lk_cons s)) + eaten s"
    "calls_ok (length ns) (lk_prod s) (lk_cons s)" by (rule lk_invE)
  let ?h = "lk_heap s" and ?H = "lk_list s" and ?cs = "lk_cons s"
  have ng: "got (?cs ! j) = {#}" using j(2) by (auto simp: coming_def)
  show ?thesis
  proof (cases ns rule: rev_cases)
    case Nil
    with s(2) ex have s': "s' = s\<lparr>lk_cons := ?cs[j := CTop]\<rparr>"
      by (simp add: consume_poo_def poo_empty returns_def)
    have "hands (?cs[j := CTop]) = hands ?cs" using j(1) ng by (intro hands_same) simp_all
    with s' s Nil show ?thesis by (auto simp: lk_inv_def)
  next
    case (snoc ms x)
    obtain t w where x: "x = (t, w)" by (cases x)
    from poo_result [of ?h ?H ms t w] s(2) snoc x obtain h' where
      r: "list_poo ?h ?H = returns (Some t, h')" "list_at h' ?H ms"
        "cells h' t = Some \<lparr>data = w, nxt = None\<rparr>" "t \<notin> fst ` set ms" "?H \<noteq> Some t"
        "dom (cells h') = dom (cells ?h)" by auto
    from r(1) ex have s': "s' = s\<lparr>lk_heap := h', lk_cons := ?cs[j := CGot t]\<rparr>"
      by (simp add: consume_poo_def returns_def)
    have "t \<in> dom (cells ?h)" using r(3,6) by blast
    with hands_ok_take [of ?h ?H ms t w "hands ?cs" h'] s(3) snoc x r
    have "hands_ok h' ?H ms (add_mset t (hands ?cs))" by simp
    moreover have "hands (?cs[j := CGot t]) = add_mset t (hands ?cs)"
      using hands_move [OF j(1), of "CGot t"] ng by simp
    moreover have "calls_ok (length ms) (lk_prod s) (?cs[j := CGot t])"
      using s(5) snoc j by (intro calls_ok_take) simp_all
    ultimately show ?thesis using s' s(1,4) snoc r(2) by (auto simp: lk_inv_def)
  qed
qed

lemma consume_inv:
  assumes inv: "lk_inv s" and j: "j < length (lk_cons s)" "lk_cons s ! j = CTop"
    and ex: "consume j s = Some s'"
  shows "lk_inv s'"
proof -
  from inv obtain ns where s: "lock_fault s = None" "list_at (lk_heap s) (lk_list s) ns"
    "hands_ok (lk_heap s) (lk_list s) ns (hands (lk_cons s))"
    "made s = length ns + size (hands (lk_cons s)) + eaten s"
    "calls_ok (length ns) (lk_prod s) (lk_cons s)" by (rule lk_invE)
  show ?thesis
  proof (cases "ns = []")
    case False
    with ex s(2) have "consume_poo j s = Some s'" by (simp add: consume_def listEmpty_eq)
    with j show ?thesis by (intro consume_poo_inv [OF inv j(1)]) simp_all
  next
    case True
    with ex s(2) have s': "s' = s\<lparr>lk_cons := (lk_cons s)[j := CWait]\<rparr>"
      by (simp add: consume_def listEmpty_eq)
    have "hands ((lk_cons s)[j := CWait]) = hands (lk_cons s)"
      using j by (intro hands_same) simp_all
    with s' s True show ?thesis by (auto simp: lk_inv_def)
  qed
qed

lemma path_free:
  "path c p ns q \<Longrightarrow> t \<notin> fst ` set ns \<Longrightarrow> path (c(t := None)) p ns q"
  by (induction ns arbitrary: p) auto

lemma list_at_free:
  assumes "list_at h H ns" "t \<notin> fst ` set ns" "H \<noteq> Some t"
  shows "list_at (h\<lparr>cells := (cells h)(t := None)\<rparr>) H ns"
proof -
  from assms(1) obtain x where "heap_ok h" and p: "path (cells h) H (x # ns) None"
    by (auto simp: list_at_def)
  have "fst x \<noteq> t" using p assms(3) by (cases x) auto
  then have "path ((cells h)(t := None)) H (x # ns) None"
    using assms(2) by (intro path_free [OF p]) auto
  with \<open>heap_ok h\<close> show ?thesis unfolding list_at_def heap_ok_def by fastforce
qed

lemma consume_use_inv:
  assumes inv: "lk_inv s" and j: "j < length (lk_cons s)" "lk_cons s ! j = CGot t"
    and ex: "consume_use j t s = Some s'"
  shows "lk_inv s'"
proof -
  from inv obtain ns where s: "lock_fault s = None" "list_at (lk_heap s) (lk_list s) ns"
    "hands_ok (lk_heap s) (lk_list s) ns (hands (lk_cons s))"
    "made s = length ns + size (hands (lk_cons s)) + eaten s"
    "calls_ok (length ns) (lk_prod s) (lk_cons s)" by (rule lk_invE)
  let ?h = "lk_heap s" and ?cs = "lk_cons s"
  let ?h' = "?h\<lparr>cells := (cells ?h)(t := None)\<rparr>"
  have hd: "hands ?cs = add_mset t (hands (?cs[j := CTop]))"
    using hands_move [OF j(1), of CTop] j(2) by simp
  with s(3) have t: "t \<in> dom (cells ?h)" "t \<notin> fst ` set ns" "lk_list s \<noteq> Some t"
    by (simp_all add: hands_ok_def)
  from t(1) ex have s': "s' = s\<lparr>lk_heap := ?h', lk_cons := ?cs[j := CTop], eaten := Suc (eaten s)\<rparr>"
    by (auto simp: consume_use_def node_at_def free_node_def)
  have "hands_ok ?h' (lk_list s) ns (hands (?cs[j := CTop]))"
    using s(3) hd by (intro hands_ok_drop) simp
  moreover have "calls_ok (length ns) (lk_prod s) (?cs[j := CTop])"
    using s(5) j by (intro calls_ok_move) simp_all
  ultimately show ?thesis using s' s(1,4) list_at_free [OF s(2) t(2,3)] hd by (auto simp: lk_inv_def)
qed

lemma lk_event_inv:
  assumes inv: "lk_inv s" and ex: "lk_event_exec e s = Some s'"
  shows "lk_inv s'"
proof -
  from inv obtain ns where s: "lock_fault s = None" "list_at (lk_heap s) (lk_list s) ns"
    "hands_ok (lk_heap s) (lk_list s) ns (hands (lk_cons s))"
    "made s = length ns + size (hands (lk_cons s)) + eaten s"
    "calls_ok (length ns) (lk_prod s) (lk_cons s)" by (rule lk_invE)
  have quiet: "lk_inv (s\<lparr>lk_prod := (lk_prod s)[i := p]\<rparr>)"
    if "lk_prod s ! i \<noteq> PSignal" "p \<noteq> PSignal" for i p
    using s calls_ok_quiet [OF s(5) that] by (auto simp: lk_inv_def)
  have fault: "lk_inv (s\<lparr>show_fault := f\<rparr>)" for f using s by (auto simp: lk_inv_def)
  show ?thesis
  proof (cases e)
    case (LProduce i)
    with ex produce_inv [OF inv] show ?thesis by (simp split: if_splits)
  next
    case (LSignal i k)
    with ex obtain cs where c: "i < length (lk_prod s)" "lk_prod s ! i = PSignal"
      "lk_signal k (lk_cons s) = Some cs"
      "s' = s\<lparr>lk_cons := cs, lk_prod := (lk_prod s)[i := PShow]\<rparr>"
      by (auto split: if_splits option.splits)
    from calls_ok_signal [OF s(5) c(1-3), of PShow] lk_signal_hands [OF c(3)] s c(4)
    show ?thesis by (auto simp: lk_inv_def)
  next
    case (LShow i)
    then show ?thesis
      using ex quiet [of i] fault
      by (auto simp: show_head_def show_at_def split: if_splits ppos.splits sum.splits)
  next
    case (LConsume j)
    with ex consume_inv [OF inv, of j] consume_poo_inv [OF inv, of j] show ?thesis
      by (auto split: if_splits cpos.splits)
  next
    case (LSpurious j)
    with ex have j: "j < length (lk_cons s)" "lk_cons s ! j = CWait"
      "s' = s\<lparr>lk_cons := (lk_cons s)[j := CWoken]\<rparr>" by (auto split: if_splits)
    have "hands ((lk_cons s)[j := CWoken]) = hands (lk_cons s)"
      using j by (intro hands_same) simp_all
    with s j calls_ok_move [OF s(5) j(1), of CWoken]
    show ?thesis by (auto simp: lk_inv_def)
  next
    case (LUse j)
    with ex consume_use_inv [OF inv, of j] show ?thesis by (auto split: if_splits cpos.splits)
  qed
qed

lemma lk_reachable_inv: "lk_reachable s0 s \<Longrightarrow> lk_inv s0 \<Longrightarrow> lk_inv s"
  by (induction rule: lk_reachable.induct) (auto simp: lk_exec_def dest: lk_event_inv split: if_splits)

end
