(* ===== verification/Lock_Props.thy ===== *)
theory Lock_Props
  imports Lock_Correct
begin

text \<open>
  The promises of \<open>pipe/lock.c\<close>, for every interleaving of producers and consumers, and where it
  breaks them: printing the list outside the mutex, and the thread array of \<open>testRwlock\<close>.
\<close>

section \<open>The initial states\<close>

lemma hands_top [simp]: "hands (replicate n CTop) = {#}"
  by (induction n) (simp_all add: hands_def)

lemma lk_start_inv:
  assumes "heap_ok h" and "\<not> moom h (brk h)" and "testThreadMutex np nc h = Inr s0"
  shows "lk_inv s0"
proof -
  from listCreate_list [OF assms(1,2)] obtain h' where
    "listCreate h = Inr (Some (brk h), h')" "list_at h' (Some (brk h)) []" by blast
  with assms(3) show ?thesis
    by (auto simp: testThreadMutex_def lk_inv_def hands_ok_def intro!: exI [of _ "[]"])
qed

definition first_state :: lk where
  "first_state =
     \<lparr>lk_heap = empty_heap\<lparr>brk := 1, cells := [0 \<mapsto> \<lparr>data = 0, nxt = None\<rparr>]\<rparr>, lk_list = Some 0,
      lk_prod = [PTop], lk_cons = [CTop], lock_fault = None, show_fault = None, made = 0, eaten = 0\<rparr>"

lemma first_state_ok:
  "heap_ok empty_heap" "\<not> moom empty_heap (brk empty_heap)"
  "testThreadMutex 1 1 empty_heap = Inr first_state"
  by (simp_all add: heap_ok_def empty_heap_def testThreadMutex_def listCreate_ok first_state_def)

text \<open>The consumer waits, the producer enters an element and signals, the consumer takes it.\<close>

definition handed_state :: lk where
  "handed_state =
     \<lparr>lk_heap = empty_heap\<lparr>brk := 2,
        cells := [0 \<mapsto> \<lparr>data = 0, nxt = None\<rparr>, 1 \<mapsto> \<lparr>data = 10, nxt = None\<rparr>]\<rparr>, lk_list = Some 0,
      lk_prod = [PShow], lk_cons = [CGot 1], lock_fault = None, show_fault = None, made = 1, eaten = 0\<rparr>"

lemmas lk_defs = lk_exec_def produce_def consume_def consume_poo_def consume_use_def lk_signal_def
  show_head_def show_at_def list_tail_insert_def listCreate_def malloc_node_def set_data_def
  set_nxt_def node_at_def free_node_def listEmpty_def list_poo_def first_state_def empty_heap_def Let_def
  tail_loop.simps poo_loop.simps returns_def bindM_def lift_res_def

lemma handed_run:
  "lk_run [LConsume 0, LProduce 0, LSignal 0 (Some 0), LConsume 0] first_state = Some handed_state"
  by (simp add: handed_state_def lk_defs fun_upd_twist)

lemma handed_reachable: "lk_reachable first_state handed_state"
proof -
  have "lk_reachable s0 s \<Longrightarrow> lk_run es s = Some s' \<Longrightarrow> lk_reachable s0 s'" for s0 s s' es
    by (induction es arbitrary: s) (auto split: option.splits intro: lk_more)
  from this [OF lk_start handed_run] show ?thesis .
qed

section \<open>Properties\<close>

text \<open>C9: under the mutex producers and consumers never fault; the shared list stays a well-formed list
  and every element entered is on the list, in exactly one consumer's hands, or consumed.\<close>

theorem mutex_protects_list:
  assumes "heap_ok h" and "\<not> moom h (brk h)" and "testThreadMutex np nc h = Inr s0"
    and "lk_reachable s0 s"
  shows "lock_fault s = None \<and> (\<exists>ns. list_at (lk_heap s) (lk_list s) ns \<and>
    made s = length ns + size (hands (lk_cons s)) + eaten s \<and>
    (\<forall>t. count (hands (lk_cons s)) t \<le> 1) \<and> set_mset (hands (lk_cons s)) \<inter> fst ` set ns = {})"
  using lk_reachable_inv [OF assms(4) lk_start_inv [OF assms(1-3)]]
  by (auto simp: lk_inv_def hands_ok_def)

theorem mutex_protects_list_witness:
  "\<exists>ns. list_at (lk_heap handed_state) (Some 0) ns \<and> 1 = length ns + size (hands [CGot 1])"
  using mutex_protects_list [OF first_state_ok handed_reachable] by (auto simp: handed_state_def)

text \<open>C24: no wake-up is lost between producers and consumers: a consumer can sleep beside an element
  only while, for each element, a producer is about to signal or a consumer is on its way.\<close>

theorem mutex_no_lost_wakeup:
  assumes "heap_ok h" and "\<not> moom h (brk h)" and "testThreadMutex np nc h = Inr s0"
    and "lk_reachable s0 s" and "list_at (lk_heap s) (lk_list s) ns" and "CWait \<in> set (lk_cons s)"
  shows "length ns \<le> length (filter coming (lk_cons s)) + length (filter (\<lambda>p. p = PSignal) (lk_prod s))"
proof -
  from lk_reachable_inv [OF assms(4) lk_start_inv [OF assms(1-3)]] obtain ms where
    "list_at (lk_heap s) (lk_list s) ms" "calls_ok (length ms) (lk_prod s) (lk_cons s)"
    by (rule lk_invE)
  moreover have "count_where (\<lambda>c. c = CWait) (lk_cons s) \<noteq> 0"
    using assms(6) by (auto simp: count_where_def filter_empty_conv)
  ultimately show ?thesis
    using list_at_unique [OF assms(5)] by (auto simp: calls_ok_def count_where_def)
qed

text \<open>Two consumers, the first asleep, the second about to look; an element on the list, not yet signalled.\<close>

definition second_state :: lk where
  "second_state = first_state\<lparr>lk_heap := empty_heap\<lparr>brk := 2,
      cells := [0 \<mapsto> \<lparr>data = 0, nxt = Some 1\<rparr>, 1 \<mapsto> \<lparr>data = 10, nxt = None\<rparr>]\<rparr>,
    lk_prod := [PSignal], lk_cons := [CWait], made := 1\<rparr>"

lemma second_reachable: "lk_reachable first_state second_state"
proof -
  have "lk_exec (LConsume 0) first_state = Some (first_state\<lparr>lk_cons := [CWait]\<rparr>)"
    by (simp add: lk_defs)
  moreover have "lk_exec (LProduce 0) (first_state\<lparr>lk_cons := [CWait]\<rparr>) = Some second_state"
    by (simp add: second_state_def lk_defs fun_upd_twist)
  ultimately show ?thesis by (blast intro: lk_start lk_more)
qed

theorem mutex_no_lost_wakeup_witness:
  "length [(1::nat, 10::int)] \<le> length (filter coming [CWait]) + length (filter (\<lambda>p. p = PSignal) [PSignal])"
  using mutex_no_lost_wakeup [OF first_state_ok second_reachable, of "[(1, 10)]"]
  by (simp add: second_state_def first_state_def list_at_def heap_ok_def empty_heap_def)

text \<open>printing the list outside the mutex is not safe: once the consumer has taken the only element,
  \<open>list_show\<close> reads through NULL; and when the consumer frees the element that \<open>list_show\<close> has come
  to, the next read is a use after free.\<close>

theorem show_outside_mutex_faults:
  "(\<exists>s. lk_run [LConsume 0, LProduce 0, LSignal 0 (Some 0), LConsume 0, LShow 0, LShow 0] first_state
      = Some s \<and> show_fault s = Some NullDeref) \<and>
   (\<exists>s. lk_run [LConsume 0, LProduce 0, LSignal 0 (Some 0), LShow 0, LConsume 0, LUse 0, LShow 0] first_state
      = Some s \<and> show_fault s = Some UseAfterFree)"
  by (simp add: lk_defs fun_upd_twist)

text \<open>\<open>testRwlock\<close> creates its readers in the entries 6 and 7 of \<open>thread\<close>; when every creation
  succeeds it joins the entries 3 to 5, which were never written.\<close>

theorem testRwlock_joins_garbage:
  "testRwlock ok = (if ok 0 \<and> ok 1 \<and> ok 2 \<and> ok 3 \<and> ok 4 then Inl Uninitialised else Inr None)"
  by (simp add: testRwlock_def numeral_eq_Suc arr_set_def)

end
