(* ===== verification/Semaphore.thy ===== *)
theory Semaphore
  imports Lock
begin

text \<open>
  \<open>pipe/lock.c\<close>, the third demonstration: \<open>producer2\<close> and \<open>consumer2\<close> share the linked list with two
  counting semaphores and no mutex. As nothing orders the list operations, they are taken apart:
  every read and every write of a shared \<open>next\<close> field is a step of its own, and the threads'
  steps interleave freely. A field read twice in a row by one thread is one read.
\<close>

section \<open>State\<close>

text \<open>
  Inside \<open>list_tail_insert\<close> a producer owns its new node \<open>P\<close> and is at \<open>q\<close> (\<open>IWalk\<close>), or has seen
  that \<open>q\<close> is the last node and is about to link \<open>P\<close> behind it (\<open>ILink\<close>).
\<close>

datatype p2pos = ITop | IEnter | IWalk nat nat | ILink nat nat | IPost | IShow | IAt ptr

text \<open>
  Inside \<open>list_poo\<close> a consumer is at the header (\<open>OHead\<close>), at \<open>P\<close> with its predecessor \<open>ret\<close>
  (\<open>OWalk\<close>), or has seen that \<open>P\<close> is the last node and is about to cut it off (\<open>OCut\<close>). \<open>OUse\<close>
  prints the node taken and frees it.
\<close>

datatype c2pos = OTop | OHead | OWalk nat nat | OCut nat nat | OUse nat | OPost

record sem =
  sm_heap :: heap
  sm_list :: nat
  sem_producer :: nat
  sem_consumer :: nat
  sm_prod :: "p2pos list"
  sm_cons :: "c2pos list"
  sm_fault :: "c_error option"
  entered :: nat
  taken :: nat

section \<open>The loops of the threads\<close>

definition sm_read :: "sem \<Rightarrow> ptr \<Rightarrow> (node \<Rightarrow> sem) \<Rightarrow> sem" where
  "sm_read s p f = (case node_at (sm_heap s) p of Inl e \<Rightarrow> s\<lparr>sm_fault := Some e\<rparr> | Inr n \<Rightarrow> f n)"

definition sm_write :: "sem \<Rightarrow> heap res \<Rightarrow> (sem \<Rightarrow> sem) \<Rightarrow> sem" where
  "sm_write s r f =
     (case r of Inl e \<Rightarrow> s\<lparr>sm_fault := Some e\<rparr> | Inr h \<Rightarrow> f (s\<lparr>sm_heap := h\<rparr>))"

abbreviation p_at :: "nat \<Rightarrow> p2pos \<Rightarrow> sem \<Rightarrow> sem" where
  "p_at i w s \<equiv> s\<lparr>sm_prod := (sm_prod s)[i := w]\<rparr>"

abbreviation c_at :: "nat \<Rightarrow> c2pos \<Rightarrow> sem \<Rightarrow> sem" where
  "c_at j w s \<equiv> s\<lparr>sm_cons := (sm_cons s)[j := w]\<rparr>"

text \<open>The allocation with its initialisation is one step: no other thread knows the new node yet.\<close>

definition new_node :: "heap \<Rightarrow> int \<Rightarrow> (ptr \<times> heap) res" where
  "new_node h value =
     bindR (listCreate h) (\<lambda>(P, h1).
       if P = None then Inr (None, h1)
       else bindR (set_data h1 P value) (\<lambda>h2.
            bindR (set_nxt h2 P None) (\<lambda>h3. Inr (P, h3))))"

definition producer2 :: "nat \<Rightarrow> sem \<Rightarrow> sem option" where
  "producer2 i s =
     (case sm_prod s ! i of
        ITop \<Rightarrow> if 0 < sem_producer s
                then Some (p_at i IEnter (s\<lparr>sem_producer := sem_producer s - 1\<rparr>)) else None
      | IEnter \<Rightarrow> Some (case new_node (sm_heap s) 10 of
            Inl e \<Rightarrow> s\<lparr>sm_fault := Some e\<rparr>
          | Inr (None, h) \<Rightarrow> p_at i IPost (s\<lparr>sm_heap := h\<rparr>)
          | Inr (Some P, h) \<Rightarrow> p_at i (IWalk P (sm_list s)) (s\<lparr>sm_heap := h\<rparr>))
      | IWalk P q \<Rightarrow> Some (sm_read s (Some q) (\<lambda>n.
            case nxt n of Some r \<Rightarrow> p_at i (IWalk P r) s | None \<Rightarrow> p_at i (ILink P q) s))
      | ILink P q \<Rightarrow> Some (sm_write s (set_nxt (sm_heap s) (Some q) (Some P))
            (\<lambda>s. p_at i IPost (s\<lparr>entered := Suc (entered s)\<rparr>)))
      | IPost \<Rightarrow> Some (p_at i IShow (s\<lparr>sem_consumer := Suc (sem_consumer s)\<rparr>))
      | IShow \<Rightarrow> Some (sm_read s (Some (sm_list s)) (\<lambda>n. p_at i (IAt (nxt n)) s))
      | IAt P \<Rightarrow> Some (sm_read s P (\<lambda>n.
            if nxt n \<noteq> None then p_at i (IAt (nxt n)) s else p_at i ITop s)))"

definition consumer2 :: "nat \<Rightarrow> sem \<Rightarrow> sem option" where
  "consumer2 j s =
     (case sm_cons s ! j of
        OTop \<Rightarrow> if 0 < sem_consumer s
                then Some (c_at j OHead (s\<lparr>sem_consumer := sem_consumer s - 1\<rparr>)) else None
      | OHead \<Rightarrow> Some (sm_read s (Some (sm_list s)) (\<lambda>n.
            case nxt n of None \<Rightarrow> c_at j OPost s | Some P \<Rightarrow> c_at j (OWalk (sm_list s) P) s))
      | OWalk ret P \<Rightarrow> Some (sm_read s (Some P) (\<lambda>n.
            case nxt n of None \<Rightarrow> c_at j (OCut ret P) s | Some r \<Rightarrow> c_at j (OWalk P r) s))
      | OCut ret P \<Rightarrow> Some (sm_write s (set_nxt (sm_heap s) (Some ret) None)
            (\<lambda>s. c_at j (OUse P) (s\<lparr>taken := Suc (taken s)\<rparr>)))
      | OUse P \<Rightarrow> Some (sm_read s (Some P) (\<lambda>n.
            sm_write s (free_node (sm_heap s) (Some P)) (c_at j OPost)))
      | OPost \<Rightarrow> Some (c_at j OTop (s\<lparr>sem_producer := Suc (sem_producer s)\<rparr>)))"

section \<open>Runs\<close>

datatype sem_event = Prod nat | Cons nat

fun sem_exec :: "sem_event \<Rightarrow> sem \<Rightarrow> sem option" where
  "sem_exec (Prod i) s =
     (if sm_fault s = None \<and> i < length (sm_prod s) then producer2 i s else None)"
| "sem_exec (Cons j) s =
     (if sm_fault s = None \<and> j < length (sm_cons s) then consumer2 j s else None)"

fun sem_run :: "sem_event list \<Rightarrow> sem \<Rightarrow> sem option" where
  "sem_run [] s = Some s"
| "sem_run (e # es) s = (case sem_exec e s of None \<Rightarrow> None | Some s' \<Rightarrow> sem_run es s')"

text \<open>\<open>testThreadMutex2\<close> after its creations; a failing \<open>listCreate\<close> is not noticed, so that the list is
  NULL and every thread's first access a fault; here the creation succeeds or the run faults.\<close>

definition testThreadMutex2 :: "nat \<Rightarrow> nat \<Rightarrow> heap \<Rightarrow> sem res" where
  "testThreadMutex2 np nc h =
     bindR (listCreate h) (\<lambda>(H, h'). case H of
         None \<Rightarrow> Inl NullDeref
       | Some a \<Rightarrow> Inr
         \<lparr>sm_heap = h', sm_list = a, sem_producer = 5, sem_consumer = 5,
          sm_prod = replicate np ITop, sm_cons = replicate nc OTop, sm_fault = None,
          entered = 0, taken = 0\<rparr>)"

end
