(* ===== verification/Semaphore_Props.thy ===== *)
theory Semaphore_Props
  imports Semaphore LinkList_Correct
begin

text \<open>
  What the two semaphores of \<open>producer2\<close> and \<open>consumer2\<close> promise, in every interleaving: a fixed
  number of passes. And what they do not: they keep no two threads out of the list.
\<close>

section \<open>The passes are conserved\<close>

text \<open>The threads between their \<open>sem_wait\<close> and their \<open>sem_post\<close>.\<close>

fun p_inside :: "p2pos \<Rightarrow> bool" where
  "p_inside IEnter = True"
| "p_inside (IWalk P q) = True"
| "p_inside (ILink P q) = True"
| "p_inside IPost = True"
| "p_inside _ = False"

fun c_inside :: "c2pos \<Rightarrow> bool" where
  "c_inside OTop = False"
| "c_inside _ = True"

definition passes :: "sem \<Rightarrow> nat" where
  "passes s = sem_producer s + sem_consumer s +
     count_where p_inside (sm_prod s) + count_where c_inside (sm_cons s)"

lemma producer2_passes:
  assumes i: "i < length (sm_prod s)" and step: "producer2 i s = Some s'"
  shows "passes s' = passes s"
proof -
  note moves = count_where_stay [OF i, of p_inside] count_where_enter [OF i, of p_inside]
    count_where_leave [OF i, of p_inside IShow]
  show ?thesis
    using step moves(3) by (cases "sm_prod s ! i")
      (auto simp: producer2_def passes_def sm_read_def sm_write_def moves(1,2)
        split: if_splits sum.splits option.splits prod.splits)
qed

lemma consumer2_passes:
  assumes j: "j < length (sm_cons s)" and step: "consumer2 j s = Some s'"
  shows "passes s' = passes s"
proof -
  note moves = count_where_stay [OF j, of c_inside] count_where_enter [OF j, of c_inside]
    count_where_leave [OF j, of c_inside OTop]
  show ?thesis
    using step moves(3) by (cases "sm_cons s ! j")
      (auto simp: consumer2_def passes_def sm_read_def sm_write_def moves(1,2)
        split: if_splits sum.splits option.splits)
qed

lemma sem_run_passes: "sem_run es s = Some s' \<Longrightarrow> passes s' = passes s"
proof (induction es arbitrary: s)
  case (Cons e es)
  then obtain s1 where "sem_exec e s = Some s1" "sem_run es s1 = Some s'"
    by (auto split: option.splits)
  moreover from this(1) have "passes s1 = passes s"
    by (cases e) (auto split: if_splits intro: producer2_passes consumer2_passes)
  ultimately show ?case using Cons.IH by simp
qed simp

section \<open>Somebody can go on\<close>

text \<open>No step makes a thread appear or vanish.\<close>

lemma sem_exec_length:
  "sem_exec e s = Some s' \<Longrightarrow>
   length (sm_prod s') = length (sm_prod s) \<and> length (sm_cons s') = length (sm_cons s)"
  by (cases e)
    (auto simp: producer2_def consumer2_def sm_read_def sm_write_def
      split: if_splits p2pos.splits c2pos.splits sum.splits option.splits prod.splits)

lemma sem_run_length:
  "sem_run es s = Some s' \<Longrightarrow>
   length (sm_prod s') = length (sm_prod s) \<and> length (sm_cons s') = length (sm_cons s)"
proof (induction es arbitrary: s)
  case (Cons e es)
  then obtain s1 where "sem_exec e s = Some s1" "sem_run es s1 = Some s'" by (auto split: option.splits)
  with Cons.IH sem_exec_length show ?case by fastforce
qed simp

text \<open>Only the two \<open>sem_wait\<close> can block.\<close>

lemma producer2_blocks: "producer2 i s = None \<Longrightarrow> sm_prod s ! i = ITop \<and> sem_producer s = 0"
  by (auto simp: producer2_def split: p2pos.splits if_splits)

lemma consumer2_blocks: "consumer2 j s = None \<Longrightarrow> sm_cons s ! j = OTop \<and> sem_consumer s = 0"
  by (auto simp: consumer2_def split: c2pos.splits if_splits)

lemma count_where_none: "\<forall>i < length xs. \<not> P (xs ! i) \<Longrightarrow> count_where P xs = 0"
  by (auto simp: count_where_def filter_empty_conv in_set_conv_nth)

lemma somebody_goes_on:
  assumes "0 < passes s" and "sm_prod s \<noteq> []" and "sm_cons s \<noteq> []" and "sm_fault s = None"
  shows "\<exists>e s'. sem_exec e s = Some s'"
proof (rule ccontr)
  assume stuck: "\<not> ?thesis"
  have p: "sm_prod s ! i = ITop \<and> sem_producer s = 0" if "i < length (sm_prod s)" for i
    using stuck that assms(4) producer2_blocks by (metis option.exhaust sem_exec.simps(1))
  have c: "sm_cons s ! j = OTop \<and> sem_consumer s = 0" if "j < length (sm_cons s)" for j
    using stuck that assms(4) consumer2_blocks by (metis option.exhaust sem_exec.simps(2))
  have "count_where p_inside (sm_prod s) = 0" "count_where c_inside (sm_cons s) = 0"
    using p c by (auto intro!: count_where_none)
  moreover have "sem_producer s = 0" "sem_consumer s = 0" using p c assms(2,3) by auto
  ultimately show False using assms(1) by (simp add: passes_def)
qed

section \<open>The initial state\<close>

definition first_sem :: "nat \<Rightarrow> nat \<Rightarrow> sem" where
  "first_sem np nc =
     \<lparr>sm_heap = empty_heap\<lparr>brk := 1, cells := [0 \<mapsto> \<lparr>data = 0, nxt = None\<rparr>]\<rparr>, sm_list = 0,
      sem_producer = 5, sem_consumer = 5, sm_prod = replicate np ITop, sm_cons = replicate nc OTop,
      sm_fault = None, entered = 0, taken = 0\<rparr>"

lemma first_sem: "testThreadMutex2 np nc empty_heap = Inr (first_sem np nc)"
  by (simp add: testThreadMutex2_def listCreate_def malloc_node_def set_data_def set_nxt_def node_at_def
      empty_heap_def first_sem_def)

lemmas sem_defs = producer2_def consumer2_def sm_read_def sm_write_def new_node_def first_sem_def
  listCreate_def malloc_node_def set_data_def set_nxt_def node_at_def free_node_def empty_heap_def

section \<open>Properties\<close>

text \<open>C40: however the producers and consumers interleave, the two semaphores and the threads between
  their wait and their post always add up to the ten passes of the start, so that never more than
  ten threads are inside; and as long as nothing has faulted and both kinds of thread exist, some
  thread can take a step: the semaphores never leave all threads waiting.\<close>

theorem semaphores_conserve_passes:
  assumes "testThreadMutex2 np nc h = Inr s0" and "sem_run es s0 = Some s"
  shows "sem_producer s + sem_consumer s + count_where p_inside (sm_prod s) +
      count_where c_inside (sm_cons s) = 10 \<and>
    count_where p_inside (sm_prod s) + count_where c_inside (sm_cons s) \<le> 10 \<and>
    (sm_fault s = None \<and> 0 < np \<and> 0 < nc \<longrightarrow> (\<exists>e s'. sem_exec e s = Some s'))"
proof -
  from assms(1) have "passes s0 = 10" "length (sm_prod s0) = np" "length (sm_cons s0) = nc"
    by (auto simp: testThreadMutex2_def passes_def count_where_replicate split: option.splits)
  with sem_run_passes [OF assms(2)] sem_run_length [OF assms(2)]
  have n: "passes s = 10" "length (sm_prod s) = np" "length (sm_cons s) = nc" by simp_all
  then have "\<exists>e s'. sem_exec e s = Some s'" if "sm_fault s = None" "0 < np" "0 < nc"
    using somebody_goes_on [of s] that by auto
  with n(1) show ?thesis by (simp add: passes_def)
qed

theorem semaphores_conserve_passes_witness:
  "\<exists>s. sem_run [Prod 0, Cons 0, Prod 0] (first_sem 1 1) = Some s \<and>
     sem_producer s + sem_consumer s + count_where p_inside (sm_prod s) +
     count_where c_inside (sm_cons s) = 10 \<and> (\<exists>e s'. sem_exec e s = Some s')"
proof -
  have "\<exists>s. sem_run [Prod 0, Cons 0, Prod 0] (first_sem 1 1) = Some s \<and> sm_fault s = None"
    by (simp add: sem_defs)
  then show ?thesis using semaphores_conserve_passes [OF first_sem] by fastforce
qed

text \<open>the semaphores do not protect the list. Two producers that have both found the same last node
  both link behind it, and one element is lost; two consumers take the same node and the second
  uses it after the first has freed it; and a producer links behind a node that a consumer has
  freed.\<close>

theorem semaphores_do_not_protect_list:
  "(\<exists>s. sem_run [Prod 0, Prod 0, Prod 0, Prod 1, Prod 1, Prod 1, Prod 0, Prod 1] (first_sem 2 0)
      = Some s \<and> entered s = 2 \<and> list_at (sm_heap s) (Some (sm_list s)) [(2, 10)]) \<and>
   (\<exists>s. sem_run ([Prod 0, Prod 0, Prod 0, Prod 0] @
        [Cons 0, Cons 0, Cons 0, Cons 1, Cons 1, Cons 1, Cons 0, Cons 1, Cons 0, Cons 1])
        (first_sem 1 2) = Some s \<and> sm_fault s = Some UseAfterFree) \<and>
   (\<exists>s. sem_run ([Prod 0, Prod 0, Prod 0, Prod 0] @
        [Prod 1, Prod 1, Prod 1, Prod 1, Cons 0, Cons 0, Cons 0, Cons 0, Cons 0, Prod 1])
        (first_sem 2 1) = Some s \<and> sm_fault s = Some UseAfterFree)"
  by (simp add: sem_defs list_at_def heap_ok_def numeral_eq_Suc)

end
