(* ===== verification/WebServer.thy ===== *)
theory WebServer
  imports Pub Wrap
begin

text \<open>
  \<open>web/webserver.c\<close>: the callback that answers one HTTP request, on top of \<open>web/pub.c\<close> and
  \<open>socket/wrap.c\<close>. The file system is a parameter: what \<open>stat\<close>, \<open>open\<close>, \<open>read\<close> and \<open>scandir\<close>
  answer for a path. The buffers on the stack are arrays of their declared size, so a text that
  does not fit is a fault.
\<close>

section \<open>The environment\<close>

datatype st = NoFile | RegFile int | Directory | OtherFile

text \<open>\<open>fs_open\<close> gives the chunks that reading the file delivers, \<open>fs_dir\<close> names in \<open>alphasort\<close> order
  and whether each is a directory; \<open>junk_buf\<close> is what an uninitialised buffer of 1024 holds.\<close>

record fs =
  fs_stat :: "string \<Rightarrow> st"
  fs_open :: "string \<Rightarrow> rd list option"
  fs_dir :: "string \<Rightarrow> (string \<times> bool) list option"
  junk_buf :: string

text \<open>What the client has received, and the answers its socket will still give to writes.\<close>

record out =
  sent :: string
  wk :: "wr list"

definition out_write :: "string \<Rightarrow> out \<Rightarrow> out" where
  "out_write msg o1 = (case Write msg (wk o1) of (n, d, k) \<Rightarrow> o1\<lparr>sent := sent o1 @ d, wk := k\<rparr>)"

section \<open>Text\<close>

definition crlf :: string where "crlf = [CHR 0x0D, CHR 0x0A]"

definition digit :: "nat \<Rightarrow> char" where "digit n = char_of (48 + n)"

fun dec_nat :: "nat \<Rightarrow> string" where
  "dec_nat n = (if n < 10 then [digit n] else dec_nat (n div 10) @ [digit (n mod 10)])"

declare dec_nat.simps [simp del]

definition dec :: "int \<Rightarrow> string" where
  "dec i = (if i < 0 then CHR ''-'' # dec_nat (nat (- i)) else dec_nat (nat i))"

definition strlen :: "string \<Rightarrow> int" where
  "strlen mem = int (length (c_string mem 0))"

text \<open>The conversion of \<open>off_t\<close> to the parameter of type \<open>int\<close>.\<close>

definition to_int :: "int \<Rightarrow> int" where
  "to_int n = (n + 2 ^ 31) mod 2 ^ 32 - 2 ^ 31"

section \<open>Sending\<close>

definition send_header :: "string \<Rightarrow> string \<Rightarrow> string \<Rightarrow> string \<Rightarrow> int \<Rightarrow> out \<Rightarrow> out res" where
  "send_header buf code msg fileType len o1 =
     bindR (put_string buf 0 (''HTTP/1.1 '' @ code @ '' '' @ msg @ crlf)) (\<lambda>b1.
     bindR (put_string b1 (strlen b1) (''Content_Type:'' @ fileType @ crlf)) (\<lambda>b2.
     bindR (if len > 0 then put_string b2 (strlen b2) (''Content_Length:'' @ dec len @ crlf)
            else Inr b2) (\<lambda>b3.
     bindR (put_string b3 (strlen b3) crlf) (\<lambda>b4.
       Inr (out_write (c_string b4 0) o1)))))"

text \<open>One \<open>write\<close> per chunk read, its result ignored.\<close>

function send_file_loop :: "rd list \<Rightarrow> out \<Rightarrow> out" where
  "send_file_loop k o1 =
     (case kread 1024 k of
        (Got d, k') \<Rightarrow>
          (case kwrite (length d) (wk o1) of
             (Wrote m, wk') \<Rightarrow> send_file_loop k' (o1\<lparr>sent := sent o1 @ take m d, wk := wk'\<rparr>)
           | (WFailed e, wk') \<Rightarrow> send_file_loop k' (o1\<lparr>wk := wk'\<rparr>))
      | _ \<Rightarrow> o1)"
  by pat_completeness auto

fun chunk_weight :: "rd \<Rightarrow> nat" where
  "chunk_weight (Data d) = Suc (length d)"
| "chunk_weight (RdErr e) = 1"

lemma kread_weight:
  "kread n k = (Got d, k') \<Longrightarrow> sum_list (map chunk_weight k') < sum_list (map chunk_weight k)"
  by (cases "(n, k)" rule: kread.cases) (auto split: if_splits)

termination send_file_loop
  by (relation "measure (\<lambda>(k, o1). sum_list (map chunk_weight k))") (auto dest!: kread_weight [OF sym])

declare send_file_loop.simps [simp del]

definition send_file :: "fs \<Rightarrow> string \<Rightarrow> out \<Rightarrow> int \<times> out" where
  "send_file f fileName o1 =
     (case fs_open f fileName of None \<Rightarrow> (-1, o1) | Some k \<Rightarrow> (1, send_file_loop k o1))"

section \<open>The request line\<close>

definition isspace :: "char \<Rightarrow> bool" where
  "isspace c \<longleftrightarrow> c = CHR '' '' \<or> (CHR 0x09 \<le> c \<and> c \<le> CHR 0x0D)"

text \<open>
  \<open>sscanf(buff, "%[^ ] %[^ ] %[^ \<dots>]", ...)\<close> into arrays of 16, 255 and 16 characters; a conversion
  that matches nothing ends the scan and leaves the rest empty.
\<close>

definition scan_set :: "nat \<Rightarrow> char set \<Rightarrow> string \<Rightarrow> (string \<times> string) option res" where
  "scan_set cap stops s =
     (let t = takeWhile (\<lambda>c. c \<notin> stops) s
      in if t = [] then Inr None
         else if cap \<le> length t then Inl OutOfBounds
         else Inr (Some (t, dropWhile isspace (drop (length t) s))))"

definition scan_request :: "string \<Rightarrow> (string \<times> string \<times> string) res" where
  "scan_request buff =
     bindR (scan_set 16 {CHR '' ''} buff) (\<lambda>r.
       case r of None \<Rightarrow> Inr ([], [], [])
       | Some (reqType, s1) \<Rightarrow>
           bindR (scan_set 255 {CHR '' ''} s1) (\<lambda>r.
             case r of None \<Rightarrow> Inr (reqType, [], [])
             | Some (fileName, s2) \<Rightarrow>
                 bindR (scan_set 16 {CHR '' '', CHR 0x0D, CHR 0x0A} s2) (\<lambda>r.
                   case r of None \<Rightarrow> Inr (reqType, fileName, [])
                   | Some (protocal, s3) \<Rightarrow> Inr (reqType, fileName, protocal))))"

text \<open>From the name in its array of 255 characters to the path that is looked up.\<close>

definition request_path :: "string \<Rightarrow> string res" where
  "request_path fileName =
     (let a = fileName @ replicate (255 - length fileName) NUL
      in bindR (if length fileName \<le> 1 then put_string a 1 ''./'' else Inr a) (\<lambda>a1.
         bindR (strdecode a1 1 1) (\<lambda>a2. Inr (c_string a2 1))))"

section \<open>Directory listings\<close>

definition dir_entry :: "string \<times> bool \<Rightarrow> string" where
  "dir_entry e =
     (case e of (name, isdir) \<Rightarrow>
        if isdir then ''<li><a href='' @ name @ ''/>'' @ name @ ''</a></li>''
        else ''<li><a href='' @ name @ ''>'' @ name @ ''</a></li>'')"

text \<open>The loop \<open>while (n--)\<close> starts with the last name.\<close>

fun send_entries :: "(string \<times> bool) list \<Rightarrow> out \<Rightarrow> out res" where
  "send_entries [] o1 = Inr o1"
| "send_entries (e # es) o1 =
     bindR (put_string (replicate 1024 NUL) 0 (dir_entry e)) (\<lambda>b.
       send_entries es (out_write (c_string b 0) o1))"

section \<open>The callback\<close>

definition error_page :: string where "error_page = ''error.html''"
definition dir_header :: string where "dir_header = ''html/dir_header.html''"
definition dir_tail :: string where "dir_tail = ''html/dir_tail.html''"

text \<open>Answering for a path; the flag says whether the connection is closed.\<close>

definition answer :: "fs \<Rightarrow> string \<Rightarrow> out \<Rightarrow> (bool \<times> out) res" where
  "answer f pFile o1 =
     (case fs_stat f pFile of
        NoFile \<Rightarrow>
          bindR (send_header (junk_buf f) ''404'' ''NOT FOUND'' (get_mime_type ''.html'') 0 o1)
            (\<lambda>o2. Inr (False, snd (send_file f error_page o2)))
      | RegFile st_size \<Rightarrow>
          bindR (send_header (junk_buf f) ''200'' ''SUCCESS'' (get_mime_type pFile) (to_int st_size) o1)
            (\<lambda>o2. Inr (False, snd (send_file f pFile o2)))
      | Directory \<Rightarrow>
          bindR (send_header (junk_buf f) ''200'' ''SUCCESS'' (get_mime_type ''.html'') 0 o1) (\<lambda>o2.
            let o3 = snd (send_file f dir_header o2)
            in case fs_dir f pFile of
                 None \<Rightarrow> Inr (True, o3)
               | Some names \<Rightarrow>
                   bindR (send_entries (rev names) o3)
                     (\<lambda>o4. Inr (False, snd (send_file f dir_tail o4))))
      | OtherFile \<Rightarrow> Inr (False, o1))"

text \<open>\<open>while ((n = Readline(fd, buff, sizeof(buff))) > 0);\<close>\<close>

partial_function (option) drain :: "nat \<Rightarrow> string \<Rightarrow> rl \<Rightarrow> rl run" where
  "drain fd buff w =
     bindM (lift_res (Readline fd buff 1024 w)) (\<lambda>(n, buff', w').
       if n > 0 then drain fd buff' w' else returns w')"

definition readMessageCallback :: "fs \<Rightarrow> nat \<Rightarrow> rl \<Rightarrow> out \<Rightarrow> (bool \<times> rl \<times> out) run" where
  "readMessageCallback f fd w o1 =
     bindM (lift_res (Readline fd (replicate 1024 NUL) 1024 w)) (\<lambda>(n, buff, w1).
       if n \<le> 0 then returns (True, w1, o1)
       else
         bindM (lift_res (scan_request (c_string buff 0))) (\<lambda>(reqType, fileName, protocal).
         bindM (drain fd buff w1) (\<lambda>w2.
         bindM (lift_res (request_path fileName)) (\<lambda>pFile.
         bindM (lift_res (answer f pFile o1)) (\<lambda>(closed, o2). returns (closed, w2, o2))))))"

text \<open>
  \<open>connectCallback\<close>: a connection is served when \<open>accept\<close> gives a positive descriptor; a failing
  \<open>event_new\<close> ends the process with status 0.
\<close>

definition connectCallback :: "int \<Rightarrow> bool \<Rightarrow> int list \<Rightarrow> int list res" where
  "connectCallback cfd event_ok watched =
     (if cfd > 0 then (if event_ok then Inr (watched @ [cfd]) else Inl (Exited 0))
      else Inr watched)"

end
