(* ===== verification/WebServer_Correct.thy ===== *)
theory WebServer_Correct
  imports WebServer Pub_Correct Wrap_Correct
begin

text \<open>
  What the client of \<open>web/webserver.c\<close> receives: the header as one text, the bytes of the file, the
  listing of a directory; and that the loop that drains the request always ends.
\<close>

section \<open>Text in a buffer\<close>

lemma append_text:
  assumes "NUL \<notin> set s" and "length s + length t < length mem"
  shows "put_string (overwrite mem 0 (s @ [NUL])) (strlen (overwrite mem 0 (s @ [NUL]))) t =
    Inr (overwrite mem 0 ((s @ t) @ [NUL]))"
proof -
  let ?m = "overwrite mem 0 (s @ [NUL])"
  have "strlen ?m = int (length s)" using assms(1) by (simp add: strlen_def c_string_overwrite)
  moreover have "length ?m = length mem" using assms(2) by simp
  moreover have "put_string ?m (int (length s)) t = Inr (overwrite ?m (length s) (t @ [NUL]))"
    using assms(2) calculation(2) by (intro put_string_result) simp
  moreover have "overwrite ?m (length s) (t @ [NUL]) = overwrite mem 0 (s @ t @ [NUL])"
    using overwrite_shadow [of 0 s mem] assms(2) by (cases t) simp_all
  ultimately show ?thesis by simp
qed

lemma dec_nat_plain: "NUL \<notin> set (dec_nat n)"
proof (induction n rule: dec_nat.induct)
  case (1 n)
  have "NUL \<noteq> digit d" if "d < 10" for d
    using that by (simp add: digit_def NUL_def char_of_eq_iff take_bit_eq_mod eq_commute [of "CHR 0x00"])
  with 1 show ?case by (subst dec_nat.simps) auto
qed

lemma dec_nat_length: "n < 10 ^ k \<Longrightarrow> 0 < k \<Longrightarrow> length (dec_nat n) \<le> k"
proof (induction n arbitrary: k rule: dec_nat.induct)
  case (1 n)
  show ?case
  proof (cases "n < 10")
    case True
    with 1 show ?thesis by (subst dec_nat.simps) simp
  next
    case False
    with "1.prems" obtain j where j: "k = Suc j" "0 < j"
      by (cases k; cases "k = 1") auto
    with "1.prems" have "n div 10 < 10 ^ j" by (simp add: less_mult_imp_div_less)
    with 1 False j show ?thesis by (subst dec_nat.simps) auto
  qed
qed

lemma dec_plain: "NUL \<notin> set (dec i)"
  using dec_nat_plain by (simp add: dec_def NUL_def)

lemma dec_length: "0 \<le> i \<Longrightarrow> i \<le> int_max \<Longrightarrow> length (dec i) \<le> 10"
  using dec_nat_length [of "nat i" 10] by (simp add: dec_def int_range_defs nat_less_iff)

definition header_text :: "string \<Rightarrow> string \<Rightarrow> string \<Rightarrow> int \<Rightarrow> string" where
  "header_text code msg fileType len =
     ''HTTP/1.1 '' @ code @ '' '' @ msg @ crlf @ ''Content_Type:'' @ fileType @ crlf @
     (if len > 0 then ''Content_Length:'' @ dec len @ crlf else []) @ crlf"

lemma crlf_plain [simp]: "NUL \<notin> set crlf"
  by (simp add: crlf_def NUL_def)

lemma length_crlf [simp]: "length crlf = 2"
  by (simp add: crlf_def)

lemma send_header_result:
  assumes "NUL \<notin> set code" "NUL \<notin> set msg" "NUL \<notin> set fileType"
    and "length (header_text code msg fileType len) < length buf"
  shows "send_header buf code msg fileType len o1 =
    Inr (out_write (header_text code msg fileType len) o1)"
proof -
  let ?a = "''HTTP/1.1 '' @ code @ '' '' @ msg @ crlf"
  let ?b = "''Content_Type:'' @ fileType @ crlf"
  let ?c = "if len > 0 then ''Content_Length:'' @ dec len @ crlf else []"
  have h: "header_text code msg fileType len = ((?a @ ?b) @ ?c) @ crlf"
    by (simp add: header_text_def)
  have len: "length (((?a @ ?b) @ ?c) @ crlf) < length buf" using assms(4) unfolding h .
  have plain: "NUL \<notin> set ?a" "NUL \<notin> set (?a @ ?b)" "NUL \<notin> set ((?a @ ?b) @ ?c)"
    "NUL \<notin> set (((?a @ ?b) @ ?c) @ crlf)"
    using assms(1-3) dec_plain by (auto simp: NUL_def crlf_def)
  have 1: "put_string buf 0 ?a = Inr (overwrite buf 0 (?a @ [NUL]))"
    using put_string_result [of 0 ?a buf] len by simp
  have 2: "put_string (overwrite buf 0 (?a @ [NUL])) (strlen (overwrite buf 0 (?a @ [NUL]))) ?b =
      Inr (overwrite buf 0 ((?a @ ?b) @ [NUL]))"
    using len by (intro append_text plain) simp
  have 3: "(if len > 0 then put_string (overwrite buf 0 ((?a @ ?b) @ [NUL]))
        (strlen (overwrite buf 0 ((?a @ ?b) @ [NUL]))) (''Content_Length:'' @ dec len @ crlf)
      else Inr (overwrite buf 0 ((?a @ ?b) @ [NUL]))) = Inr (overwrite buf 0 (((?a @ ?b) @ ?c) @ [NUL]))"
    using append_text [OF plain(2), of ?c buf] len by (cases "len > 0") simp_all
  have 4: "put_string (overwrite buf 0 (((?a @ ?b) @ ?c) @ [NUL]))
        (strlen (overwrite buf 0 (((?a @ ?b) @ ?c) @ [NUL]))) crlf =
      Inr (overwrite buf 0 ((((?a @ ?b) @ ?c) @ crlf) @ [NUL]))"
    using len by (intro append_text plain) simp
  show ?thesis
    unfolding send_header_def 1 bindR_simps 2 3 4 h c_string_overwrite [OF plain(4)] ..
qed

section \<open>Files\<close>

text \<open>The bytes of a file up to the first failing or empty read.\<close>

fun file_bytes :: "rd list \<Rightarrow> string" where
  "file_bytes [] = []"
| "file_bytes (RdErr e # k) = []"
| "file_bytes (Data d # k) = (if d = [] then [] else d @ file_bytes k)"

lemma kread_file:
  "kread n k = (r, k') \<Longrightarrow> 0 < n \<Longrightarrow>
   (case r of Got d \<Rightarrow> file_bytes k = d @ file_bytes k' | _ \<Rightarrow> file_bytes k = [])"
  by (cases "(n, k)" rule: kread.cases) (auto split: if_splits)

lemma send_file_loop_all:
  "wk o1 = [] \<Longrightarrow> send_file_loop k o1 = o1\<lparr>sent := sent o1 @ file_bytes k\<rparr>"
proof (induction k o1 rule: send_file_loop.induct)
  case (1 k o1)
  obtain r k' where rk: "kread 1024 k = (r, k')" by fastforce
  show ?case
  proof (cases r)
    case (Got d)
    have kw: "kwrite (length d) (wk o1) = (Wrote (length d), [])" using "1.prems" by simp
    from "1.IH"(1) [OF rk [symmetric] Got kw [symmetric] refl] rk Got kw kread_file [OF rk] "1.prems"
    show ?thesis by (subst send_file_loop.simps) simp
  qed (use rk kread_file [OF rk] in \<open>subst send_file_loop.simps, simp\<close>)+
qed

lemma out_write_all: "wk o1 = [] \<Longrightarrow> out_write msg o1 = o1\<lparr>sent := sent o1 @ msg\<rparr>"
  by (simp add: out_write_def Write.simps)

definition bytes_of :: "fs \<Rightarrow> string \<Rightarrow> string" where
  "bytes_of f name = (case fs_open f name of None \<Rightarrow> [] | Some k \<Rightarrow> file_bytes k)"

lemma send_file_all:
  "wk o1 = [] \<Longrightarrow> snd (send_file f name o1) = o1\<lparr>sent := sent o1 @ bytes_of f name\<rparr>"
  by (simp add: send_file_def bytes_of_def send_file_loop_all split: option.splits)

section \<open>Directories\<close>

lemma send_entries_all:
  "wk o1 = [] \<Longrightarrow> \<forall>e \<in> set es. NUL \<notin> set (fst e) \<and> length (fst e) \<le> 255 \<Longrightarrow>
   send_entries es o1 = Inr (o1\<lparr>sent := sent o1 @ concat (map dir_entry es)\<rparr>)"
proof (induction es arbitrary: o1)
  case (Cons e es)
  obtain name isdir where e: "e = (name, isdir)" by (cases e)
  have plain: "NUL \<notin> set (dir_entry e)" using Cons.prems(2) e by (auto simp: dir_entry_def NUL_def)
  have "length (dir_entry e) < 1024" using Cons.prems(2) e by (auto simp: dir_entry_def)
  with put_string_result [of 0 "dir_entry e" "replicate 1024 NUL"]
  have "put_string (replicate 1024 NUL) 0 (dir_entry e) =
      Inr (overwrite (replicate 1024 NUL) 0 (dir_entry e @ [NUL]))" by simp
  with Cons plain show ?case by (simp add: c_string_overwrite out_write_all)
qed simp

text \<open>
  What \<open>webserver.c\<close> takes for granted about its environment: the stack buffer has its declared
  size, and a name in a directory has no NUL and at most 255 characters (\<open>NAME_MAX\<close>). Then no
  answer faults, however the socket takes the writes.
\<close>

definition ordinary_fs :: "fs \<Rightarrow> bool" where
  "ordinary_fs f \<longleftrightarrow> length (junk_buf f) = 1024 \<and>
     (\<forall>p names. fs_dir f p = Some names \<longrightarrow>
        (\<forall>e \<in> set names. NUL \<notin> set (fst e) \<and> length (fst e) \<le> 255))"

lemma send_entries_fit:
  "\<forall>e \<in> set es. length (fst e) \<le> 255 \<Longrightarrow> \<exists>o2. send_entries es o1 = Inr o2"
proof (induction es arbitrary: o1)
  case (Cons e es)
  have "length (dir_entry e) < 1024" using Cons.prems by (cases e) (auto simp: dir_entry_def)
  with put_string_result [of 0 "dir_entry e" "replicate 1024 NUL"] Cons show ?case by simp
qed simp

section \<open>Draining the request\<close>

lemma drain_ends:
  assumes "rl_ok w" and "length buff = 1024"
  shows "\<exists>w'. drain fd buff w = returns w' \<and> rl_ok w' \<and> same_others fd w w' \<and> buffered w' = []"
  using assms
proof (induction "length (upcoming fd w)" arbitrary: buff w rule: less_induct)
  case less
  let ?l = "take_line (1024 - 1) (upcoming fd w)"
  let ?v = "readline_value 1024 0 (1024 - 1) ?l (stop (kern w fd))"
  let ?b = "overwrite buff 0 (readline_text (1024 - 1) ?l (stop (kern w fd)))"
  from Readline_result [OF less.prems(1) _ _ refl, of 1024 buff fd] less.prems(2) obtain w' where
    r: "Readline fd buff 1024 w = Inr (?v, ?b, w')" "readline_post fd w (1024 - 1) ?l w'"
    by (simp only: le_refl zero_less_numeral simp_thms) blast
  show ?case
  proof (cases "?v > 0")
    case False
    then have "CHR 0x0A \<notin> set ?l" "length ?l \<noteq> 1024 - 1"
      by (auto simp: readline_value_def split: if_splits)
    with False r show ?thesis by (subst drain.simps) (simp add: readline_post_def)
  next
    case True
    have ln: "length ?l \<le> 1023" using length_take_line [of 1023] by simp
    then have "length ?b = 1024" using less.prems(2) by (simp add: readline_text_def)
    have ne: "?l \<noteq> []" and keep: "CHR 0x0A \<in> set ?l \<or> length ?l = 1024 - 1 \<or> stop (kern w fd) = None"
      using True by (auto simp: readline_value_def split: if_splits)
    from keep r(2) have up: "upcoming fd w' = drop (length ?l) (upcoming fd w)" "rl_ok w'"
      "same_others fd w w'" by (simp_all add: readline_post_def)
    obtain rest where "upcoming fd w = ?l @ rest" using take_line_prefix by blast
    with ne up(1) have "length (upcoming fd w') < length (upcoming fd w)"
      by (metis append_Nil2 append_eq_conv_conj length_append length_greater_0_conv less_add_same_cancel2)
    from less.hyps [OF this up(2) \<open>length ?b = 1024\<close>] obtain w2 where
      "drain fd ?b w' = returns w2" "rl_ok w2" "same_others fd w' w2" "buffered w2 = []" by blast
    moreover have "drain fd buff w = drain fd ?b w'" using r(1) True by (subst drain.simps) simp
    ultimately show ?thesis using same_others_trans [OF up(3)] by auto
  qed
qed

end
