(* ===== verification/WebServer_Props.thy ===== *)
theory WebServer_Props
  imports WebServer_Correct Wrap_Correct
begin

text \<open>
  The promises of \<open>web/webserver.c\<close>: what a client receives for a file and for a directory, from the
  bytes of its request to the bytes of the answer, and the requests it does not survive.
\<close>

section \<open>Reading the request line\<close>

lemma takeWhile_stop: "c \<in> A \<Longrightarrow> set s \<inter> A = {} \<Longrightarrow> takeWhile (\<lambda>x. x \<notin> A) (s @ c # r) = s"
  by (subst takeWhile_append2) auto

lemma takeWhile_cut: "\<not> P c \<Longrightarrow> takeWhile P (s @ c # r) = takeWhile P s"
  by (induction s) auto

lemma scan_set_token:
  "set t \<inter> A = {} \<Longrightarrow> t \<noteq> [] \<Longrightarrow> length t < cap \<Longrightarrow> c \<in> A \<Longrightarrow>
   scan_set cap A (t @ c # r) = Inr (Some (t, dropWhile isspace (c # r)))"
  by (simp add: scan_set_def takeWhile_stop)

lemma isspace_plain [simp]: "isspace (CHR '' '')" "isspace (CHR 0x0D)"
  by (simp_all add: isspace_def less_eq_char_def)

text \<open>A token of the request line: not empty, no white space, no control character.\<close>

definition token :: "nat \<Rightarrow> string \<Rightarrow> bool" where
  "token cap t \<longleftrightarrow> t \<noteq> [] \<and> length t < cap \<and> (\<forall>c \<in> set t. CHR '' '' < c)"

lemma token_plain:
  "token cap t \<Longrightarrow> CHR '' '' \<notin> set t \<and> CHR 0x0D \<notin> set t \<and> CHR 0x0A \<notin> set t \<and> NUL \<notin> set t"
  by (auto simp: token_def NUL_def less_char_def)

lemma token_hd: "token cap t \<Longrightarrow> dropWhile isspace (t @ r) = t @ r"
  by (cases t) (auto simp: token_def isspace_def less_char_def less_eq_char_def)

lemma scan_request_line:
  assumes "token 16 req" and "token 255 name" and "token 16 proto"
  shows "scan_request (req @ CHR '' '' # name @ CHR '' '' # proto @ CHR 0x0D # r) = Inr (req, name, proto)"
proof -
  have n: "set t \<inter> {CHR '' ''} = {}" "set t \<inter> {CHR '' '', CHR 0x0D, CHR 0x0A} = {}" "t \<noteq> []" "length t < cap"
    if "token cap t" for cap t
    using that token_plain [OF that] by (auto simp: token_def)
  show ?thesis
    using n [OF assms(1)] n [OF assms(2)] n [OF assms(3)] token_hd [OF assms(2)] token_hd [OF assms(3)]
    by (simp add: scan_request_def scan_set_token)
qed

lemma request_path_result:
  assumes "NUL \<notin> set name" and "2 \<le> length name" and "length name < 255"
  shows "request_path name = Inr (takeWhile (\<lambda>c. c \<noteq> NUL) (url_decode (tl name)))"
proof -
  obtain c s where name: "name = c # s" using assms(2) by (cases name) auto
  let ?pad = "replicate (254 - length name) NUL"
  have "replicate (255 - length name) NUL = NUL # ?pad"
    using assms(3) by (simp add: Suc_diff_le flip: replicate_Suc)
  then have a: "name @ replicate (255 - length name) NUL = [c] @ s @ NUL # ?pad" by (simp add: name)
  have "strdecode ([c] @ s @ NUL # ?pad) (int 1) (int 1) =
      Inr (overwrite ([c] @ s @ NUL # ?pad) 1 (url_decode s @ [NUL]))"
    by (rule strdecode_result) (use assms(1) name in simp_all)
  moreover have "c_string (overwrite ([c] @ s @ NUL # ?pad) 1 (url_decode s @ [NUL])) 1 =
      takeWhile (\<lambda>c. c \<noteq> NUL) (url_decode s)"
    by (simp add: c_string_def overwrite_def takeWhile_cut)
  ultimately show ?thesis using assms(2) a by (cases s) (simp_all add: request_path_def name Let_def)
qed

section \<open>Answers\<close>

lemma mime_plain: "NUL \<notin> set (get_mime_type name)"
  by (auto simp: get_mime_type_def NUL_def split: option.splits)

lemma mime_length: "length (get_mime_type name) \<le> 33"
  by (auto simp: get_mime_type_def split: option.splits)

lemma header_fits:
  "to_int n \<le> int_max \<Longrightarrow> length code \<le> 3 \<Longrightarrow> length msg \<le> 9 \<Longrightarrow>
   length (header_text code msg (get_mime_type name) (to_int n)) < 1024"
  using dec_length [of "to_int n"] mime_length [of name]
  by (auto simp: header_text_def)

lemma to_int_bound: "to_int n \<le> int_max"
  using pos_mod_bound [of "2 ^ 32" "n + 2 ^ 31"] by (simp add: to_int_def int_range_defs)

lemma answer_file:
  assumes "fs_stat f p = RegFile n" and "wk o1 = []" and "length (junk_buf f) = 1024"
  shows "answer f p o1 = Inr (False, o1\<lparr>sent := sent o1 @
    header_text ''200'' ''SUCCESS'' (get_mime_type p) (to_int n) @ bytes_of f p\<rparr>)"
proof -
  have "send_header (junk_buf f) ''200'' ''SUCCESS'' (get_mime_type p) (to_int n) o1 =
      Inr (out_write (header_text ''200'' ''SUCCESS'' (get_mime_type p) (to_int n)) o1)"
    by (rule send_header_result)
      (use assms(3) header_fits [OF to_int_bound, of "''200''" "''SUCCESS''"] mime_plain in
        \<open>simp_all add: NUL_def\<close>)
  with assms show ?thesis by (simp add: answer_def out_write_all send_file_all)
qed

lemma answer_directory:
  assumes "fs_stat f p = Directory" and "fs_dir f p = Some names" and "wk o1 = []"
    and "length (junk_buf f) = 1024"
    and "\<forall>e \<in> set names. NUL \<notin> set (fst e) \<and> length (fst e) \<le> 255"
  shows "answer f p o1 = Inr (False, o1\<lparr>sent := sent o1 @
    header_text ''200'' ''SUCCESS'' (get_mime_type ''.html'') 0 @ bytes_of f dir_header @
    concat (map dir_entry (rev names)) @ bytes_of f dir_tail\<rparr>)"
proof -
  have "send_header (junk_buf f) ''200'' ''SUCCESS'' (get_mime_type ''.html'') 0 o1 =
      Inr (out_write (header_text ''200'' ''SUCCESS'' (get_mime_type ''.html'') 0) o1)"
    by (rule send_header_result)
      (use assms(4) header_fits [of 0 "''200''" "''SUCCESS''" "''.html''"] mime_plain [of "''.html''"] in
        \<open>simp_all add: NUL_def to_int_def int_range_defs\<close>)
  with assms show ?thesis by (simp add: answer_def out_write_all send_file_all send_entries_all Let_def)
qed

lemma answer_total:
  assumes "ordinary_fs f"
  shows "\<exists>cl o2. answer f p o1 = Inr (cl, o2)"
proof -
  have fits: "\<exists>o2. send_header (junk_buf f) code msg (get_mime_type name) (to_int n) o1 = Inr o2"
    if "length code \<le> 3" "length msg \<le> 9" "NUL \<notin> set code" "NUL \<notin> set msg" for code msg name n o1
    using send_header_result [OF that(3,4) mime_plain, of name "to_int n" "junk_buf f" o1]
      header_fits [OF to_int_bound that(1,2)] assms by (simp add: ordinary_fs_def)
  have z: "to_int 0 = 0" by (simp add: to_int_def)
  have plain: "NUL \<notin> set ''200''" "NUL \<notin> set ''404''" "NUL \<notin> set ''SUCCESS''" "NUL \<notin> set ''NOT FOUND''"
    by (simp_all add: NUL_def)
  show ?thesis
  proof (cases "fs_stat f p")
    case NoFile
    with fits [of "''404''" "''NOT FOUND''" "''.html''" 0 o1] plain show ?thesis
      unfolding z by (auto simp: answer_def)
  next
    case (RegFile n)
    with fits [of "''200''" "''SUCCESS''" p n o1] plain show ?thesis by (auto simp: answer_def)
  next
    case Directory
    from fits [of "''200''" "''SUCCESS''" "''.html''" 0 o1] plain obtain o2 where
      o2: "send_header (junk_buf f) ''200'' ''SUCCESS'' (get_mime_type ''.html'') 0 o1 = Inr o2"
      unfolding z by auto
    show ?thesis
    proof (cases "fs_dir f p")
      case (Some names)
      with assms have "\<forall>e \<in> set (rev names). length (fst e) \<le> 255" by (auto simp: ordinary_fs_def)
      from send_entries_fit [OF this] obtain o3 where
        "send_entries (rev names) (snd (send_file f dir_header o2)) = Inr o3" by blast
      with o2 Directory Some show ?thesis by (auto simp: answer_def Let_def)
    qed (use o2 Directory in \<open>auto simp: answer_def Let_def\<close>)
  qed (auto simp: answer_def)
qed

text \<open>The scan keeps its words inside the arrays or overruns them; the path always fits.\<close>

lemma scan_set_error: "scan_set cap A s = Inl e \<Longrightarrow> e = OutOfBounds"
  by (simp add: scan_set_def Let_def split: if_splits)

lemma scan_set_word:
  assumes "scan_set cap A s = Inr (Some (t, r))"
  shows "length t < cap" and "set t \<subseteq> set s" and "set r \<subseteq> set s"
proof -
  have t: "t = takeWhile (\<lambda>c. c \<notin> A) s" "r = dropWhile isspace (drop (length t) s)" and "length t < cap"
    using assms by (auto simp: scan_set_def Let_def split: if_splits)
  then show "length t < cap" by simp
  show "set t \<subseteq> set s" unfolding t(1) by (auto dest: set_takeWhileD)
  show "set r \<subseteq> set s" unfolding t(2) by (auto dest!: set_dropWhileD in_set_dropD)
qed

lemma scan_request_error: "scan_request b = Inl e \<Longrightarrow> e = OutOfBounds"
  by (auto simp: scan_request_def bindR_def split: sum.splits option.splits; erule scan_set_error)

lemma scan_request_name:
  assumes "scan_request b = Inr (req, name, proto)"
  shows "length name < 255 \<and> set name \<subseteq> set b"
proof (cases "name = []")
  case False
  with assms obtain s1 s2 where "scan_set 16 {CHR '' ''} b = Inr (Some (req, s1))"
    "scan_set 255 {CHR '' ''} s1 = Inr (Some (name, s2))"
    by (auto simp: scan_request_def split: option.splits)
  with scan_set_word(3) scan_set_word(1,2) show ?thesis by blast
qed simp

lemma request_path_total:
  assumes "NUL \<notin> set name" and "length name < 255"
  shows "\<exists>p. request_path name = Inr p"
proof (cases "length name \<le> 1")
  case False
  with request_path_result [OF assms(1) _ assms(2)] show ?thesis by simp
next
  case True
  let ?a = "name @ replicate (255 - length name) NUL"
  have put: "put_string ?a (int 1) ''./'' = Inr (overwrite ?a 1 (''./'' @ [NUL]))"
    by (rule put_string_result) (use True in simp)
  have "length (overwrite ?a 1 (''./'' @ [NUL])) = 255" using True by simp
  have "drop 1 (overwrite ?a 1 (''./'' @ [NUL])) = ''./'' @ NUL # drop 4 ?a"
    using True by (simp add: overwrite_def)
  from strdecode_result [OF this, of 1] put True show ?thesis
    by (simp add: request_path_def Let_def NUL_def)
qed

section \<open>A request for a file\<close>

lemma callback_serves_file:
  assumes "rl_ok w" and "length (junk_buf f) = 1024" and "wk o1 = []"
    and "token 16 req" and "token 255 name" and "2 \<le> length name" and "token 16 proto"
    and "upcoming fd w = (req @ CHR '' '' # name @ CHR '' '' # proto @ [CHR 0x0D]) @ CHR 0x0A # rest"
    and "path = takeWhile (\<lambda>c. c \<noteq> NUL) (url_decode (tl name))" and "fs_stat f path = RegFile n"
  shows "\<exists>w'. readMessageCallback f fd w o1 = returns (False, w', o1\<lparr>sent := sent o1 @
    header_text ''200'' ''SUCCESS'' (get_mime_type path) (to_int n) @ bytes_of f path\<rparr>)"
proof -
  let ?line = "req @ CHR '' '' # name @ CHR '' '' # proto @ [CHR 0x0D]"
  have plain: "CHR 0x0A \<notin> set ?line" "NUL \<notin> set (?line @ [CHR 0x0A])"
    using token_plain [OF assms(4)] token_plain [OF assms(5)] token_plain [OF assms(7)]
    by (auto simp: NUL_def)
  have short: "length ?line + 1 < 1024" using assms(4,5,7) by (simp add: token_def)
  have l: "take_line (1024 - 1) (upcoming fd w) = ?line @ [CHR 0x0A]"
    unfolding assms(8) by (rule take_line_found) (use plain short in simp_all)
  let ?b = "overwrite (replicate 1024 NUL) 0 ((?line @ [CHR 0x0A]) @ [NUL])"
  from Readline_result [OF assms(1), of 1024 "replicate 1024 NUL" _ fd] obtain w1 where
    r: "Readline fd (replicate 1024 NUL) 1024 w = Inr (int (length (?line @ [CHR 0x0A])), ?b, w1)"
      "rl_ok w1"
    unfolding l readline_value_def readline_text_def readline_post_def NUL_def by auto
  have "length ?b = 1024" using short by simp
  from drain_ends [OF r(2) this] obtain w2 where d: "drain fd ?b w1 = returns w2" by blast
  have "c_string ?b 0 = ?line @ [CHR 0x0A]" by (rule c_string_overwrite) (rule plain)
  then have "scan_request (c_string ?b 0) = Inr (req, name, proto)"
    using scan_request_line [OF assms(4,5,7)] by simp
  moreover have "request_path name = Inr path"
    using request_path_result [of name] token_plain [OF assms(5)] assms(5,6,9) by (simp add: token_def)
  ultimately show ?thesis
    using r(1) d answer_file [OF assms(10,3,2)] by (simp add: readMessageCallback_def)
qed

section \<open>A small file system\<close>

definition small_fs :: fs where
  "small_fs = \<lparr>fs_stat = (\<lambda>p. if p = ''a b.html'' then RegFile 5 else if p = ''aa'' then Directory else NoFile),
     fs_open = (\<lambda>p. if p = ''a b.html'' then Some [Data ''hel'', Data ''lo''] else None),
     fs_dir = (\<lambda>p. Some [(''bb'', True), (''x.c'', False)]), junk_buf = replicate 1024 (CHR ''x'')\<rparr>"

definition request :: "string \<Rightarrow> rl" where
  "request s = \<lparr>read_cnt = 0, read_ptr = 0, read_buf = replicate 100 (CHR ''x''),
     kern = (\<lambda>fd. [Data s, RdErr EAGAIN])\<rparr>"

lemma request_ok: "rl_ok (request s)"
  by (simp add: request_def rl_ok_def)

lemma request_upcoming: "s \<noteq> [] \<Longrightarrow> upcoming fd (request s) = s"
  by (simp add: upcoming_def buffered_def request_def)

definition fresh_out :: out where "fresh_out = \<lparr>sent = [], wk = []\<rparr>"

section \<open>Properties\<close>

text \<open>a well-formed request for a regular file is answered with one header (status 200, the type
  of the file's extension, its size) followed by exactly the bytes of the file, when the socket takes
  all writes; the request is read to its end, and the connection stays open.\<close>

theorem web_serves_file:
  assumes "rl_ok w" and "length (junk_buf f) = 1024" and "wk o1 = []"
    and "token 16 req" and "token 255 name" and "2 \<le> length name" and "token 16 proto"
    and "upcoming fd w = (req @ CHR '' '' # name @ CHR '' '' # proto @ [CHR 0x0D]) @ CHR 0x0A # rest"
    and "path = takeWhile (\<lambda>c. c \<noteq> NUL) (url_decode (tl name))" and "fs_stat f path = RegFile n"
  shows "\<exists>w'. readMessageCallback f fd w o1 = returns (False, w', o1\<lparr>sent := sent o1 @
    header_text ''200'' ''SUCCESS'' (get_mime_type path) (to_int n) @ bytes_of f path\<rparr>)"
  by (rule callback_serves_file [OF assms])

lemma small_path: "takeWhile (\<lambda>c. c \<noteq> NUL) (url_decode (tl ''/a%20b.html'')) = ''a b.html''"
  by (simp add: isxdigit_def isdigit_def less_eq_char_def hexit_def c_char_def char_of_int_def
      char_of_eq_iff NUL_def)

theorem web_serves_file_witness:
  "\<exists>w'. readMessageCallback small_fs 7
      (request ((''GET'' @ CHR '' '' # ''/a%20b.html'' @ CHR '' '' # ''HTTP/1.1'' @ [CHR 0x0D]) @ CHR 0x0A # crlf))
      fresh_out = returns (False, w', \<lparr>sent =
        header_text ''200'' ''SUCCESS'' ''text/html; charset=utf-8'' 5 @ ''hello'', wk = []\<rparr>)"
proof -
  have t: "token 16 ''GET''" "token 255 ''/a%20b.html''" "token 16 ''HTTP/1.1''"
    by (simp_all add: token_def less_char_def)
  have f: "length (junk_buf small_fs) = 1024" "fs_stat small_fs ''a b.html'' = RegFile 5" "wk fresh_out = []"
    "get_mime_type ''a b.html'' = ''text/html; charset=utf-8''" "bytes_of small_fs ''a b.html'' = ''hello''"
    "to_int 5 = 5"
    by (simp_all add: small_fs_def fresh_out_def get_mime_type_def bytes_of_def to_int_def)
  from web_serves_file [OF request_ok f(1) f(3) t(1,2) _ t(3) request_upcoming small_path [symmetric] f(2)]
  show ?thesis unfolding f by (simp add: fresh_out_def)
qed

text \<open>C32: for a directory the client receives the header, the first page part, one entry per name in
  reverse alphabetical order (\<open>while (n--)\<close> starts at the end of the sorted names), and the last
  page part. Conditions: the client's socket takes every write whole (the code ignores short
  writes), \<open>scandir\<close> succeeds, the directory's names have no NUL and at most 255 characters, and the
  stack buffer has its 1024 characters.\<close>

theorem web_lists_directory:
  assumes "fs_stat f p = Directory" and "fs_dir f p = Some names" and "wk o1 = []"
    and "length (junk_buf f) = 1024"
    and "\<forall>e \<in> set names. NUL \<notin> set (fst e) \<and> length (fst e) \<le> 255"
  shows "\<exists>o2. answer f p o1 = Inr (False, o2) \<and> sent o2 = sent o1 @
    header_text ''200'' ''SUCCESS'' ''text/html; charset=utf-8'' 0 @ bytes_of f dir_header @
    concat (rev (map dir_entry names)) @ bytes_of f dir_tail"
proof -
  have "get_mime_type ''.html'' = ''text/html; charset=utf-8''" by (simp add: get_mime_type_def)
  with answer_directory [OF assms] show ?thesis by (simp add: rev_map)
qed

theorem web_lists_directory_witness:
  "\<exists>o2. answer small_fs ''aa'' fresh_out = Inr (False, o2) \<and> sent o2 =
    header_text ''200'' ''SUCCESS'' ''text/html; charset=utf-8'' 0 @
    ''<li><a href=x.c>x.c</a></li><li><a href=bb/>bb</a></li>''"
proof -
  have f: "fs_stat small_fs ''aa'' = Directory"
    "fs_dir small_fs ''aa'' = Some [(''bb'', True), (''x.c'', False)]"
    "wk fresh_out = []" "length (junk_buf small_fs) = 1024"
    "bytes_of small_fs dir_header = []" "bytes_of small_fs dir_tail = []" "sent fresh_out = []"
    by (simp_all add: small_fs_def fresh_out_def bytes_of_def dir_header_def dir_tail_def)
  from web_lists_directory [OF f(1-4)] show ?thesis by (simp add: f dir_entry_def NUL_def)
qed

text \<open>a request line whose first word has sixteen or more characters overruns the array it is
  scanned into: any client can make the server write past its buffer.\<close>

theorem web_request_overflow:
  assumes "rl_ok w" and "upcoming fd w = line @ CHR 0x0A # rest" and "length line + 1 < 1024"
    and "CHR 0x0A \<notin> set line" and "NUL \<notin> set line"
    and "16 \<le> length (takeWhile (\<lambda>c. c \<noteq> CHR '' '') line)"
  shows "readMessageCallback f fd w o1 = faults OutOfBounds"
proof -
  have l: "take_line (1024 - 1) (upcoming fd w) = line @ [CHR 0x0A]"
    unfolding assms(2) by (rule take_line_found) (use assms(3,4) in simp_all)
  let ?b = "overwrite (replicate 1024 NUL) 0 ((line @ [CHR 0x0A]) @ [NUL])"
  from Readline_result [OF assms(1), of 1024 "replicate 1024 NUL" _ fd] obtain w1 where
    r: "Readline fd (replicate 1024 NUL) 1024 w = Inr (int (length (line @ [CHR 0x0A])), ?b, w1)"
    unfolding l readline_value_def readline_text_def NUL_def by auto
  have b: "c_string ?b 0 = line @ [CHR 0x0A]"
    by (rule c_string_overwrite) (use assms(5) in \<open>simp add: NUL_def\<close>)
  have "length (takeWhile (\<lambda>c. c \<noteq> CHR '' '') line) \<le>
      length (takeWhile (\<lambda>c. c \<noteq> CHR '' '') (line @ [CHR 0x0A]))"
    by (induction line) simp_all
  with assms(6) have "scan_set 16 {CHR '' ''} (line @ [CHR 0x0A]) = Inl OutOfBounds"
    by (auto simp: scan_set_def Let_def)
  then show ?thesis using r b by (simp add: readMessageCallback_def scan_request_def)
qed

theorem web_request_overflow_witness:
  "readMessageCallback small_fs 7 (request (''AAAAAAAAAAAAAAAAAAAA'' @ CHR 0x0A # [])) fresh_out = faults OutOfBounds"
  by (rule web_request_overflow [OF request_ok request_upcoming]) (simp_all add: NUL_def)

text \<open>\<open>send_file\<close> ignores how much each write took: after a short write the rest of the chunk is
  skipped, and the client receives a file with a hole.\<close>

theorem send_file_skips_after_short_write:
  assumes "fs_open f name = Some (Data d # k)" and "d \<noteq> []" and "length d \<le> 1024"
    and "wk o1 = [Took m]" and "m \<le> length d"
  shows "sent (snd (send_file f name o1)) = sent o1 @ take m d @ file_bytes k"
proof -
  have "send_file_loop (Data d # k) o1 = send_file_loop k (o1\<lparr>sent := sent o1 @ take m d, wk := []\<rparr>)"
    using assms(2-5) by (subst send_file_loop.simps) (simp add: min_def)
  with assms(1) show ?thesis by (simp add: send_file_def send_file_loop_all)
qed

theorem send_file_skips_after_short_write_witness:
  "sent (snd (send_file small_fs ''a b.html'' \<lparr>sent = [], wk = [Took 1]\<rparr>)) = ''hlo''"
  using send_file_skips_after_short_write [of small_fs "''a b.html''" "''hel''" "[Data ''lo'']"
      "\<lparr>sent = [], wk = [Took 1]\<rparr>" 1]
  by (simp add: small_fs_def)

end
