(* ===== verification/WebLog.thy ===== *)
theory WebLog
  imports WebServer
begin

text \<open>
  \<open>web/log.c\<close>: the log files of the server. The static variables of the file are a record; a
  \<open>FILE *\<close> is a number, and a stream is closed when its number no longer has contents. The time, the
  process id and which files can be opened are parameters; the text of a message is given as
  \<open>vfprintf\<close> has formatted it.
\<close>

section \<open>Constants of \<open>log.h\<close>\<close>

definition LOG_PROCNAME :: int where "LOG_PROCNAME = 0x00000001"
definition LOG_PID :: int where "LOG_PID = 0x00000010"
definition LOG_PERROR :: int where "LOG_PERROR = 0x00000100"
definition NLO_PROCNAME :: int where "NLO_PROCNAME = 0x11111110"
definition NLO_PID :: int where "NLO_PID = 0x11111101"
definition NLO_PERROR :: int where "NLO_PERROR = 0x11111011"
definition MSG_INFO :: int where "MSG_INFO = 0x00000001"
definition MSG_WARN :: int where "MSG_WARN = 0x00000010"
definition LOG_MESSAGE_FILE :: string where "LOG_MESSAGE_FILE = ''/home/itheima/log/tcpsvr''"
definition LOG_MESSAGE_DFMT :: string where "LOG_MESSAGE_DFMT = ''%m-%d %H:%M:%S''"
definition LOG_POSTFIX_MESS :: string where "LOG_POSTFIX_MESS = ''%y%m''"
definition LOG_WARNING_FILE :: string where "LOG_WARNING_FILE = ''/home/itheima/log/log.sys_warn''"
definition LOG_WARNING_DFMT :: string where "LOG_WARNING_DFMT = ''%m-%d %H:%M:%S''"
definition LOG_POSTFIX_WARN :: string where "LOG_POSTFIX_WARN = []"

section \<open>State\<close>

record lg =
  msgopt :: int
  wanopt :: int
  msgdatefmt :: string
  wandatefmt :: string
  ident_name :: string
  msgfile :: "nat option"
  wanfile :: "nat option"
  streams :: "nat \<Rightarrow> (string \<times> string) option"
  next_stream :: nat
  stderr :: string
  be_stime :: "int \<times> int"

definition log_start :: lg where
  "log_start = \<lparr>msgopt = 0, wanopt = 0, msgdatefmt = [], wandatefmt = [], ident_name = [],
     msgfile = None, wanfile = None, streams = (\<lambda>_. None), next_stream = 3, stderr = [], be_stime = (0, 0)\<rparr>"

record log_env =
  strftime :: "string \<Rightarrow> string"
  fopen_ok :: "string \<Rightarrow> bool"
  pid :: int

definition fopen :: "log_env \<Rightarrow> string \<Rightarrow> lg \<Rightarrow> nat option \<times> lg" where
  "fopen e name l =
     (if fopen_ok e name
      then (Some (next_stream l),
            l\<lparr>streams := (streams l)(next_stream l \<mapsto> (name, [])), next_stream := Suc (next_stream l)\<rparr>)
      else (None, l))"

definition fprintf :: "nat option \<Rightarrow> string \<Rightarrow> lg \<Rightarrow> lg res" where
  "fprintf fp s l =
     (case fp of None \<Rightarrow> Inl NullDeref
      | Some n \<Rightarrow> (case streams l n of None \<Rightarrow> Inl UseAfterFree
                   | Some (name, t) \<Rightarrow> Inr (l\<lparr>streams := (streams l)(n \<mapsto> (name, t @ s))\<rparr>)))"

text \<open>\<open>strcpy\<close> into one of the arrays of 100 characters.\<close>

definition copy100 :: "string \<Rightarrow> string res" where
  "copy100 s = (if length s < 100 then Inr s else Inl OutOfBounds)"

section \<open>Writing\<close>

definition padded :: "nat \<Rightarrow> string \<Rightarrow> string" where
  "padded n s = replicate (n - length s) (CHR '' '') @ s"

text \<open>
  \<open>strftime\<close> into an array of \<open>n\<close> characters: a text that does not fit leaves the array indeterminate.
\<close>

definition strftime_into :: "nat \<Rightarrow> log_env \<Rightarrow> string \<Rightarrow> string res" where
  "strftime_into n e fmt =
     (if length (strftime e fmt) < n then Inr (strftime e fmt) else Inl Uninitialised)"

text \<open>The text of the prefix, and its assembly in an array of 1024 characters.\<close>

definition prefix_text :: "log_env \<Rightarrow> int \<Rightarrow> string \<Rightarrow> lg \<Rightarrow> string \<Rightarrow> string" where
  "prefix_text e opt fmt l now =
     now @ '' '' @
     (if and opt LOG_PROCNAME \<noteq> 0 then ident_name l @ '' '' else []) @
     (if and opt LOG_PID \<noteq> 0 then ''['' @ padded 6 (dec (pid e)) @ '']'' else [])"

definition logprefix :: "log_env \<Rightarrow> int \<Rightarrow> string \<Rightarrow> lg \<Rightarrow> string res" where
  "logprefix e opt fmt l =
     bindR (strftime_into 1024 e fmt) (\<lambda>now.
       let t = prefix_text e opt fmt l now
       in if length t < 1024 then Inr t else Inl OutOfBounds)"

definition log_line :: "string \<Rightarrow> string \<Rightarrow> string" where
  "log_line prefix msg = prefix @ '': '' @ msg @ [CHR 0x0A]"

definition msglog :: "log_env \<Rightarrow> int \<Rightarrow> string \<Rightarrow> lg \<Rightarrow> lg res" where
  "msglog e mtype msg l =
     bindR (if and mtype MSG_INFO \<noteq> 0
            then bindR (logprefix e (msgopt l) (msgdatefmt l) l) (\<lambda>prefix.
                   fprintf (msgfile l) (log_line prefix msg) l)
            else Inr l) (\<lambda>l1.
       if and mtype MSG_WARN \<noteq> 0
       then bindR (logprefix e (wanopt l1) (wandatefmt l1) l1) (\<lambda>prefix.
            bindR (fprintf (wanfile l1) (log_line prefix msg) l1) (\<lambda>l2.
              Inr (if and (wanopt l2) LOG_PERROR \<noteq> 0
                   then l2\<lparr>stderr := stderr l2 @ log_line prefix msg\<rparr> else l2)))
       else Inr l1)"

section \<open>Formats, opening, closing\<close>

definition msgLogFormat :: "int \<Rightarrow> string \<Rightarrow> int \<Rightarrow> string \<Rightarrow> lg \<Rightarrow> lg res" where
  "msgLogFormat mopt mdfmt wopt wdfmt l =
     (let l1 = l\<lparr>msgopt := (if mopt \<ge> 0 then mopt else and (msgopt l) mopt),
                 wanopt := (if wopt \<ge> 0 then wopt else and (wanopt l) wopt)\<rparr>
      in bindR (if mdfmt \<noteq> [] then copy100 mdfmt else Inr (msgdatefmt l1)) (\<lambda>mf.
         bindR (if wdfmt \<noteq> [] then copy100 wdfmt else Inr (wandatefmt l1)) (\<lambda>wf.
           Inr (l1\<lparr>msgdatefmt := mf, wandatefmt := wf\<rparr>))))"

text \<open>The name is put together in an array of 200 characters, the date first in one of 100.\<close>

definition dated_name :: "log_env \<Rightarrow> string \<Rightarrow> string \<Rightarrow> string res" where
  "dated_name e pre date =
     (if 200 \<le> length pre then Inl OutOfBounds
      else if date = [] then Inr pre
      else bindR (strftime_into 100 e date) (\<lambda>timestring.
        let name = pre @ ''.'' @ timestring
        in if length name < 200 then Inr name else Inl OutOfBounds))"

text \<open>Opening one of the two files, unless it is open or no name is given; the flag says that it failed.\<close>

definition open_one ::
  "log_env \<Rightarrow> nat option \<Rightarrow> string \<Rightarrow> string \<Rightarrow> lg \<Rightarrow> (bool \<times> nat option \<times> lg) res" where
  "open_one e file pre date l =
     (if file = None \<and> pre \<noteq> []
      then bindR (dated_name e pre date) (\<lambda>name.
             case fopen e name l of (fp, l') \<Rightarrow> Inr (fp = None, fp, l'))
      else Inr (False, file, l))"

text \<open>
  The two files are opened unless they are already; the first file stays open when the second
  cannot be opened. The result is the returned value and the state.
\<close>

definition msgLogOpen ::
  "log_env \<Rightarrow> string \<Rightarrow> string \<Rightarrow> string \<Rightarrow> string \<Rightarrow> string \<Rightarrow> lg \<Rightarrow> (int \<times> lg) res" where
  "msgLogOpen e ident mpre mdate wpre wdate l =
     bindR (open_one e (msgfile l) mpre mdate l) (\<lambda>(failed1, f1, l0).
       let l1 = l0\<lparr>msgfile := f1\<rparr>
       in if failed1 then Inr (-1, l1)
       else bindR (open_one e (wanfile l1) wpre wdate l1) (\<lambda>(failed2, f2, l0).
         let l2 = l0\<lparr>wanfile := f2\<rparr>
         in if failed2 then Inr (-1, l2)
         else if msgfile l2 \<noteq> None \<and> wanfile l2 \<noteq> None
         then
           bindR (copy100 ident) (\<lambda>name.
             let l3 = l2\<lparr>ident_name := name, msgopt := or LOG_PROCNAME LOG_PID,
                         wanopt := or LOG_PROCNAME LOG_PID,
                         msgdatefmt := ''%m-%d %H:%M:%S'', wandatefmt := ''%m-%d %H:%M:%S''\<rparr>
             in bindR (msglog e MSG_INFO
                   (''File is msgfile=['' @ dec (int (the (msgfile l3))) @ ''],wanfile=['' @
                    dec (int (the (wanfile l3))) @ ''].'') l3) (\<lambda>l4. Inr (0, l4)))
         else Inr (-1, l2)))"

definition msgInit :: "log_env \<Rightarrow> string \<Rightarrow> lg \<Rightarrow> (int \<times> lg) res" where
  "msgInit e pName l =
     bindR (msgLogOpen e pName LOG_MESSAGE_FILE LOG_POSTFIX_MESS LOG_WARNING_FILE LOG_POSTFIX_WARN l)
       (\<lambda>(rc, l1).
         if rc = 0
         then bindR (msgLogFormat (or LOG_PROCNAME LOG_PID) LOG_MESSAGE_DFMT
                       (or LOG_PROCNAME LOG_PID) LOG_WARNING_DFMT l1) (\<lambda>l2. Inr (0, l2))
         else Inr (-1, l1))"

text \<open>The streams are closed; the pointers keep their values.\<close>

definition fclose :: "nat option \<Rightarrow> lg \<Rightarrow> lg res" where
  "fclose fp l =
     (case fp of None \<Rightarrow> Inr l
      | Some n \<Rightarrow> (case streams l n of None \<Rightarrow> Inl UseAfterFree
                   | Some _ \<Rightarrow> Inr (l\<lparr>streams := (streams l)(n := None)\<rparr>)))"

definition msgLogClose :: "lg \<Rightarrow> (int \<times> lg) res" where
  "msgLogClose l =
     bindR (fclose (msgfile l) l) (\<lambda>l1. bindR (fclose (wanfile l1) l1) (\<lambda>l2. Inr (0, l2)))"

text \<open>
  Times are pairs of seconds and microseconds, what \<open>gettimeofday\<close> delivers; \<open>long\<close> has 64 bits and
  does not overflow here.
\<close>

definition begusec_process :: "int \<times> int \<Rightarrow> lg \<Rightarrow> int \<times> lg" where
  "begusec_process now l = (0, l\<lparr>be_stime := now\<rparr>)"

definition getusec_process :: "int \<times> int \<Rightarrow> lg \<Rightarrow> int" where
  "getusec_process now l =
     (fst now - fst (be_stime l)) * 1000000 + snd now - snd (be_stime l)"

end
