(* ===== verification/WebLog_Props.thy ===== *)
theory WebLog_Props
  imports WebLog
begin

text \<open>The promises of \<open>web/log.c\<close>, and what its option masks and \<open>msgLogClose\<close> really do.\<close>

section \<open>Open logs\<close>

definition log_open :: "lg \<Rightarrow> nat \<Rightarrow> nat \<Rightarrow> bool" where
  "log_open l a b \<longleftrightarrow>
     msgfile l = Some a \<and> wanfile l = Some b \<and> a \<noteq> b \<and> streams l a \<noteq> None \<and> streams l b \<noteq> None"

text \<open>What a stream holds.\<close>

definition content :: "lg \<Rightarrow> nat \<Rightarrow> string" where
  "content l n = (case streams l n of None \<Rightarrow> [] | Some (name, t) \<Rightarrow> t)"

definition good_env :: log_env where
  "good_env = \<lparr>strftime = (\<lambda>f. ''T''), fopen_ok = (\<lambda>n. True), pid = 42\<rparr>"

definition open_log :: lg where
  "open_log = log_start\<lparr>msgopt := 17, wanopt := 273, msgdatefmt := ''%H'', wandatefmt := ''%H'',
     ident_name := ''web'', msgfile := Some 3, wanfile := Some 4,
     streams := [3 \<mapsto> (''a'', []), 4 \<mapsto> (''b'', ''x'')], next_stream := 5\<rparr>"

lemma open_log_ok: "log_open open_log 3 4"
  by (simp add: log_open_def open_log_def)

text \<open>The prefix fits into its array.\<close>

definition prefix_fits :: "log_env \<Rightarrow> int \<Rightarrow> string \<Rightarrow> lg \<Rightarrow> bool" where
  "prefix_fits e opt fmt l \<longleftrightarrow> length (prefix_text e opt fmt l (strftime e fmt)) < 1024"

lemma logprefix_fits:
  "prefix_fits e opt fmt l \<Longrightarrow> logprefix e opt fmt l = Inr (prefix_text e opt fmt l (strftime e fmt))"
  by (auto simp: prefix_fits_def logprefix_def strftime_into_def prefix_text_def)

lemma prefix_text_streams [simp]:
  "prefix_text e opt fmt (l\<lparr>streams := st\<rparr>) now = prefix_text e opt fmt l now"
  by (simp add: prefix_text_def)

lemma prefix_fits_streams [simp]:
  "prefix_fits e opt fmt (l\<lparr>streams := st\<rparr>) = prefix_fits e opt fmt l"
  by (simp add: prefix_fits_def)

definition info_line :: "log_env \<Rightarrow> string \<Rightarrow> lg \<Rightarrow> string" where
  "info_line e msg l =
     log_line (prefix_text e (msgopt l) (msgdatefmt l) l (strftime e (msgdatefmt l))) msg"

definition warn_line :: "log_env \<Rightarrow> string \<Rightarrow> lg \<Rightarrow> string" where
  "warn_line e msg l =
     log_line (prefix_text e (wanopt l) (wandatefmt l) l (strftime e (wandatefmt l))) msg"

lemma usec_measures_from_begusec:
  "begusec_process begun l = (0, l') \<Longrightarrow>
   getusec_process (fst begun + s, snd begun + u) l' = s * 1000000 + u"
  by (auto simp: begusec_process_def getusec_process_def)

section \<open>Properties\<close>

text \<open>C31: with both logs open, and prefixes (date, name, process id) that fit their array of 1024
  characters, \<open>msglog\<close> appends exactly one line to each file its type selects: \<open>MSG_INFO\<close> the message
  log, \<open>MSG_WARN\<close> the warning log (the comments of \<open>log.h\<close> name them the other way round). A warning goes to the standard error too when \<open>LOG_PERROR\<close> is set.
  No other stream and no setting changes.\<close>

theorem msglog_appends_line:
  assumes "log_open l a b" and "prefix_fits e (msgopt l) (msgdatefmt l) l"
    and "prefix_fits e (wanopt l) (wandatefmt l) l"
  shows "\<exists>l'. msglog e mtype msg l = Inr l' \<and> log_open l' a b \<and>
    content l' a = content l a @ (if and mtype MSG_INFO \<noteq> 0 then info_line e msg l else []) \<and>
    content l' b = content l b @ (if and mtype MSG_WARN \<noteq> 0 then warn_line e msg l else []) \<and>
    stderr l' = stderr l @ (if and mtype MSG_WARN \<noteq> 0 \<and> and (wanopt l) LOG_PERROR \<noteq> 0
      then warn_line e msg l else []) \<and>
    (\<forall>n. n \<noteq> a \<and> n \<noteq> b \<longrightarrow> streams l' n = streams l n) \<and>
    l' = l\<lparr>streams := streams l', stderr := stderr l'\<rparr>"
proof -
  from assms(1) obtain na ta nb tb where f: "msgfile l = Some a" "wanfile l = Some b" "a \<noteq> b"
    "streams l a = Some (na, ta)" "streams l b = Some (nb, tb)" by (auto simp: log_open_def)
  then show ?thesis
    using assms(2,3) by (cases "and mtype MSG_INFO = 0"; cases "and mtype MSG_WARN = 0")
      (simp_all add: msglog_def fprintf_def content_def log_open_def logprefix_fits info_line_def
        warn_line_def Let_def)
qed

theorem msglog_appends_line_witness:
  "\<exists>l'. msglog good_env 17 ''hi'' open_log = Inr l' \<and>
    content l' 3 = ''T web [    42]: hi'' @ [CHR 0x0A] \<and>
    content l' 4 = ''xT web [    42]: hi'' @ [CHR 0x0A] \<and>
    stderr l' = ''T web [    42]: hi'' @ [CHR 0x0A]"
proof -
  have c: "MSG_INFO = 1" "MSG_WARN = 16" "LOG_PROCNAME = 1" "LOG_PID = 16" "LOG_PERROR = 256"
    "dec 42 = ''42''"
    by (simp_all add: MSG_INFO_def MSG_WARN_def LOG_PROCNAME_def LOG_PID_def LOG_PERROR_def dec_def
        dec_nat.simps digit_def char_of_eq_iff)
  have "prefix_fits good_env (msgopt open_log) (msgdatefmt open_log) open_log"
    "prefix_fits good_env (wanopt open_log) (wandatefmt open_log) open_log"
    by (simp_all add: prefix_fits_def prefix_text_def padded_def c open_log_def log_start_def good_env_def)
  from msglog_appends_line [OF open_log_ok this, of 17 "''hi''"] obtain l' where
    "msglog good_env 17 ''hi'' open_log = Inr l'"
    "content l' 3 = ''T web [    42]: hi'' @ [CHR 0x0A]"
    "content l' 4 = ''xT web [    42]: hi'' @ [CHR 0x0A]"
    "stderr l' = ''T web [    42]: hi'' @ [CHR 0x0A]"
    by (auto simp: c open_log_def good_env_def log_start_def content_def log_line_def prefix_text_def
        info_line_def warn_line_def padded_def numeral_eq_Suc)
  then show ?thesis by blast
qed

text \<open>the \<open>NLO_\<close> masks that \<open>log.h\<close> offers for switching one part of the prefix off are positive
  numbers, which \<open>msgLogFormat\<close> stores instead of masking with them: switching the process name
  off switches the process id on, and the copy of warnings to the standard error too.\<close>

theorem NLO_masks_do_not_mask:
  "\<exists>l'. msgLogFormat NLO_PROCNAME [] NLO_PROCNAME [] l = Inr l' \<and>
    msgopt l' = NLO_PROCNAME \<and> wanopt l' = NLO_PROCNAME \<and>
    and (wanopt l') LOG_PROCNAME = 0 \<and> and (wanopt l') LOG_PID \<noteq> 0 \<and> and (wanopt l') LOG_PERROR \<noteq> 0"
  by (simp add: msgLogFormat_def NLO_PROCNAME_def LOG_PROCNAME_def LOG_PID_def LOG_PERROR_def Let_def)

text \<open>\<open>msgLogClose\<close> closes both streams but keeps the pointers: the next message is written to a
  closed stream, and opening the logs again does not help, because \<open>msgLogOpen\<close> takes the logs to be
  open still.\<close>

theorem log_unusable_after_close:
  assumes "log_open l a b" and "prefix_fits e (msgopt l) (msgdatefmt l) l"
    and "length ident < 100" and "length (strftime e LOG_MESSAGE_DFMT) + length (dec (pid e)) < 900"
  shows "\<exists>l'. msgLogClose l = Inr (0, l') \<and> msglog e MSG_INFO msg l' = Inl UseAfterFree \<and>
    msgLogOpen e ident mpre mdate wpre wdate l' = Inl UseAfterFree"
proof -
  from assms(1) obtain na ta nb tb where f: "msgfile l = Some a" "wanfile l = Some b" "a \<noteq> b"
    "streams l a = Some (na, ta)" "streams l b = Some (nb, tb)" by (auto simp: log_open_def)
  have m: "and MSG_INFO MSG_INFO \<noteq> (0::int)" by (simp add: MSG_INFO_def)
  define l' where "l' = l\<lparr>streams := (streams l)(a := None, b := None)\<rparr>"
  define l3 where "l3 = l'\<lparr>msgfile := Some a, wanfile := Some b, ident_name := ident, msgopt := or LOG_PROCNAME LOG_PID,
    wanopt := or LOG_PROCNAME LOG_PID, msgdatefmt := LOG_MESSAGE_DFMT, wandatefmt := LOG_MESSAGE_DFMT\<rparr>"
  have g: "msgfile l' = Some a" "wanfile l' = Some b" "streams l' a = None"
    using f by (simp_all add: l'_def)
  have "msgLogClose l = Inr (0, l')" using f by (simp add: msgLogClose_def fclose_def l'_def)
  moreover have "msglog e MSG_INFO msg l' = Inl UseAfterFree"
    using f m assms(2) by (simp add: msglog_def fprintf_def logprefix_fits l'_def)
  moreover have "prefix_fits e (msgopt l3) (msgdatefmt l3) l3"
    using assms(3,4) by (auto simp: prefix_fits_def prefix_text_def padded_def l3_def)
  then have "msglog e MSG_INFO t l3 = Inl UseAfterFree" for t
    using f m by (simp add: msglog_def fprintf_def logprefix_fits l3_def l'_def)
  then have "msgLogOpen e ident mpre mdate wpre wdate l' = Inl UseAfterFree"
    using g assms(3) by (simp add: msgLogOpen_def open_one_def copy100_def Let_def l3_def
        LOG_MESSAGE_DFMT_def)
  ultimately show ?thesis by blast
qed

theorem log_unusable_after_close_witness:
  "\<exists>l'. msgLogClose open_log = Inr (0, l') \<and>
    msgLogOpen good_env ''web'' ''m'' [] ''w'' [] l' = Inl UseAfterFree"
proof -
  have c: "LOG_PROCNAME = 1" "LOG_PID = 16" "dec 42 = ''42''"
    by (simp_all add: LOG_PROCNAME_def LOG_PID_def dec_def dec_nat.simps digit_def char_of_eq_iff)
  have "prefix_fits good_env (msgopt open_log) (msgdatefmt open_log) open_log"
    by (simp add: prefix_fits_def prefix_text_def padded_def c open_log_def log_start_def good_env_def)
  moreover have "length (strftime good_env LOG_MESSAGE_DFMT) + length (dec (pid good_env)) < 900"
    by (simp add: good_env_def c)
  ultimately show ?thesis
    using log_unusable_after_close [OF open_log_ok, of good_env "''web''" "''x''" "''m''" "[]" "''w''" "[]"]
    by auto
qed

end
