(* ===== verification/Web_System.thy ===== *)
theory Web_System
  imports WebServer
begin

text \<open>
  \<open>testWebServer\<close> of \<open>web/webserver.c\<close>: the set-up and the event loop, whose events are connections
  and requests. All clients share the read-ahead buffer of \<open>my_read\<close>. The event library is a parameter:
  which of its constructors succeed, and the order of the events.
\<close>

section \<open>Set-up\<close>

text \<open>
  The working directory, put together in an array of 255 characters; \<open>None\<close>: HOME is not set.
\<close>

definition web_path :: "string option \<Rightarrow> string res" where
  "web_path home =
     (case home of
        None \<Rightarrow> Inl NullDeref
      | Some h \<Rightarrow>
          bindR (put_string (replicate 255 NUL) 0 (h @ ''/'' @ ''Desktop/C++/ipc/web/webpath''))
            (\<lambda>path. Inr (c_string path 0)))"

text \<open>
  The directory and the listening socket; \<open>None\<close>: one of the library's constructors failed. The
  numbers are what \<open>socket\<close>, \<open>bind\<close> and \<open>listen\<close> return.
\<close>

definition web_setup ::
  "string option \<Rightarrow> int \<Rightarrow> int \<Rightarrow> int \<Rightarrow> bool \<Rightarrow> bool \<Rightarrow> (string \<times> int \<times> sockaddr) option res" where
  "web_setup home socket_rc bind_rc listen_rc base_ok event_ok =
     bindR (web_path home) (\<lambda>path.
     bindR (tcp4bind socket_rc (\<lambda>_. (0, 0)) bind_rc 9999 None) (\<lambda>(lfd, addr).
     bindR (Listen listen_rc) (\<lambda>_.
       Inr (if base_ok \<and> event_ok then Some (path, lfd, addr) else None))))"

section \<open>The event loop\<close>

text \<open>
  The descriptors with a registered event, the closed ones (their events stay registered), the
  buffer with the data still to arrive, and what each client has received.
\<close>

record web =
  watched :: "int list"
  closed :: "nat set"
  w_rl :: rl
  w_out :: "nat \<Rightarrow> out"

datatype web_event = WConnect int bool | WReadable nat

text \<open>A closed descriptor is no longer reported; a new connection may get its number again.\<close>

definition web_exec :: "fs \<Rightarrow> web_event \<Rightarrow> web \<Rightarrow> web run option" where
  "web_exec f e s =
     (case e of
        WConnect cfd ok \<Rightarrow>
          Some (lift_res (bindR (connectCallback cfd ok (watched s)) (\<lambda>fds.
            Inr (s\<lparr>watched := fds, closed := (if cfd > 0 then closed s - {nat cfd} else closed s)\<rparr>))))
      | WReadable fd \<Rightarrow>
          if int fd \<in> set (watched s) \<and> fd \<notin> closed s
          then Some (bindM (readMessageCallback f fd (w_rl s) (w_out s fd)) (\<lambda>(cl, w, o1).
                 returns (s\<lparr>w_rl := w, w_out := (w_out s)(fd := o1),
                            closed := (if cl then insert fd (closed s) else closed s)\<rparr>)))
          else None)"

text \<open>
  A run of events: \<open>None\<close> if one of them cannot happen, otherwise how the server goes on: it may not
  return, it may fault, or it is in a new state.
\<close>

fun web_run :: "fs \<Rightarrow> web_event list \<Rightarrow> web \<Rightarrow> web run option" where
  "web_run f [] s = Some (returns s)"
| "web_run f (e # es) s =
     (case web_exec f e s of
        None \<Rightarrow> None
      | Some None \<Rightarrow> Some None
      | Some (Some (Inl err)) \<Rightarrow> Some (faults err)
      | Some (Some (Inr s')) \<Rightarrow> web_run f es s')"

text \<open>Before the first event: nothing has been read; \<open>k\<close> is what the clients will send.\<close>

definition web_start :: "string \<Rightarrow> (nat \<Rightarrow> rd list) \<Rightarrow> (nat \<Rightarrow> out) \<Rightarrow> web" where
  "web_start buf k outs =
     \<lparr>watched = [], closed = {}, w_rl = \<lparr>read_cnt = 0, read_ptr = 0, read_buf = buf, kern = k\<rparr>,
      w_out = outs\<rparr>"

section \<open>The demonstration of \<open>scandir\<close>\<close>

definition testScandir :: "fs \<Rightarrow> string list" where
  "testScandir f =
     (case fs_dir f ''/Users/daiwenbo/Desktop/C++/ipc/web/webpath'' of
        None \<Rightarrow> []
      | Some names \<Rightarrow> map fst (rev names))"

end
