(* ===== verification/Web_System_Props.thy ===== *)
theory Web_System_Props
  imports Web_System WebServer_Props
begin

text \<open>
  The web server as a whole: \<open>my_read\<close> has one buffer for all clients, and yet no client sees
  another's bytes, because every request is read to its end before the next event.
\<close>

section \<open>Between two events\<close>

text \<open>The shared buffer is empty.\<close>

definition web_ok :: "rl \<Rightarrow> bool" where
  "web_ok w \<longleftrightarrow> rl_ok w \<and> buffered w = []"

lemma web_ok_upcoming: "web_ok w \<Longrightarrow> upcoming fd w = avail (kern w fd)"
  by (simp add: web_ok_def upcoming_def)

text \<open>The request line that \<open>sscanf\<close> sees when this is what a client has sent.\<close>

definition request_line :: "string \<Rightarrow> string" where
  "request_line d = takeWhile (\<lambda>c. c \<noteq> NUL) (take_line 1023 d)"

lemma request_line_plain: "NUL \<notin> set (request_line d)"
  by (auto simp: request_line_def dest: set_takeWhileD)

text \<open>
  The callback returns, and leaves the buffer empty and the other clients' input alone, or it
  overruns an array with a word of the request line.
\<close>

lemma callback_ok:
  assumes "web_ok w"
  shows "\<exists>r. readMessageCallback f fd w o1 = Some r \<and>
    (\<forall>cl w' o2. r = Inr (cl, w', o2) \<longrightarrow> web_ok w' \<and> same_others fd w w') \<and>
    (\<forall>err. r = Inl err \<longrightarrow> ordinary_fs f \<longrightarrow>
       err = OutOfBounds \<and> scan_request (request_line (upcoming fd w)) = Inl OutOfBounds)"
proof -
  let ?l = "take_line (1024 - 1) (upcoming fd w)"
  let ?v = "readline_value 1024 0 (1024 - 1) ?l (stop (kern w fd))"
  let ?b = "overwrite (replicate 1024 NUL) 0 (readline_text (1024 - 1) ?l (stop (kern w fd)))"
  have "rl_ok w" using assms by (simp add: web_ok_def)
  from Readline_result [OF this _ _ refl, of 1024 "replicate 1024 NUL" fd] obtain w1 where
    r: "Readline fd (replicate 1024 NUL) 1024 w = Inr (?v, ?b, w1)" "readline_post fd w (1024 - 1) ?l w1"
    by (simp only: length_replicate le_refl zero_less_numeral simp_thms) blast
  show ?thesis
  proof (cases "?v \<le> 0")
    case True
    then have "CHR 0x0A \<notin> set ?l" "length ?l \<noteq> 1024 - 1"
      by (auto simp: readline_value_def split: if_splits)
    with r(2) have "web_ok w1 \<and> same_others fd w w1" by (simp add: readline_post_def web_ok_def)
    moreover have "readMessageCallback f fd w o1 = returns (True, w1, o1)"
      using True r(1) by (simp add: readMessageCallback_def)
    ultimately show ?thesis by (simp add: returns_def)
  next
    case False
    have ln: "length ?l \<le> 1023" using length_take_line [of 1023] by simp
    then have "length ?b = 1024" by (simp add: readline_text_def)
    with r(2) drain_ends [of w1 ?b fd] obtain w2 where d: "drain fd ?b w1 = returns w2" "rl_ok w2"
      "same_others fd w1 w2" "buffered w2 = []" by (auto simp: readline_post_def)
    have same: "same_others fd w w2"
      using r(2) d(3) by (auto simp: readline_post_def intro: same_others_trans)
    have "readline_text (1024 - 1) ?l (stop (kern w fd)) = ?l @ [CHR 0x00]"
      using False by (auto simp: readline_value_def readline_text_def split: if_splits)
    then have seen: "c_string ?b 0 = request_line (upcoming fd w)"
      by (simp add: c_string_def overwrite_def request_line_def NUL_def takeWhile_cut)
    let ?line = "request_line (upcoming fd w)"
    have "readMessageCallback f fd w o1 =
        bindM (lift_res (scan_request (c_string ?b 0))) (\<lambda>(reqType, fileName, protocal).
        bindM (lift_res (request_path fileName)) (\<lambda>pFile.
        bindM (lift_res (answer f pFile o1)) (\<lambda>(cl, o2). returns (cl, w2, o2))))"
      using False r(1) d(1) by (simp add: readMessageCallback_def)
    note cb = this [unfolded seen]
    have ok: "web_ok w2" using d(2,4) by (simp add: web_ok_def)
    show ?thesis
    proof (cases "scan_request ?line")
      case (Inl e)
      then have "readMessageCallback f fd w o1 = faults e" by (simp add: cb)
      with Inl scan_request_error [OF Inl] show ?thesis by (simp add: faults_def)
    next
      case (Inr q)
      obtain req name proto where q: "q = (req, name, proto)" by (cases q)
      have "NUL \<notin> set name \<and> length name < 255"
        using scan_request_name [of ?line req name proto] Inr q request_line_plain by auto
      with request_path_total obtain p where p: "request_path name = Inr p" by blast
      then have "readMessageCallback f fd w o1 =
          bindM (lift_res (answer f p o1)) (\<lambda>(cl, o2). returns (cl, w2, o2))"
        by (simp add: cb Inr q)
      then have "readMessageCallback f fd w o1 =
          Some (case answer f p o1 of Inl e \<Rightarrow> Inl e | Inr (cl, o2) \<Rightarrow> Inr (cl, w2, o2))"
        by (cases "answer f p o1") (auto simp: bindM_def lift_res_def returns_def faults_def)
      with ok same answer_total [of f p o1] show ?thesis by (auto split: sum.splits)
    qed
  qed
qed

text \<open>Why an event stops the process.\<close>

definition stops_server :: "web \<Rightarrow> web_event \<Rightarrow> c_error \<Rightarrow> bool" where
  "stops_server s e err \<longleftrightarrow>
     (case e of
        WConnect cfd event_ok \<Rightarrow> \<not> event_ok \<and> err = Exited 0
      | WReadable fd \<Rightarrow>
          err = OutOfBounds \<and> scan_request (request_line (avail (kern (w_rl s) fd))) = Inl OutOfBounds)"

lemma web_exec_ok:
  assumes "web_ok (w_rl s)" and "web_exec f e s = Some r"
  shows "\<exists>q. r = Some q \<and> (\<forall>s'. q = Inr s' \<longrightarrow> web_ok (w_rl s')) \<and>
    (\<forall>err. q = Inl err \<longrightarrow> ordinary_fs f \<longrightarrow> stops_server s e err)"
proof (cases e)
  case (WConnect c ok)
  with assms show ?thesis
    by (auto simp: web_exec_def connectCallback_def lift_res_def stops_server_def split: if_splits)
next
  case (WReadable fd)
  with assms(2) have r: "r = bindM (readMessageCallback f fd (w_rl s) (w_out s fd)) (\<lambda>(cl, w, o1).
      returns (s\<lparr>w_rl := w, w_out := (w_out s)(fd := o1),
        closed := (if cl then insert fd (closed s) else closed s)\<rparr>))"
    by (simp add: web_exec_def split: if_splits)
  from callback_ok [OF assms(1), of f fd "w_out s fd"] obtain q where
    q: "readMessageCallback f fd (w_rl s) (w_out s fd) = Some q"
      "\<forall>cl w' o2. q = Inr (cl, w', o2) \<longrightarrow> web_ok w' \<and> same_others fd (w_rl s) w'"
      "\<forall>err. q = Inl err \<longrightarrow> ordinary_fs f \<longrightarrow>
         err = OutOfBounds \<and> scan_request (request_line (upcoming fd (w_rl s))) = Inl OutOfBounds" by blast
  then show ?thesis using r WReadable web_ok_upcoming [OF assms(1)]
    by (cases q) (auto simp: bindM_def returns_def faults_def stops_server_def split: prod.splits)
qed

lemma web_run_ok:
  "web_ok (w_rl s) \<Longrightarrow> web_run f es s = Some r \<Longrightarrow>
   \<exists>q. r = Some q \<and> (\<forall>s'. q = Inr s' \<longrightarrow> web_ok (w_rl s')) \<and>
     (\<forall>err. q = Inl err \<longrightarrow> ordinary_fs f \<longrightarrow>
        (\<exists>es1 e es2 s1. es = es1 @ e # es2 \<and> web_run f es1 s = Some (returns s1) \<and>
           stops_server s1 e err))"
proof (induction es arbitrary: s)
  case Nil
  then show ?case by (auto simp: returns_def)
next
  case (Cons e es)
  then obtain r1 where r1: "web_exec f e s = Some r1" by (auto split: option.splits)
  from web_exec_ok [OF Cons.prems(1) r1] obtain q1 where q1: "r1 = Some q1"
    "\<forall>s'. q1 = Inr s' \<longrightarrow> web_ok (w_rl s')"
    "\<forall>err. q1 = Inl err \<longrightarrow> ordinary_fs f \<longrightarrow> stops_server s e err" by blast
  show ?case
  proof (cases q1)
    case (Inl err)
    with Cons.prems(2) r1 q1(1) have "r = Some (Inl err)" by (simp add: faults_def)
    moreover have "web_run f [] s = Some (returns s)" by simp
    ultimately show ?thesis using q1(3) Inl by (metis append_Nil Inl_Inr_False sum.inject(1))
  next
    case (Inr s')
    with Cons.prems(2) r1 q1(1) have "web_run f es s' = Some r" by simp
    with Cons.IH [of s'] q1(2) Inr obtain q where q: "r = Some q"
      "\<forall>s''. q = Inr s'' \<longrightarrow> web_ok (w_rl s'')"
      "\<And>err. q = Inl err \<Longrightarrow> ordinary_fs f \<Longrightarrow>
         \<exists>es1 e' es2 s1. es = es1 @ e' # es2 \<and> web_run f es1 s' = Some (returns s1) \<and>
           stops_server s1 e' err" by blast
    have step: "web_run f (e # es1) s = web_run f es1 s'" for es1 using r1 q1(1) Inr by simp
    have "\<exists>es1 e' es2 s1. e # es = es1 @ e' # es2 \<and> web_run f es1 s = Some (returns s1) \<and>
        stops_server s1 e' err" if "q = Inl err" "ordinary_fs f" for err
      using q(3) [OF that] step by (metis append_Cons)
    with q show ?thesis by blast
  qed
qed

lemma web_start_ok: "length buf = 100 \<Longrightarrow> web_ok (w_rl (web_start buf k outs))"
  by (simp add: web_start_def web_ok_def rl_ok_def buffered_def)

section \<open>A client that connects and closes\<close>

definition idle_fs :: fs where
  "idle_fs = \<lparr>fs_stat = (\<lambda>_. NoFile), fs_open = (\<lambda>_. None), fs_dir = (\<lambda>_. None), junk_buf = []\<rparr>"

definition idle_start :: web where
  "idle_start = web_start (replicate 100 NUL) (\<lambda>_. []) (\<lambda>_. \<lparr>sent = [], wk = []\<rparr>)"

section \<open>Two clients, one of which has sent its whole request\<close>

definition busy_start :: web where
  "busy_start = web_start (replicate 100 (CHR ''x''))
     (\<lambda>fd. if fd = 7 then [Data ((''GET'' @ CHR '' '' # ''/a%20b.html'' @ CHR '' '' # ''HTTP/1.1'' @ [CHR 0x0D]) @
        CHR 0x0A # crlf), RdErr EAGAIN] else if fd = 6 then [Data ''GET'', RdErr EAGAIN] else [])
     (\<lambda>_. fresh_out)"

lemma busy_connects:
  "web_run small_fs [WConnect 6 True, WConnect 7 True] busy_start =
     Some (returns (busy_start\<lparr>watched := [6, 7]\<rparr>))"
  by (simp add: busy_start_def web_start_def web_exec_def connectCallback_def returns_def)

lemma busy_client:
  shows "token 16 ''GET''" and "token 255 ''/a%20b.html''" and "2 \<le> length ''/a%20b.html''"
    and "token 16 ''HTTP/1.1''" and "length (junk_buf small_fs) = 1024"
    and "fs_stat small_fs ''a b.html'' = RegFile 5"
    and "get_mime_type ''a b.html'' = ''text/html; charset=utf-8''"
    and "bytes_of small_fs ''a b.html'' = ''hello''" and "to_int 5 = 5"
  by (simp_all add: token_def less_char_def small_fs_def get_mime_type_def bytes_of_def to_int_def)

lemma busy_sent:
  "avail (kern (w_rl busy_start) 7) =
     (''GET'' @ CHR '' '' # ''/a%20b.html'' @ CHR '' '' # ''HTTP/1.1'' @ [CHR 0x0D]) @ CHR 0x0A # crlf"
  "avail (kern (w_rl busy_start) 6) = ''GET''"
  "w_out busy_start 7 = fresh_out"
  by (simp_all add: busy_start_def web_start_def)

lemma busy_ok: "web_ok (w_rl busy_start)"
  unfolding busy_start_def by (rule web_start_ok) simp

lemma busy_answered:
  "\<exists>s. web_exec small_fs (WReadable 7) (busy_start\<lparr>watched := [6, 7]\<rparr>) = Some (returns s) \<and>
     kern (w_rl s) 6 = kern (w_rl busy_start) 6"
proof -
  note up = web_ok_upcoming [OF busy_ok, of 7, unfolded busy_sent(1)]
  have "rl_ok (w_rl busy_start)" using busy_ok by (simp add: web_ok_def)
  from callback_serves_file [OF this busy_client(5) _ busy_client(1-4) up small_path [symmetric] busy_client(6),
      of fresh_out]
  obtain w' o' where r: "readMessageCallback small_fs 7 (w_rl busy_start) fresh_out = returns (False, w', o')"
    by (auto simp: fresh_out_def)
  with callback_ok [OF busy_ok, of small_fs 7 fresh_out] have "same_others 7 (w_rl busy_start) w'"
    by (auto simp: returns_def)
  moreover have "closed busy_start = {}" by (simp add: busy_start_def web_start_def)
  ultimately show ?thesis using r by (simp add: web_exec_def busy_sent(3) same_others_def)
qed

lemma small_ordinary: "ordinary_fs small_fs"
  by (simp add: ordinary_fs_def small_fs_def NUL_def)

section \<open>Properties\<close>

text \<open>C6: whatever the order of connections and requests, the server handles every event in finite
  time. Either the run goes on, and then at the next event each client's request is read from that
  client's own bytes only: the buffer that \<open>my_read\<close> shares between all descriptors is empty. Or
  the process has stopped, and then at an event of one of two kinds: \<open>event_new\<close> failed for a new
  client (\<open>exit(0)\<close>), or the words of a client's request line do not fit the arrays of 16, 255 and
  16 characters that \<open>sscanf\<close> fills without a width. Assumed: the stack buffer has its 1024
  characters and directory names have at most 255, without NUL.\<close>

theorem web_clients_separate:
  assumes "length buf = 100" and "ordinary_fs f" and "web_run f es (web_start buf k outs) = Some r"
  shows "(\<exists>s. r = returns s \<and> (\<forall>fd. upcoming fd (w_rl s) = avail (kern (w_rl s) fd))) \<or>
    (\<exists>err es1 e es2 s. r = faults err \<and> es = es1 @ e # es2 \<and>
       web_run f es1 (web_start buf k outs) = Some (returns s) \<and> stops_server s e err)"
proof -
  from web_run_ok [OF web_start_ok [OF assms(1)] assms(3)] assms(2) obtain q where q: "r = Some q"
    "\<forall>s. q = Inr s \<longrightarrow> web_ok (w_rl s)"
    "\<forall>err. q = Inl err \<longrightarrow> (\<exists>es1 e es2 s. es = es1 @ e # es2 \<and>
       web_run f es1 (web_start buf k outs) = Some (returns s) \<and> stops_server s e err)" by blast
  then show ?thesis using web_ok_upcoming
    by (cases q) (auto simp: returns_def faults_def)
qed

theorem web_clients_separate_witness:
  "\<exists>s. web_run small_fs [WConnect 6 True, WConnect 7 True, WReadable 7] busy_start = Some (returns s) \<and>
     upcoming 6 (w_rl s) = ''GET''"
proof -
  from busy_answered obtain s where
    s: "web_exec small_fs (WReadable 7) (busy_start\<lparr>watched := [6, 7]\<rparr>) = Some (returns s)"
      "kern (w_rl s) 6 = kern (w_rl busy_start) 6" by blast
  have "web_run small_fs [WConnect 6 True, WConnect 7 True, WReadable 7] busy_start = Some (returns s)"
    using s(1) by (simp add: busy_start_def web_start_def web_exec_def connectCallback_def returns_def)
  moreover have "length (replicate 100 (CHR ''x'')) = 100" by simp
  from web_clients_separate [OF this small_ordinary calculation [unfolded busy_start_def]]
  have "upcoming 6 (w_rl s) = avail (kern (w_rl s) 6)" by auto
  ultimately show ?thesis using s(2) busy_sent(2) by (intro exI [of _ s]) simp
qed

text \<open>handling a readable client changes neither what other clients have received nor what they
  will send.\<close>

theorem web_event_local:
  assumes "web_ok (w_rl s)" and "web_exec f (WReadable fd) s = Some (returns s')" and "other \<noteq> fd"
  shows "w_out s' other = w_out s other \<and> kern (w_rl s') other = kern (w_rl s) other"
proof -
  from callback_ok [OF assms(1), of f fd "w_out s fd"] obtain q where
    q: "readMessageCallback f fd (w_rl s) (w_out s fd) = Some q"
      "\<forall>cl w' o2. q = Inr (cl, w', o2) \<longrightarrow> same_others fd (w_rl s) w'" by blast
  with assms(2,3) show ?thesis
    by (cases q) (auto simp: web_exec_def bindM_def returns_def faults_def same_others_def split: if_splits)
qed

theorem web_event_local_witness:
  "\<exists>s'. web_exec idle_fs (WReadable 5) (idle_start\<lparr>watched := [5]\<rparr>) = Some (returns s') \<and>
     w_out s' 6 = \<lparr>sent = [], wk = []\<rparr>"
proof -
  have ok: "web_ok (w_rl (idle_start\<lparr>watched := [5]\<rparr>))"
    using web_start_ok [of "replicate 100 NUL"] by (simp add: idle_start_def)
  have "\<exists>s'. web_exec idle_fs (WReadable 5) (idle_start\<lparr>watched := [5]\<rparr>) = Some (returns s')"
    by (simp add: web_exec_def idle_start_def web_start_def readMessageCallback_def Readline_def
        readline_loop.simps my_read_def read_again.simps)
  with web_event_local [OF ok] show ?thesis by (fastforce simp: idle_start_def web_start_def)
qed

text \<open>C7: in every state the server can be in, whatever its clients have done before, a request for a
  regular file that has arrived from a watched client is answered to that client with one header and
  the bytes of the file, and no other client's data is touched. Conditions: the client's socket takes
  every write whole (the code ignores short writes); the three words of the request line have no
  white space and no control character, and fewer than 16, 2 to 254, and fewer than 16 characters;
  the line ends with CR LF; the stack buffer has its 1024 characters.\<close>

theorem web_serves_each_client:
  assumes "length buf = 100" and "web_run f es (web_start buf k outs) = Some (returns s)"
    and "int fd \<in> set (watched s)" and "fd \<notin> closed s"
    and "length (junk_buf f) = 1024" and "wk (w_out s fd) = []"
    and "token 16 req" and "token 255 name" and "2 \<le> length name" and "token 16 proto"
    and "avail (kern (w_rl s) fd) =
      (req @ CHR '' '' # name @ CHR '' '' # proto @ [CHR 0x0D]) @ CHR 0x0A # rest"
    and "path = takeWhile (\<lambda>c. c \<noteq> NUL) (url_decode (tl name))" and "fs_stat f path = RegFile n"
  shows "\<exists>s'. web_exec f (WReadable fd) s = Some (returns s') \<and> fd \<notin> closed s' \<and>
    sent (w_out s' fd) = sent (w_out s fd) @
      header_text ''200'' ''SUCCESS'' (get_mime_type path) (to_int n) @ bytes_of f path \<and>
    (\<forall>other. other \<noteq> fd \<longrightarrow>
      w_out s' other = w_out s other \<and> kern (w_rl s') other = kern (w_rl s) other)"
proof -
  have ok: "web_ok (w_rl s)"
    using web_run_ok [OF web_start_ok [OF assms(1)] assms(2)] by (auto simp: returns_def)
  then have rl: "rl_ok (w_rl s)" by (simp add: web_ok_def)
  have "upcoming fd (w_rl s) =
      (req @ CHR '' '' # name @ CHR '' '' # proto @ [CHR 0x0D]) @ CHR 0x0A # rest"
    using web_ok_upcoming [OF ok] assms(11) by simp
  from callback_serves_file [OF rl assms(5-10) this assms(12,13)] obtain w' where
    w': "readMessageCallback f fd (w_rl s) (w_out s fd) = returns (False, w', (w_out s fd)\<lparr>sent :=
      sent (w_out s fd) @ header_text ''200'' ''SUCCESS'' (get_mime_type path) (to_int n) @ bytes_of f path\<rparr>)"
    by blast
  with callback_ok [OF ok, of f fd "w_out s fd"] have "same_others fd (w_rl s) w'"
    by (auto simp: returns_def)
  with w' assms(3,4) show ?thesis by (simp add: web_exec_def same_others_def)
qed

theorem web_serves_each_client_witness:
  "\<exists>s'. web_exec small_fs (WReadable 7) (busy_start\<lparr>watched := [6, 7]\<rparr>) = Some (returns s') \<and>
     sent (w_out s' 7) = header_text ''200'' ''SUCCESS'' ''text/html; charset=utf-8'' 5 @ ''hello'' \<and>
     w_out s' 6 = fresh_out"
proof -
  let ?s = "busy_start\<lparr>watched := [6, 7]\<rparr>"
  have s: "int 7 \<in> set (watched ?s)" "7 \<notin> closed ?s" "wk (w_out ?s 7) = []" "sent (w_out ?s 7) = []"
    "w_out ?s 6 = fresh_out" "length (replicate 100 (CHR ''x'')) = 100"
    by (simp_all add: busy_start_def web_start_def fresh_out_def)
  have "avail (kern (w_rl ?s) 7) =
      (''GET'' @ CHR '' '' # ''/a%20b.html'' @ CHR '' '' # ''HTTP/1.1'' @ [CHR 0x0D]) @ CHR 0x0A # crlf"
    using busy_sent(1) by simp
  from web_serves_each_client [OF s(6) busy_connects [unfolded busy_start_def] s(1,2) [unfolded busy_start_def]
      busy_client(5) s(3) [unfolded busy_start_def] busy_client(1-4) this [unfolded busy_start_def]
      small_path [symmetric] busy_client(6)]
  obtain s' where r: "web_exec small_fs (WReadable 7) ?s = Some (returns s')"
    "sent (w_out s' 7) = sent (w_out ?s 7) @
      header_text ''200'' ''SUCCESS'' ''text/html; charset=utf-8'' 5 @ ''hello''"
    "\<forall>other. other \<noteq> 7 \<longrightarrow> w_out s' other = w_out ?s other"
    unfolding busy_client(7-9) busy_start_def [symmetric] by blast
  have "(6::nat) \<noteq> 7" by simp
  with r(3) s(5) have "w_out s' 6 = fresh_out" by metis
  with r(1,2) s(4) show ?thesis by (intro exI [of _ s']) simp
qed

end
