(* ===== verification/Echo.thy ===== *)
theory Echo
  imports WebServer
begin

text \<open>
  The echo servers for one client per thread or process: \<open>socket/socket.c\<close>, \<open>socket/local_socket.c\<close> and
  \<open>udp/udp.c\<close>. They share one loop: read up to 1024 characters, turn them to upper case, send
  them back. A connected socket is a record of what will still arrive on it, what its peer has
  received and whether it is open. Creating, binding and listening give the numbers the system calls
  returned.
\<close>

section \<open>One connection\<close>

record sock =
  s_in :: "rd list"
  s_out :: out
  s_open :: bool

definition sk_close :: "sock \<Rightarrow> sock" where
  "sk_close c = c\<lparr>s_open := False\<rparr>"

text \<open>One \<open>write\<close>, its result ignored.\<close>

definition write_raw :: "string \<Rightarrow> out \<Rightarrow> out" where
  "write_raw msg o1 =
     (case kwrite (length msg) (wk o1) of
        (Wrote m, wk') \<Rightarrow> o1\<lparr>sent := sent o1 @ take m msg, wk := wk'\<rparr>
      | (WFailed e, wk') \<Rightarrow> o1\<lparr>wk := wk'\<rparr>)"

text \<open>The C locale; characters outside ASCII stay as they are.\<close>

definition toupper :: "char \<Rightarrow> char" where
  "toupper c = (if CHR ''a'' \<le> c \<and> c \<le> CHR ''z'' then char_of (of_char c - 32 :: nat) else c)"

function upper_loop :: "string \<Rightarrow> int \<Rightarrow> int \<Rightarrow> string res" where
  "upper_loop buff i n =
     (if i < n
      then case arr_get buff i of Inl e \<Rightarrow> Inl e
         | Inr c \<Rightarrow> (case arr_set buff i (toupper c) of Inl e \<Rightarrow> Inl e
             | Inr buff' \<Rightarrow> upper_loop buff' (i + 1) n)
      else Inr buff)"
  by pat_completeness auto
termination by (relation "measure (\<lambda>(buff, i, n). nat (n - i))") auto

declare upper_loop.simps [simp del]

text \<open>
  The body of the loop: \<open>n\<close> and the socket. What was read is printed with \<open>%s\<close>: when it fills the
  buffer without a NUL, \<open>printf\<close> reads on behind it.
\<close>

definition echo_once :: "sock \<Rightarrow> (int \<times> sock) res" where
  "echo_once c =
     (case kread 1024 (s_in c) of
        (Got d, k) \<Rightarrow>
          bindR (store (replicate 1024 NUL) 0 d) (\<lambda>buff.
          bindR (print_text buff) (\<lambda>_.
          bindR (upper_loop buff 0 (int (length d))) (\<lambda>buff.
            Inr (int (length d),
                 c\<lparr>s_in := k, s_out := write_raw (take (length d) buff) (s_out c)\<rparr>))))
      | (End, k) \<Rightarrow> Inr (0, c\<lparr>s_in := k\<rparr>)
      | (Failed e, k) \<Rightarrow> Inr (-1, c\<lparr>s_in := k\<rparr>))"

abbreviation weight :: "rd list \<Rightarrow> nat" where
  "weight k \<equiv> sum_list (map chunk_weight k)"

lemma echo_once_weight:
  "echo_once c = Inr (n, c') \<Longrightarrow> 0 < n \<Longrightarrow> weight (s_in c') < weight (s_in c)"
  by (auto simp: echo_once_def split: prod.splits rres.splits dest!: kread_weight)

function echo_loop :: "sock \<Rightarrow> sock res" where
  "echo_loop c =
     (case echo_once c of
        Inl e \<Rightarrow> Inl e
      | Inr (n, c') \<Rightarrow> if n \<le> 0 then Inr c' else echo_loop c')"
  by pat_completeness auto
termination
  by (relation "measure (\<lambda>c. weight (s_in c))") (auto dest: echo_once_weight)

declare echo_loop.simps [simp del]

section \<open>The servers for one client\<close>

text \<open>
  \<open>lfd\<close>, \<open>bound\<close> and \<open>cfd\<close> are what \<open>socket\<close>, \<open>bind\<close> and \<open>accept\<close> returned; \<open>listener\<close> and \<open>c\<close> the two
  sockets. The early returns leave the sockets open.
\<close>

definition testServSocket ::
  "int \<Rightarrow> int \<Rightarrow> int \<Rightarrow> sock \<Rightarrow> sock \<Rightarrow> (sock \<times> sock) res" where
  "testServSocket lfd bound cfd listener c =
     (if lfd < 0 \<or> bound < 0 \<or> cfd < 0 then Inr (listener, c)
      else bindR (echo_loop c) (\<lambda>c'. Inr (sk_close listener, sk_close c')))"

definition testLocalServerSocket ::
  "int \<Rightarrow> int \<Rightarrow> int \<Rightarrow> sock \<Rightarrow> sock \<Rightarrow> (sock \<times> sock) res" where
  "testLocalServerSocket lfd bound cfd listener c =
     (if lfd < 0 \<or> bound < 0 \<or> cfd < 0 then Inr (listener, c)
      else bindR (echo_loop c) (\<lambda>c'. Inr (sk_close listener, sk_close c')))"

definition thread_work :: "sock \<Rightarrow> sock res" where
  "thread_work c = bindR (echo_loop c) (\<lambda>c'. Inr (sk_close c'))"

definition selectWork :: "sock \<Rightarrow> sock res" where
  "selectWork c = bindR (echo_loop c) (\<lambda>c'. Inr (sk_close c'))"

text \<open>
  What the servers with the wrapped calls do first; the arguments are what \<open>socket\<close>, \<open>bind\<close> and
  \<open>listen\<close> return.
\<close>

definition server_open :: "int \<Rightarrow> int \<Rightarrow> int \<Rightarrow> int res" where
  "server_open lfd bound listening =
     bindR (Socket lfd) (\<lambda>lfd. bindR (Bind bound) (\<lambda>_. bindR (Listen listening) (\<lambda>_. Inr lfd)))"

text \<open>
  \<open>processServSocket\<close>: a turn gets what the kernel answers to \<open>accept\<close>, the connection, and what \<open>fork\<close>
  returned to this process. The parent goes on with its open descriptors (its second \<open>close(cfd)\<close>
  closes nothing), or returns when the fork failed; the child serves the client and exits. \<open>Accept\<close> may
  exit, or wait for ever.
\<close>

datatype process_result = Serving "int set" | Returned "int set" | Child sock "int set"

definition process_turn ::
  "int \<Rightarrow> (errno + int) list \<Rightarrow> int \<Rightarrow> sock \<Rightarrow> int set \<Rightarrow> process_result run" where
  "process_turn lfd answers pid c fds =
     bindM (Accept answers) (\<lambda>(cfd, _).
       let fds1 = insert cfd fds
       in if pid < 0 then returns (Returned fds1)
          else if pid > 0 then returns (Serving ((fds1 - {cfd}) - {cfd}))
          else bindM (lift_res (echo_loop c)) (\<lambda>c'.
                 returns (Child (sk_close c') ((fds1 - {lfd}) - {cfd}))))"

fun process_loop ::
  "int \<Rightarrow> ((errno + int) list \<times> int \<times> sock) list \<Rightarrow> int set \<Rightarrow> process_result run" where
  "process_loop lfd [] fds = returns (Serving fds)"
| "process_loop lfd ((answers, pid, c) # es) fds =
     bindM (process_turn lfd answers pid c fds) (\<lambda>r.
       case r of Serving fds' \<Rightarrow> process_loop lfd es fds' | _ \<Rightarrow> returns r)"

definition processServSocket ::
  "int \<Rightarrow> int \<Rightarrow> int \<Rightarrow> ((errno + int) list \<times> int \<times> sock) list \<Rightarrow> process_result run" where
  "processServSocket lfd bound listening es =
     bindM (lift_res (server_open lfd bound listening)) (\<lambda>lfd. process_loop lfd es {lfd})"

text \<open>\<open>testPollSocket\<close> opens the listening socket and closes it.\<close>

definition testPollSocket :: "int \<Rightarrow> int \<Rightarrow> int \<Rightarrow> int set res" where
  "testPollSocket lfd bound listening =
     bindR (server_open lfd bound listening) (\<lambda>lfd. Inr ({lfd} - {lfd}))"

section \<open>The clients\<close>

text \<open>
  The loop of \<open>testClientSocket\<close>: a block from the standard input is sent, then a block of the
  answer is read. A failed read of the input is sent with the length -1, which as \<open>size_t\<close> reaches
  far beyond the buffer. The result is what is left of the input, the socket, and what was printed.
\<close>

function client_loop :: "rd list \<Rightarrow> sock \<Rightarrow> string list \<Rightarrow> (rd list \<times> sock \<times> string list) res" where
  "client_loop inp c shown =
     (case kread 1024 inp of
        (Failed e, inp') \<Rightarrow> Inl OutOfBounds
      | (r, inp') \<Rightarrow>
          (let d = (case r of Got d \<Rightarrow> d | _ \<Rightarrow> []); o1 = write_raw d (s_out c)
           in case kread 1024 (s_in c) of
                (Got a, k) \<Rightarrow>
                  (case bindR (store (replicate 1024 NUL) 0 a) print_text of
                     Inl e \<Rightarrow> Inl e
                   | Inr t \<Rightarrow> client_loop inp' (c\<lparr>s_in := k, s_out := o1\<rparr>) (shown @ [t]))
              | (_, k) \<Rightarrow> Inr (inp', c\<lparr>s_in := k, s_out := o1\<rparr>, shown)))"
  by pat_completeness auto
termination
  by (relation "measure (\<lambda>(inp, c, shown). weight (s_in c))") (auto dest!: kread_weight [OF sym])

declare client_loop.simps [simp del]

definition testClientSocket ::
  "int \<Rightarrow> int \<Rightarrow> rd list \<Rightarrow> sock \<Rightarrow> (rd list \<times> sock \<times> string list) res" where
  "testClientSocket cfd connected inp c =
     (if cfd < 0 \<or> connected < 0 then Inr (inp, c, [])
      else bindR (client_loop inp c []) (\<lambda>(inp', c', shown). Inr (inp', sk_close c', shown)))"

definition testLocalClientSocket ::
  "int \<Rightarrow> int \<Rightarrow> rd list \<Rightarrow> sock \<Rightarrow> (rd list \<times> sock \<times> string list) res" where
  "testLocalClientSocket lfd connected inp c =
     (if lfd < 0 \<or> connected < 0 then Inr (inp, c, [])
      else bindR (client_loop inp c []) (\<lambda>(inp', c', shown). Inr (inp', sk_close c', shown)))"

section \<open>Threads for many clients\<close>

text \<open>
  \<open>threadServSocket\<close> hands every thread the address of the one variable \<open>cfd\<close>; a thread reads it when
  it starts. An entry of \<open>serving\<close> is the descriptor its thread has read, once it has.
\<close>

record tserv =
  cfd_var :: int
  serving :: "int option list"

text \<open>A turn of the main thread gets what the kernel answers to \<open>accept\<close>; \<open>Accept\<close> may exit.\<close>

datatype tserv_event = TAccept "(errno + int) list" | TStart nat

fun tserv_exec :: "tserv_event \<Rightarrow> tserv \<Rightarrow> tserv res option" where
  "tserv_exec (TAccept answers) s =
     bindM (Accept answers) (\<lambda>(fd, _). returns (s\<lparr>cfd_var := fd, serving := serving s @ [None]\<rparr>))"
| "tserv_exec (TStart i) s =
     (if i < length (serving s) \<and> serving s ! i = None
      then returns (s\<lparr>serving := (serving s)[i := Some (cfd_var s)]\<rparr>) else None)"

fun tserv_run :: "tserv_event list \<Rightarrow> tserv \<Rightarrow> tserv res option" where
  "tserv_run [] s = returns s"
| "tserv_run (e # es) s = bindM (tserv_exec e s) (tserv_run es)"

text \<open>The whole server; \<open>junk\<close> is what \<open>cfd\<close> holds before the first client.\<close>

definition threadServSocket ::
  "int \<Rightarrow> int \<Rightarrow> int \<Rightarrow> int \<Rightarrow> tserv_event list \<Rightarrow> tserv res option" where
  "threadServSocket lfd bound listening junk es =
     bindM (lift_res (server_open lfd bound listening)) (\<lambda>_.
       tserv_run es \<lparr>cfd_var = junk, serving = []\<rparr>)"

section \<open>Datagrams\<close>

text \<open>
  \<open>testUdpServer\<close>: one turn per datagram, an address with the data, cut off at the size of the buffer;
  the answers go to the address. A failing \<open>recvfrom\<close> gives the length -1.
\<close>

datatype dgram = From nat string | RecvErr

definition udp_once :: "dgram \<Rightarrow> (nat \<times> string) list \<Rightarrow> (nat \<times> string) list res" where
  "udp_once g sent1 =
     (case g of
        RecvErr \<Rightarrow> Inl OutOfBounds
      | From client d \<Rightarrow>
          let d = take 1024 d
          in bindR (store (replicate 1024 NUL) 0 d) (\<lambda>buf.
             bindR (upper_loop buf 0 (int (length d))) (\<lambda>buf.
             bindR (print_text buf) (\<lambda>_.
               Inr (sent1 @ [(client, take (length d) buf)])))))"

fun udp_loop :: "dgram list \<Rightarrow> (nat \<times> string) list \<Rightarrow> (nat \<times> string) list res" where
  "udp_loop [] sent1 = Inr sent1"
| "udp_loop (g # gs) sent1 = bindR (udp_once g sent1) (udp_loop gs)"

text \<open>\<open>lfd\<close> and \<open>bound\<close> are what \<open>socket\<close> and \<open>bind\<close> return.\<close>

definition testUdpServer :: "int \<Rightarrow> int \<Rightarrow> dgram list \<Rightarrow> (nat \<times> string) list res" where
  "testUdpServer lfd bound gs = (if lfd < 0 \<or> bound < 0 then Inr [] else udp_loop gs [])"

text \<open>
  \<open>testUdpClient\<close>: a turn sends what was typed and shows the datagram that comes back, of which the
  buffer takes 1024 characters. Only the data sent and the texts shown are kept.
\<close>

fun udp_client_loop ::
  "(rres \<times> string) list \<Rightarrow> string list \<Rightarrow> string list \<Rightarrow> (string list \<times> string list) res" where
  "udp_client_loop [] sent1 shown = Inr (sent1, shown)"
| "udp_client_loop ((typed, a) # es) sent1 shown =
     (case typed of
        Failed e \<Rightarrow> Inl OutOfBounds
      | _ \<Rightarrow>
          let d = (case typed of Got d \<Rightarrow> d | _ \<Rightarrow> [])
          in bindR (store (replicate 1024 NUL) 0 (take 1024 a)) (\<lambda>buf.
             bindR (print_text buf) (\<lambda>t.
               udp_client_loop es (sent1 @ [take 1024 d]) (shown @ [t]))))"

definition testUdpClient :: "int \<Rightarrow> (rres \<times> string) list \<Rightarrow> (string list \<times> string list) res" where
  "testUdpClient lfd es = (if lfd < 0 then Inr ([], []) else udp_client_loop es [] [])"

end
