(* ===== verification/Select.thy ===== *)
theory Select
  imports Echo
begin

text \<open>
  \<open>testSelectSocket\<close> of \<open>socket/socket.c\<close>: one thread serves all clients. The state is what survives a
  turn of its loop: the descriptors watched, the largest of them, the variable \<open>cfd\<close> (not set before
  the first client) and the sockets. Each turn gets the answer of \<open>select\<close>, and, for the case that the
  listening socket is ready, what the kernel answers to \<open>accept\<close> and the connection; \<open>Accept\<close> may exit
  the process, or wait for ever.
\<close>

record sel =
  readfds :: "int set"
  maxfd :: int
  cfd :: "int option"
  socks :: "int \<Rightarrow> sock"

datatype sel_answer = SelErr errno | Ready int "int set"

text \<open>\<open>FD_SET\<close> writes to a set of 1024 descriptors.\<close>

definition FD_SET :: "int \<Rightarrow> int set \<Rightarrow> int set res" where
  "FD_SET fd fds = (if 0 \<le> fd \<and> fd < 1024 then Inr (insert fd fds) else Inl OutOfBounds)"

definition sel_start :: "int \<Rightarrow> (int \<Rightarrow> sock) \<Rightarrow> sel res" where
  "sel_start lfd socks0 =
     bindR (FD_SET lfd {}) (\<lambda>fds. Inr \<lparr>readfds = fds, maxfd = lfd, cfd = None, socks = socks0\<rparr>)"

text \<open>The listening socket is ready: the new client is watched.\<close>

definition sel_accept :: "(errno + int) list \<Rightarrow> sock \<Rightarrow> sel \<Rightarrow> sel run" where
  "sel_accept answers c s =
     bindM (Accept answers) (\<lambda>(new, _).
     bindM (lift_res (FD_SET new (readfds s))) (\<lambda>fds. returns
       (s\<lparr>readfds := fds, maxfd := (if maxfd s < new then new else maxfd s), cfd := Some new,
          socks := (socks s)(new := c)\<rparr>)))"

text \<open>The loop over \<open>k\<close> converts \<open>buff[i]\<close>, with the \<open>i\<close> of the loop around it.\<close>

function sel_upper :: "string \<Rightarrow> int \<Rightarrow> int \<Rightarrow> int \<Rightarrow> string res" where
  "sel_upper buff i k n =
     (if k < n
      then case arr_get buff i of Inl e \<Rightarrow> Inl e
         | Inr c \<Rightarrow> (case arr_set buff i (toupper c) of Inl e \<Rightarrow> Inl e
             | Inr buff' \<Rightarrow> sel_upper buff' i (k + 1) n)
      else Inr buff)"
  by pat_completeness auto
termination by (relation "measure (\<lambda>(buff, i, k, n). nat (n - k))") auto

declare sel_upper.simps [simp del]

text \<open>A write, ignored; to a descriptor that has been closed it fails and sends nothing.\<close>

definition sel_write :: "string \<Rightarrow> sock \<Rightarrow> sock" where
  "sel_write msg c = (if s_open c then c\<lparr>s_out := write_raw msg (s_out c)\<rparr> else c)"

text \<open>Descriptor \<open>i\<close> is ready. The answer is written to \<open>cfd\<close>.\<close>

definition sel_serve :: "int \<Rightarrow> sel \<Rightarrow> sel res" where
  "sel_serve i s =
     (case kread 1024 (s_in (socks s i)) of
        (Got d, k) \<Rightarrow>
          bindR (store (replicate 1024 NUL) 0 d) (\<lambda>buff.
          bindR (print_text buff) (\<lambda>_.
          bindR (sel_upper buff i 0 (int (length d))) (\<lambda>buff.
            let s1 = s\<lparr>socks := (socks s)(i := (socks s i)\<lparr>s_in := k\<rparr>)\<rparr>
            in case cfd s1 of
                 None \<Rightarrow> Inl Uninitialised
               | Some w \<Rightarrow> Inr (s1\<lparr>socks := (socks s1)
                   (w := sel_write (take (length d) buff) (socks s1 w))\<rparr>))))
      | (r, k) \<Rightarrow>
          Inr (s\<lparr>socks := (socks s)(i := sk_close ((socks s i)\<lparr>s_in := k\<rparr>)),
                 readfds := readfds s - {i}\<rparr>))"

function sel_loop :: "int \<Rightarrow> int \<Rightarrow> int \<Rightarrow> int set \<Rightarrow> sel \<Rightarrow> sel res" where
  "sel_loop i last1 nready tempfds s =
     (if i \<le> last1
      then if i \<in> tempfds
           then case sel_serve i s of Inl e \<Rightarrow> Inl e
              | Inr s' \<Rightarrow> if nready - 1 = 0 then Inr s'
                          else sel_loop (i + 1) last1 (nready - 1) tempfds s'
           else sel_loop (i + 1) last1 nready tempfds s
      else Inr s)"
  by pat_completeness auto
termination by (relation "measure (\<lambda>(i, last1, nready, tempfds, s). nat (last1 + 1 - i))") auto

declare sel_loop.simps [simp del]

text \<open>One turn of the loop; \<open>True\<close>: the loop ends.\<close>

type_synonym sel_event = "sel_answer \<times> (errno + int) list \<times> sock"

definition sel_round ::
  "int \<Rightarrow> sel_answer \<Rightarrow> (errno + int) list \<times> sock \<Rightarrow> sel \<Rightarrow> (bool \<times> sel) run" where
  "sel_round lfd reply accepted s =
     (case reply of
        SelErr e \<Rightarrow> returns (e \<noteq> EINTR, s)
      | Ready nready tempfds \<Rightarrow>
          if lfd \<in> tempfds
          then bindM (sel_accept (fst accepted) (snd accepted) s) (\<lambda>s1.
                 if nready - 1 = 0 then returns (False, s1)
                 else bindM (lift_res (sel_loop (lfd + 1) (maxfd s1) (nready - 1) tempfds s1))
                        (\<lambda>s2. returns (False, s2)))
          else bindM (lift_res (sel_loop (lfd + 1) (maxfd s) nready tempfds s))
                 (\<lambda>s2. returns (False, s2)))"

text \<open>The turns so far, until the loop ends.\<close>

fun sel_run :: "int \<Rightarrow> sel_event list \<Rightarrow> sel \<Rightarrow> sel run" where
  "sel_run lfd [] s = returns s"
| "sel_run lfd ((reply, accepted) # es) s =
     bindM (sel_round lfd reply accepted s) (\<lambda>(ends, s').
       if ends then returns s' else sel_run lfd es s')"

definition testSelectSocket ::
  "int \<Rightarrow> int \<Rightarrow> int \<Rightarrow> (int \<Rightarrow> sock) \<Rightarrow> sel_event list \<Rightarrow> sel run" where
  "testSelectSocket lfd bound listening socks0 es =
     bindM (lift_res (server_open lfd bound listening)) (\<lambda>lfd.
     bindM (lift_res (sel_start lfd socks0)) (sel_run lfd es))"

end
