(* ===== verification/Libevent.thy ===== *)
theory Libevent
  imports Echo
begin

text \<open>
  The callbacks of the programs under \<open>libevent\<close>: the echo callbacks of \<open>libevent.c\<close>, the buffered echo
  server \<open>hello-world.c\<close> and the client \<open>bufferevent_client.c\<close>. The event library is not part of the
  repository: \<open>bufferevent_read\<close> and \<open>bufferevent_write\<close> are parameters \<open>bread\<close> and \<open>bwrite\<close> over an
  unknown type of buffers, and what its constructors returned is an argument.
\<close>

section \<open>\<open>libevent.c\<close>\<close>

definition readcb :: "sock \<Rightarrow> sock res" where
  "readcb c = bindR (echo_once c) (\<lambda>(n, c'). Inr (if n \<le> 0 then sk_close c' else c'))"

definition conncb :: "int \<Rightarrow> bool \<Rightarrow> int list \<Rightarrow> int list res" where
  "conncb cfd event_ok watched =
     (if cfd > 0 then (if event_ok then Inr (watched @ [cfd]) else Inl (Exited 0))
      else Inr watched)"

text \<open>
  The loop of \<open>testLibeventSocket\<close>: the descriptors with an event, and their sockets. A new connection is
  what \<open>accept\<close> returned; only an open watched descriptor is reported as readable.
\<close>

record evs =
  ev_watched :: "int list"
  ev_socks :: "int \<Rightarrow> sock"

datatype evs_event = EvConnect int bool sock | EvReadable int

definition evs_exec :: "evs_event \<Rightarrow> evs \<Rightarrow> evs res option" where
  "evs_exec e s =
     (case e of
        EvConnect cfd event_ok c \<Rightarrow>
          Some (bindR (conncb cfd event_ok (ev_watched s)) (\<lambda>fds.
            Inr (s\<lparr>ev_watched := fds,
                   ev_socks := (if cfd > 0 then (ev_socks s)(cfd := c) else ev_socks s)\<rparr>)))
      | EvReadable fd \<Rightarrow>
          if fd \<in> set (ev_watched s) \<and> s_open (ev_socks s fd)
          then Some (bindR (readcb (ev_socks s fd)) (\<lambda>c.
                 Inr (s\<lparr>ev_socks := (ev_socks s)(fd := c)\<rparr>)))
          else None)"

fun evs_run :: "evs_event list \<Rightarrow> evs \<Rightarrow> evs res option" where
  "evs_run [] s = Some (Inr s)"
| "evs_run (e # es) s =
     (case evs_exec e s of
        None \<Rightarrow> None
      | Some (Inl err) \<Rightarrow> Some (Inl err)
      | Some (Inr s') \<Rightarrow> evs_run es s')"

text \<open>
  \<open>testLibeventSocket\<close> for the events \<open>es\<close> before the loop ends: how the loop ended, unless an early
  return prevents it, and which of the listening socket, the base and the event are then left over.
\<close>

definition testLibeventSocket ::
  "int \<Rightarrow> int \<Rightarrow> bool \<Rightarrow> bool \<Rightarrow> evs_event list \<Rightarrow> evs \<Rightarrow> evs res option option \<times> bool \<times> bool \<times> bool" where
  "testLibeventSocket lfd bound base_ok event_ok es s =
     (if lfd < 0 then (None, False, False, False)
      else if bound < 0 then (None, True, False, False)
      else if \<not> base_ok then (None, True, False, False)
      else if \<not> event_ok then (None, True, True, False)
      else (Some (evs_run es s), False, False, False))"

text \<open>
  \<open>testLibevent\<close> prints the methods and frees, in place of the base, the string with the name of its
  method.
\<close>

definition testLibevent :: "string list \<Rightarrow> bool \<Rightarrow> string list res" where
  "testLibevent methods base_ok = (if base_ok then Inl BadFree else Inr methods)"

section \<open>\<open>hello-world.c\<close>\<close>

definition conn_readcb ::
  "(nat \<Rightarrow> 'b \<Rightarrow> string \<times> 'b) \<Rightarrow> (string \<Rightarrow> 'b \<Rightarrow> 'b) \<Rightarrow> 'b \<Rightarrow> 'b res" where
  "conn_readcb bread bwrite b =
     (case bread 1024 b of
        (d, b') \<Rightarrow>
          bindR (store (replicate 1024 NUL) 0 d) (\<lambda>buf.
          bindR (print_text buf) (\<lambda>_.
          bindR (upper_loop buf 0 (int (length d))) (\<lambda>buf.
            Inr (bwrite (take (length d) buf) b')))))"

text \<open>The live buffers, whether the loop goes on, and after how many seconds it is to end.\<close>

record 'b hello =
  bevs :: "int \<Rightarrow> 'b option"
  looping :: bool
  exit_in :: "int option"

definition listener_cb :: "int \<Rightarrow> 'b option \<Rightarrow> 'b hello \<Rightarrow> 'b hello" where
  "listener_cb fd new_bev s =
     (case new_bev of
        None \<Rightarrow> s\<lparr>looping := False\<rparr>
      | Some b \<Rightarrow> s\<lparr>bevs := (bevs s)(fd \<mapsto> b)\<rparr>)"

text \<open>The buffer is freed whatever the event was.\<close>

definition conn_eventcb :: "int \<Rightarrow> 'b hello \<Rightarrow> 'b hello res" where
  "conn_eventcb fd s =
     (case bevs s fd of None \<Rightarrow> Inl BadFree | Some b \<Rightarrow> Inr (s\<lparr>bevs := (bevs s)(fd := None)\<rparr>))"

definition signal_cb :: "'b hello \<Rightarrow> 'b hello" where
  "signal_cb s = s\<lparr>exit_in := Some 2\<rparr>"

text \<open>
  The events of its loop: a connection with the buffer made for it, data to read, the end of or an
  error on a connection, and an interrupt. \<open>listener_cb\<close> may end the loop.
\<close>

datatype 'b hello_event = HConnect int "'b option" | HRead int | HEvent int | HSignal

definition hello_exec ::
  "(nat \<Rightarrow> 'b \<Rightarrow> string \<times> 'b) \<Rightarrow> (string \<Rightarrow> 'b \<Rightarrow> 'b) \<Rightarrow> 'b hello_event \<Rightarrow> 'b hello \<Rightarrow>
   'b hello res option" where
  "hello_exec bread bwrite e s =
     (if \<not> looping s then None
      else case e of
        HConnect fd new_bev \<Rightarrow> Some (Inr (listener_cb fd new_bev s))
      | HRead fd \<Rightarrow>
          (case bevs s fd of
             None \<Rightarrow> None
           | Some b \<Rightarrow> Some (bindR (conn_readcb bread bwrite b) (\<lambda>b'.
               Inr (s\<lparr>bevs := (bevs s)(fd \<mapsto> b')\<rparr>))))
      | HEvent fd \<Rightarrow> (if bevs s fd = None then None else Some (conn_eventcb fd s))
      | HSignal \<Rightarrow> Some (Inr (signal_cb s)))"

fun hello_run ::
  "(nat \<Rightarrow> 'b \<Rightarrow> string \<times> 'b) \<Rightarrow> (string \<Rightarrow> 'b \<Rightarrow> 'b) \<Rightarrow> 'b hello_event list \<Rightarrow> 'b hello \<Rightarrow>
   'b hello res option" where
  "hello_run bread bwrite [] s = Some (Inr s)"
| "hello_run bread bwrite (e # es) s =
     (case hello_exec bread bwrite e s of
        None \<Rightarrow> None
      | Some (Inl err) \<Rightarrow> Some (Inl err)
      | Some (Inr s') \<Rightarrow> hello_run bread bwrite es s')"

text \<open>\<open>main\<close>: what it returns, and how its loop ended if it got that far.\<close>

definition hello_main ::
  "(nat \<Rightarrow> 'b \<Rightarrow> string \<times> 'b) \<Rightarrow> (string \<Rightarrow> 'b \<Rightarrow> 'b) \<Rightarrow> bool \<Rightarrow> bool \<Rightarrow> bool \<Rightarrow> int \<Rightarrow>
   'b hello_event list \<Rightarrow> int \<times> 'b hello res option option" where
  "hello_main bread bwrite base_ok listener_ok signal_ok added es =
     (if \<not> base_ok \<or> \<not> listener_ok \<or> \<not> signal_ok \<or> added < 0 then (1, None)
      else (0, Some (hello_run bread bwrite es \<lparr>bevs = (\<lambda>_. None), looping = True, exit_in = None\<rparr>)))"

section \<open>\<open>bufferevent_client.c\<close>\<close>

text \<open>What is typed is written to the server; a failing read ends the process.\<close>

definition cmd_msg_cb :: "(string \<Rightarrow> 'b \<Rightarrow> 'b) \<Rightarrow> rd list \<Rightarrow> 'b \<Rightarrow> (rd list \<times> 'b) res" where
  "cmd_msg_cb bwrite inp b =
     (case kread 1024 inp of
        (Failed e, inp') \<Rightarrow> Inl (Exited 1)
      | (Got d, inp') \<Rightarrow> Inr (inp', bwrite d b)
      | (End, inp') \<Rightarrow> Inr (inp', bwrite [] b))"

text \<open>What arrives is terminated in place and printed; \<open>msg\<close> is the array of 1024 characters.\<close>

definition server_msg_cb ::
  "(nat \<Rightarrow> 'b \<Rightarrow> string \<times> 'b) \<Rightarrow> string \<Rightarrow> 'b \<Rightarrow> (string \<times> 'b) res" where
  "server_msg_cb bread msg b =
     (case bread 1024 b of
        (d, b') \<Rightarrow>
          bindR (store msg 0 d) (\<lambda>msg.
          bindR (arr_set msg (int (length d)) NUL) (\<lambda>msg. Inr (c_string msg 0, b'))))"

text \<open>
  The two objects \<open>main\<close> creates and hands to the callbacks, alive until they are freed.
\<close>

record client =
  bev_live :: bool
  ev_cmd_live :: bool

datatype bev_event = BEV_EOF | BEV_ERROR | BEV_CONNECTED | BEV_OTHER

definition release_bev :: "client \<Rightarrow> client res" where
  "release_bev s = (if bev_live s then Inr (s\<lparr>bev_live := False\<rparr>) else Inl BadFree)"

definition release_ev :: "client \<Rightarrow> client res" where
  "release_ev s = (if ev_cmd_live s then Inr (s\<lparr>ev_cmd_live := False\<rparr>) else Inl BadFree)"

definition event_cb :: "bev_event \<Rightarrow> client \<Rightarrow> client res" where
  "event_cb e s =
     (if e = BEV_CONNECTED then Inr s else bindR (release_bev s) release_ev)"

fun client_dispatch :: "bev_event list \<Rightarrow> client \<Rightarrow> client res" where
  "client_dispatch [] s = Inr s"
| "client_dispatch (e # es) s = bindR (event_cb e s) (client_dispatch es)"

text \<open>\<open>main\<close>, for the events that the loop delivers before it ends.\<close>

definition client_main :: "int \<Rightarrow> bev_event list \<Rightarrow> (int \<times> client) res" where
  "client_main argc es =
     (if argc < 3 then Inr (-1, \<lparr>bev_live = False, ev_cmd_live = False\<rparr>)
      else bindR (client_dispatch es \<lparr>bev_live = True, ev_cmd_live = True\<rparr>) (\<lambda>s.
           bindR (release_ev s) (\<lambda>s. bindR (release_bev s) (\<lambda>s. Inr (0, s)))))"

end
