(* ===== verification/Echo_Correct.thy ===== *)
theory Echo_Correct
  imports Libevent Wrap_Correct WebServer_Correct
begin

text \<open>
  The contract of an echo service, as a locale, and its interpretations on the loops of the servers:
  whatever the sizes of the pieces in which data arrives, what goes out is what came in, in upper
  case and in order.
\<close>

section \<open>The conversion loop\<close>

lemma upper_loop_result:
  "0 \<le> i \<Longrightarrow> i \<le> n \<Longrightarrow> n \<le> int (length buff) \<Longrightarrow>
   upper_loop buff i n =
     Inr (take (nat i) buff @ map toupper (take (nat n - nat i) (drop (nat i) buff)) @ drop (nat n) buff)"
proof (induction buff i n rule: upper_loop.induct)
  case (1 buff i n)
  show ?case
  proof (cases "i < n")
    case True
    have i: "nat i < length buff" and n: "nat n - nat i = Suc (nat n - nat (i + 1))"
      using 1 True by auto
    have "drop (nat i) buff = buff ! nat i # drop (nat (i + 1)) buff"
      using i 1(2) by (simp add: Cons_nth_drop_Suc nat_add_distrib)
    moreover have "take (nat (i + 1)) (buff[nat i := x]) = take (nat i) buff @ [x]" for x
      using i 1(2) by (simp add: nat_add_distrib take_Suc_conv_app_nth)
    moreover have "drop m (buff[nat i := x]) = drop m buff" if "nat i < m" for m x
      using that by simp
    ultimately show ?thesis
      using True 1(1) [OF True, of "buff ! nat i" "buff[nat i := toupper (buff ! nat i)]"] 1(2-4) i n
      by (simp add: upper_loop.simps [of buff i n])
  next
    case False
    then show ?thesis using 1(2-4) by (simp add: upper_loop.simps)
  qed
qed

text \<open>
  A piece that fits, put into the buffer, printed and converted. The one that \<open>printf\<close> reads beyond
  is as long as the buffer and has no NUL.
\<close>

definition full_piece :: "string \<Rightarrow> bool" where
  "full_piece d \<longleftrightarrow> 1024 \<le> length d \<and> NUL \<notin> set d"

definition piece_buffer :: "string \<Rightarrow> string" where
  "piece_buffer d = overwrite (replicate 1024 NUL) 0 d"

lemma piece_store: "length d \<le> 1024 \<Longrightarrow> store (replicate 1024 NUL) 0 d = Inr (piece_buffer d)"
  using store_ok [of 0 d "replicate 1024 NUL"] by (simp add: piece_buffer_def)

lemma piece_print:
  assumes "length d \<le> 1024"
  shows "print_text (piece_buffer d) = (if full_piece d then Inl OutOfBounds else Inr (takeWhile (\<lambda>c. c \<noteq> NUL) d))"
proof -
  have b: "piece_buffer d = d @ replicate (1024 - length d) NUL"
    by (simp add: piece_buffer_def overwrite_def)
  have "takeWhile (\<lambda>c. c \<noteq> NUL) (d @ replicate n NUL) = takeWhile (\<lambda>c. c \<noteq> NUL) d" for n
    by (induction d) (simp_all add: takeWhile_replicate)
  with assms show ?thesis
    by (auto simp: print_text_def b full_piece_def c_string_def)
qed

lemma piece_upper:
  assumes "length d \<le> 1024"
  shows "\<exists>b. upper_loop (piece_buffer d) 0 (int (length d)) = Inr b \<and> take (length d) b = map toupper d"
  using assms by (subst upper_loop_result) (simp_all add: piece_buffer_def overwrite_def)

lemma kread_piece: "kread n k = (Got d, k') \<Longrightarrow> d \<noteq> [] \<and> length d \<le> n"
  by (cases "(n, k)" rule: kread.cases) (auto split: if_splits)

text \<open>Whether the next read is such a one; scripts with short chunks have none.\<close>

definition fills :: "sock \<Rightarrow> bool" where
  "fills c \<longleftrightarrow> (case kread 1024 (s_in c) of (Got d, k) \<Rightarrow> full_piece d | _ \<Rightarrow> False)"

definition short_reads :: "rd list \<Rightarrow> bool" where
  "short_reads k \<longleftrightarrow> (\<forall>x \<in> set k. case x of Data d \<Rightarrow> length d < 1024 | _ \<Rightarrow> True)"

lemma short_reads_kread: "short_reads k \<Longrightarrow> short_reads (snd (kread n k))"
  by (cases "(n, k)" rule: kread.cases) (auto simp: short_reads_def)

lemma short_not_fills: "short_reads (s_in c) \<Longrightarrow> \<not> fills c"
  by (cases "(1024::nat, s_in c)" rule: kread.cases)
    (auto simp: short_reads_def fills_def full_piece_def)

section \<open>The contract\<close>

text \<open>\<open>serve\<close> once per piece, until nothing is pending.\<close>

fun serve_all :: "('s \<Rightarrow> 's res) \<Rightarrow> nat \<Rightarrow> 's \<Rightarrow> 's res" where
  "serve_all serve 0 s = Inr s"
| "serve_all serve (Suc n) s = bindR (serve s) (serve_all serve n)"

locale echo_service =
  fixes serve :: "'s \<Rightarrow> 's res"
    and pending :: "'s \<Rightarrow> string"
    and answered :: "'s \<Rightarrow> string"
    and ok :: "'s \<Rightarrow> bool"
    and short :: "'s \<Rightarrow> bool"
  assumes serve_law: "ok s \<Longrightarrow>
      (case serve s of
         Inl e \<Rightarrow> e = OutOfBounds \<and> \<not> short s
       | Inr s' \<Rightarrow> ok s' \<and> (short s \<longrightarrow> short s') \<and>
           (\<exists>d. pending s = d @ pending s' \<and> answered s' = answered s @ map toupper d \<and>
              (pending s \<noteq> [] \<longrightarrow> d \<noteq> [])))"
begin

lemma serve_all_answers:
  "ok s \<Longrightarrow>
   (case serve_all serve n s of
      Inl e \<Rightarrow> e = OutOfBounds \<and> \<not> short s
    | Inr s' \<Rightarrow> ok s' \<and> length (pending s') \<le> length (pending s) - n \<and>
        (\<exists>d. pending s = d @ pending s' \<and> answered s' = answered s @ map toupper d))"
proof (induction n arbitrary: s)
  case 0
  then show ?case by simp
next
  case (Suc n)
  note law = serve_law [OF Suc.prems]
  show ?case
  proof (cases "serve s")
    case (Inl e)
    with law show ?thesis by simp
  next
    case (Inr s1)
    with law obtain d where 1: "ok s1" "short s \<longrightarrow> short s1" "pending s = d @ pending s1"
      "answered s1 = answered s @ map toupper d" "pending s \<noteq> [] \<longrightarrow> d \<noteq> []" by auto
    note ih = Suc.IH [OF 1(1)]
    show ?thesis
    proof (cases "serve_all serve n s1")
      case (Inl e)
      with Inr ih 1(2) show ?thesis by auto
    next
      case 2: (Inr s2)
      with ih have "length (pending s2) \<le> length (pending s) - Suc n"
        using 1(3,5) by (cases d) auto
      with Inr 2 ih 1 show ?thesis by auto
    qed
  qed
qed

text \<open>What has been answered and what is still to be answered stay the same together.\<close>

lemma serve_conserves:
  assumes "ok s" and "serve s = Inr s'"
  shows "ok s' \<and> answered s' @ map toupper (pending s') = answered s @ map toupper (pending s)"
  using serve_law [OF assms(1)] assms(2) by auto

text \<open>As many turns as there are characters are enough.\<close>

lemma serve_all_done:
  assumes "ok s" and "short s"
  shows "\<exists>s'. serve_all serve (length (pending s)) s = Inr s' \<and> pending s' = [] \<and>
    answered s' = answered s @ map toupper (pending s)"
  using serve_all_answers [OF assms(1), of "length (pending s)"] assms(2)
  by (auto split: sum.splits)

end

section \<open>The providers\<close>

lemma write_raw_all: "wk o1 = [] \<Longrightarrow> write_raw d o1 = o1\<lparr>sent := sent o1 @ d\<rparr>"
  by (cases o1) (simp add: write_raw_def)

text \<open>One turn, for a peer that takes everything.\<close>

lemma echo_once_result:
  assumes "wk (s_out c) = []"
  shows "case echo_once c of
      Inl e \<Rightarrow> e = OutOfBounds \<and> fills c
    | Inr (n, c') \<Rightarrow> wk (s_out c') = [] \<and> s_open c' = s_open c \<and>
        s_in c' = snd (kread 1024 (s_in c)) \<and>
        (if n \<le> 0 then file_bytes (s_in c) = [] \<and> s_out c' = s_out c
         else \<exists>d. d \<noteq> [] \<and> file_bytes (s_in c) = d @ file_bytes (s_in c') \<and>
           sent (s_out c') = sent (s_out c) @ map toupper d)"
proof -
  obtain r k where rk: "kread 1024 (s_in c) = (r, k)" by fastforce
  note fb = kread_file [OF rk]
  show ?thesis
  proof (cases r)
    case (Got d)
    with kread_piece rk have d: "d \<noteq> []" "length d \<le> 1024" by blast+
    from piece_upper [OF d(2)] obtain b where b:
      "upper_loop (piece_buffer d) 0 (int (length d)) = Inr b" "take (length d) b = map toupper d"
      by blast
    show ?thesis
    proof (cases "full_piece d")
      case True
      with rk Got d show ?thesis
        by (simp add: echo_once_def piece_store piece_print fills_def)
    next
      case False
      with rk Got d b have "echo_once c = Inr (int (length d),
          c\<lparr>s_in := k, s_out := write_raw (map toupper d) (s_out c)\<rparr>)"
        by (simp add: echo_once_def piece_store piece_print)
      with assms d(1) fb Got rk show ?thesis by (simp add: write_raw_all)
    qed
  qed (use rk fb assms in \<open>simp_all add: echo_once_def\<close>)
qed

text \<open>The callback of \<open>libevent.c\<close>, on an open socket: a closed one is never ready.\<close>

definition sock_ok :: "sock \<Rightarrow> bool" where
  "sock_ok c \<longleftrightarrow> wk (s_out c) = []"

definition sock_pending :: "sock \<Rightarrow> string" where
  "sock_pending c = (if s_open c then file_bytes (s_in c) else [])"

definition on_open :: "(sock \<Rightarrow> sock res) \<Rightarrow> sock \<Rightarrow> sock res" where
  "on_open f c = (if s_open c then f c else Inr c)"

definition sock_short :: "sock \<Rightarrow> bool" where
  "sock_short c \<longleftrightarrow> short_reads (s_in c)"

interpretation event_echo:
  echo_service "on_open readcb" sock_pending "\<lambda>c. sent (s_out c)" sock_ok sock_short
proof
  fix c assume "sock_ok c"
  then have wk: "wk (s_out c) = []" by (simp add: sock_ok_def)
  note once = echo_once_result [OF wk]
  show "case on_open readcb c of
      Inl e \<Rightarrow> e = OutOfBounds \<and> \<not> sock_short c
    | Inr c' \<Rightarrow> sock_ok c' \<and> (sock_short c \<longrightarrow> sock_short c') \<and>
        (\<exists>d. sock_pending c = d @ sock_pending c' \<and>
          sent (s_out c') = sent (s_out c) @ map toupper d \<and> (sock_pending c \<noteq> [] \<longrightarrow> d \<noteq> []))"
  proof (cases "s_open c")
    case False
    then show ?thesis using wk by (simp add: on_open_def sock_ok_def sock_pending_def)
  next
    case open1: True
    show ?thesis
    proof (cases "echo_once c")
      case (Inl e)
      with once open1 short_not_fills [of c] show ?thesis
        by (auto simp: on_open_def readcb_def sock_short_def)
    next
      case (Inr r)
      obtain n c' where r: "r = (n, c')" by fastforce
      define c2 where "c2 = (if n \<le> 0 then sk_close c' else c')"
      from once [unfolded Inr r sum.case prod.case] have c': "wk (s_out c') = []"
        "s_open c' = s_open c" "s_in c' = snd (kread 1024 (s_in c))"
        "if n \<le> 0 then file_bytes (s_in c) = [] \<and> s_out c' = s_out c
         else \<exists>d. d \<noteq> [] \<and> file_bytes (s_in c) = d @ file_bytes (s_in c') \<and>
           sent (s_out c') = sent (s_out c) @ map toupper d" by blast+
      have "on_open readcb c = Inr c2"
        using Inr r open1 by (simp add: c2_def on_open_def readcb_def)
      moreover have "sock_ok c2" "sock_short c \<longrightarrow> sock_short c2"
        using c'(1,3) short_reads_kread [of "s_in c" 1024]
        by (auto simp: c2_def sock_ok_def sock_short_def sk_close_def)
      moreover have "\<exists>d. sock_pending c = d @ sock_pending c2 \<and>
          sent (s_out c2) = sent (s_out c) @ map toupper d \<and> (sock_pending c \<noteq> [] \<longrightarrow> d \<noteq> [])"
        using c'(2,4) open1 by (auto simp: c2_def sock_pending_def sk_close_def split: if_splits)
      ultimately show ?thesis by simp
    qed
  qed
qed

text \<open>
  The callback of \<open>hello-world.c\<close>, over the documented behaviour of the library's buffers: a read takes
  up to the given number of characters from the front of the input, a write appends to the output.
\<close>

definition bev_laws ::
  "(nat \<Rightarrow> 'b \<Rightarrow> string \<times> 'b) \<Rightarrow> (string \<Rightarrow> 'b \<Rightarrow> 'b) \<Rightarrow> ('b \<Rightarrow> string) \<Rightarrow> ('b \<Rightarrow> string) \<Rightarrow> bool" where
  "bev_laws bread bwrite inp outp \<longleftrightarrow>
     (\<forall>n b d b'. bread n b = (d, b') \<longrightarrow>
        d = take n (inp b) \<and> inp b' = drop n (inp b) \<and> outp b' = outp b) \<and>
     (\<forall>d b. inp (bwrite d b) = inp b \<and> outp (bwrite d b) = outp b @ d)"

lemma conn_readcb_echo:
  assumes "bev_laws bread bwrite inp outp"
  shows "echo_service (conn_readcb bread bwrite) inp outp (\<lambda>b. True) (\<lambda>b. length (inp b) < 1024)"
proof
  fix b
  obtain d b' where read: "bread 1024 b = (d, b')" by fastforce
  with assms have d: "d = take 1024 (inp b)" "inp b' = drop 1024 (inp b)" "outp b' = outp b"
    by (auto simp: bev_laws_def)
  then have len: "length d \<le> 1024" by simp
  from piece_upper [OF len] obtain u where u:
    "upper_loop (piece_buffer d) 0 (int (length d)) = Inr u" "take (length d) u = map toupper d" by blast
  have laws: "inp (bwrite (map toupper d) b') = inp b'"
    "outp (bwrite (map toupper d) b') = outp b' @ map toupper d"
    using assms by (simp_all add: bev_laws_def)
  show "case conn_readcb bread bwrite b of
      Inl e \<Rightarrow> e = OutOfBounds \<and> \<not> length (inp b) < 1024
    | Inr b' \<Rightarrow> True \<and> (length (inp b) < 1024 \<longrightarrow> length (inp b') < 1024) \<and>
        (\<exists>d. inp b = d @ inp b' \<and> outp b' = outp b @ map toupper d \<and> (inp b \<noteq> [] \<longrightarrow> d \<noteq> []))"
  proof (cases "full_piece d")
    case True
    with read len d(1) show ?thesis
      by (simp add: conn_readcb_def piece_store piece_print full_piece_def)
  next
    case False
    with read len u have "conn_readcb bread bwrite b = Inr (bwrite (map toupper d) b')"
      by (simp add: conn_readcb_def piece_store piece_print)
    moreover have "inp b = d @ inp (bwrite (map toupper d) b')" "inp b \<noteq> [] \<longrightarrow> d \<noteq> []"
      "outp (bwrite (map toupper d) b') = outp b @ map toupper d"
      using d laws by auto
    ultimately show ?thesis by auto
  qed
qed

section \<open>The loop\<close>

lemma echo_loop_result:
  "wk (s_out c) = [] \<Longrightarrow>
   (case echo_loop c of
      Inl e \<Rightarrow> e = OutOfBounds \<and> \<not> short_reads (s_in c)
    | Inr c' \<Rightarrow> s_open c' = s_open c \<and> wk (s_out c') = [] \<and>
        sent (s_out c') = sent (s_out c) @ map toupper (file_bytes (s_in c)))"
proof (induction c rule: echo_loop.induct)
  case (1 c)
  note once = echo_once_result [OF 1(2)]
  show ?case
  proof (cases "echo_once c")
    case (Inl e)
    with once short_not_fills [of c] show ?thesis by (auto simp: echo_loop.simps [of c])
  next
    case (Inr r)
    obtain n c' where r: "r = (n, c')" by fastforce
    show ?thesis
    proof (cases "n \<le> 0")
      case True
      with Inr r once 1(2) show ?thesis by (simp add: echo_loop.simps [of c])
    next
      case False
      with Inr r once have c': "wk (s_out c') = []" "s_open c' = s_open c"
        "s_in c' = snd (kread 1024 (s_in c))" by simp_all
      from False Inr r once obtain d where d: "file_bytes (s_in c) = d @ file_bytes (s_in c')"
        "sent (s_out c') = sent (s_out c) @ map toupper d" by auto
      have "short_reads (s_in c) \<Longrightarrow> short_reads (s_in c')"
        using short_reads_kread [of "s_in c" 1024] c'(3) by simp
      with 1(1) [OF Inr r [symmetric] False c'(1)] Inr r c' d False show ?thesis
        by (auto simp: echo_loop.simps [of c] split: sum.splits)
    qed
  qed
qed

end
