(* ===== verification/Select_Correct.thy ===== *)
theory Select_Correct
  imports Select Echo_Correct
begin

text \<open>
  The invariant of the \<open>select\<close> server, kept by every turn that \<open>select\<close> and \<open>Accept\<close> allow, and what one
  turn reads and sends.
\<close>

section \<open>The conversion\<close>

lemma toupper_idem [simp]: "toupper (toupper c) = toupper c"
proof (cases "CHR ''a'' \<le> c \<and> c \<le> CHR ''z''")
  case True
  define n where "n = (of_char c :: nat)"
  have "97 \<le> n" "n \<le> 122" using True by (auto simp: n_def less_eq_char_def)
  then have "of_char (char_of (n - 32) :: char) = n - 32" by simp
  with \<open>n \<le> 122\<close> have "\<not> CHR ''a'' \<le> (char_of (n - 32) :: char)" by (simp add: less_eq_char_def)
  with True show ?thesis by (simp add: toupper_def n_def)
qed (simp only: toupper_def if_False)

lemma sel_upper_result:
  "0 \<le> i \<Longrightarrow> nat i < length buff \<Longrightarrow>
   sel_upper buff i k n = Inr (if k < n then buff[nat i := toupper (buff ! nat i)] else buff)"
proof (induction buff i k n rule: sel_upper.induct)
  case (1 buff i k n)
  show ?case
  proof (cases "k < n")
    case True
    with 1(1) [OF True, of "buff ! nat i" "buff[nat i := toupper (buff ! nat i)]"] 1(2,3)
    show ?thesis by (simp add: sel_upper.simps [of buff i k n])
  qed (simp add: sel_upper.simps)
qed

section \<open>One descriptor\<close>

text \<open>What is sent for a piece \<open>d\<close> from descriptor \<open>i\<close>: only its character number \<open>i\<close> is converted.\<close>

definition sel_reply :: "int \<Rightarrow> string \<Rightarrow> string" where
  "sel_reply i d = (if nat i < length d then d[nat i := toupper (d ! nat i)] else d)"

lemma sel_piece:
  assumes "d \<noteq> []" and "length d \<le> 1024" and "0 \<le> i" and "i < 1024"
  shows "\<exists>b. sel_upper (piece_buffer d) i 0 (int (length d)) = Inr b \<and> take (length d) b = sel_reply i d"
proof -
  let ?b = "d @ replicate (1024 - length d) NUL"
  have b: "piece_buffer d = ?b" by (simp add: piece_buffer_def overwrite_def)
  have "sel_upper ?b i 0 (int (length d)) = Inr (?b[nat i := toupper (?b ! nat i)])"
    using assms by (subst sel_upper_result) auto
  moreover have "take (length d) (?b[nat i := toupper (?b ! nat i)]) = sel_reply i d"
    by (auto simp: sel_reply_def list_update_append nth_append)
  ultimately show ?thesis using b by simp
qed

lemma sel_serve_data:
  assumes "kread 1024 (s_in (socks s i)) = (Got d, k)" and "0 \<le> i" and "i < 1024" and "cfd s = Some w"
    and "\<not> full_piece d"
  shows "sel_serve i s = Inr (s\<lparr>socks := ((socks s)(i := (socks s i)\<lparr>s_in := k\<rparr>))
    (w := sel_write (sel_reply i d) (((socks s)(i := (socks s i)\<lparr>s_in := k\<rparr>)) w))\<rparr>)"
proof -
  from kread_piece [OF assms(1)] have d: "d \<noteq> []" "length d \<le> 1024" by auto
  from sel_piece [OF d assms(2,3)] show ?thesis using assms(1,4,5) d(2)
    by (auto simp: sel_serve_def Let_def piece_store piece_print)
qed

text \<open>What a ready descriptor's script is after its one read, and whether the read got data.\<close>

definition after_read :: "sock \<Rightarrow> rd list" where
  "after_read c = snd (kread 1024 (s_in c))"

definition goes_on :: "sock \<Rightarrow> bool" where
  "goes_on c \<longleftrightarrow> (case kread 1024 (s_in c) of (Got d, k) \<Rightarrow> True | _ \<Rightarrow> False)"

text \<open>How serving one descriptor changes what the next turn will wait for.\<close>

lemma sel_serve_ok:
  assumes "0 \<le> i" and "i < 1024" and "cfd s \<noteq> None"
  shows "case sel_serve i s of
      Inl e \<Rightarrow> e = OutOfBounds \<and> fills (socks s i)
    | Inr s' \<Rightarrow> maxfd s' = maxfd s \<and> cfd s' = cfd s \<and>
        readfds s' = readfds s - {j. j = i \<and> \<not> goes_on (socks s i)} \<and>
        (\<forall>j. s_in (socks s' j) = (if j = i then after_read (socks s i) else s_in (socks s j)))"
proof -
  from assms(3) obtain w where w: "cfd s = Some w" by auto
  obtain r k where rk: "kread 1024 (s_in (socks s i)) = (r, k)" by fastforce
  show ?thesis
  proof (cases r)
    case (Got d)
    with rk have data: "kread 1024 (s_in (socks s i)) = (Got d, k)" by simp
    from kread_piece [OF data] have len: "length d \<le> 1024" by simp
    show ?thesis
    proof (cases "full_piece d")
      case True
      with data len show ?thesis by (simp add: sel_serve_def piece_store piece_print fills_def)
    next
      case False
      from sel_serve_data [OF data assms(1,2) w False] show ?thesis
        using data by (auto simp: after_read_def goes_on_def sel_write_def)
    qed
  qed (use rk in \<open>auto simp: sel_serve_def after_read_def goes_on_def sk_close_def\<close>)
qed

section \<open>The loop over the descriptors\<close>

lemma card_from:
  assumes "finite A" and "i \<in> A"
  shows "card {j \<in> A. (i::int) \<le> j} = Suc (card {j \<in> A. i + 1 \<le> j})"
proof -
  have "{j \<in> A. i \<le> j} = insert i {j \<in> A. i + 1 \<le> j}" using assms(2) by auto
  with assms(1) show ?thesis by simp
qed

text \<open>
  What the loop leaves: of the ready descriptors from \<open>i\<close> on those are no longer watched whose read got
  nothing, and each has been read once.
\<close>

definition sel_served :: "(int \<Rightarrow> bool) \<Rightarrow> sel \<Rightarrow> sel res \<Rightarrow> bool" where
  "sel_served ready s r \<longleftrightarrow>
     (case r of
        Inl e \<Rightarrow> e = OutOfBounds \<and> (\<exists>j. ready j \<and> fills (socks s j))
      | Inr s' \<Rightarrow> maxfd s' = maxfd s \<and> cfd s' = cfd s \<and>
          readfds s' = readfds s - {j. ready j \<and> \<not> goes_on (socks s j)} \<and>
          (\<forall>j. s_in (socks s' j) = (if ready j then after_read (socks s j) else s_in (socks s j))))"

lemma sel_served_none: "(\<And>j. \<not> ready j) \<Longrightarrow> sel_served ready s (Inr s)"
  by (simp add: sel_served_def)

lemma sel_served_step:
  assumes serve: "case sel_serve i s of
      Inl e \<Rightarrow> e = OutOfBounds \<and> fills (socks s i)
    | Inr s' \<Rightarrow> maxfd s' = maxfd s \<and> cfd s' = cfd s \<and>
        readfds s' = readfds s - {j. j = i \<and> \<not> goes_on (socks s i)} \<and>
        (\<forall>j. s_in (socks s' j) = (if j = i then after_read (socks s i) else s_in (socks s j)))"
    and one: "sel_serve i s = Inr s1"
    and rest: "sel_served ready s1 r" and i: "\<not> ready i"
  shows "sel_served (\<lambda>j. j = i \<or> ready j) s r"
proof -
  from serve one have 1: "maxfd s1 = maxfd s" "cfd s1 = cfd s"
    "readfds s1 = readfds s - {j. j = i \<and> \<not> goes_on (socks s i)}"
    "\<And>j. s_in (socks s1 j) = (if j = i then after_read (socks s i) else s_in (socks s j))" by simp_all
  have same: "fills (socks s1 j) = fills (socks s j)" "goes_on (socks s1 j) = goes_on (socks s j)"
    "after_read (socks s1 j) = after_read (socks s j)" if "ready j" for j
    using 1(4) [of j] that i by (auto simp: fills_def goes_on_def after_read_def)
  show ?thesis
  proof (cases r)
    case (Inl e)
    with rest same(1) show ?thesis by (auto simp: sel_served_def)
  next
    case (Inr s2)
    with rest have 2: "maxfd s2 = maxfd s1" "cfd s2 = cfd s1"
      "readfds s2 = readfds s1 - {j. ready j \<and> \<not> goes_on (socks s1 j)}"
      "\<And>j. s_in (socks s2 j) = (if ready j then after_read (socks s1 j) else s_in (socks s1 j))"
      by (simp_all add: sel_served_def)
    have "readfds s2 = readfds s - {j. (j = i \<or> ready j) \<and> \<not> goes_on (socks s j)}"
      unfolding 2(3) 1(3) using same(2) by blast
    moreover have "s_in (socks s2 j) =
        (if j = i \<or> ready j then after_read (socks s j) else s_in (socks s j))" for j
      using 2(4) [of j] 1(4) [of j] same(3) i by auto
    ultimately show ?thesis using 1 2 Inr by (simp add: sel_served_def)
  qed
qed

lemma sel_loop_ok:
  assumes "finite tempfds"
  shows "0 \<le> i \<Longrightarrow> nready = int (card {j \<in> tempfds. i \<le> j}) \<Longrightarrow>
    \<forall>j \<in> tempfds. i \<le> j \<longrightarrow> j \<le> last1 \<and> j < 1024 \<Longrightarrow> tempfds \<noteq> {} \<longrightarrow> cfd s \<noteq> None \<Longrightarrow>
    sel_served (\<lambda>j. j \<in> tempfds \<and> i \<le> j) s (sel_loop i last1 nready tempfds s)"
proof (induction "nat (last1 + 1 - i)" arbitrary: i nready s)
  case 0
  then have "\<not> i \<le> last1" and none: "\<And>j. \<not> (j \<in> tempfds \<and> i \<le> j)" by force+
  from sel_served_none [of "\<lambda>j. j \<in> tempfds \<and> i \<le> j", OF none] this(1) show ?case
    by (simp add: sel_loop.simps [of i])
next
  case (Suc m)
  then have le: "i \<le> last1" and m: "m = nat (last1 + 1 - (i + 1))" by auto
  have later: "\<forall>j \<in> tempfds. i + 1 \<le> j \<longrightarrow> j \<le> last1 \<and> j < 1024" "0 \<le> i + 1"
    using Suc.prems(1,3) by auto
  show ?case
  proof (cases "i \<in> tempfds")
    case False
    then have iff: "(j \<in> tempfds \<and> i + 1 \<le> j) = (j \<in> tempfds \<and> i \<le> j)" for j
      by (cases "j = i") auto
    then have set: "{j \<in> tempfds. i + 1 \<le> j} = {j \<in> tempfds. i \<le> j}" by simp
    have "sel_served (\<lambda>j. j \<in> tempfds \<and> i + 1 \<le> j) s (sel_loop (i + 1) last1 nready tempfds s)"
      by (rule Suc(1) [OF m later(2) _ later(1) Suc.prems(4)]) (simp add: set Suc.prems(2))
    with False le show ?thesis by (simp add: sel_loop.simps [of i] iff)
  next
    case True
    have i: "i < 1024" "cfd s \<noteq> None" using True Suc.prems by auto
    note serve = sel_serve_ok [OF Suc.prems(1) i]
    have split1: "(j = i \<or> j \<in> tempfds \<and> i + 1 \<le> j) = (j \<in> tempfds \<and> i \<le> j)" for j
      using True by auto
    have n: "nready - 1 = int (card {j \<in> tempfds. i + 1 \<le> j})"
      using Suc.prems(2) card_from [OF assms True] by simp
    show ?thesis
    proof (cases "sel_serve i s")
      case (Inl e)
      with serve True le show ?thesis by (auto simp: sel_loop.simps [of i] sel_served_def)
    next
      case (Inr s1)
      have rest: "sel_served (\<lambda>j. j \<in> tempfds \<and> i + 1 \<le> j) s1
          (if nready - 1 = 0 then Inr s1 else sel_loop (i + 1) last1 (nready - 1) tempfds s1)"
      proof (cases "nready - 1 = 0")
        case True
        then have "{j \<in> tempfds. i + 1 \<le> j} = {}" using n assms by simp
        then have "\<not> (j \<in> tempfds \<and> i + 1 \<le> j)" for j by blast
        from sel_served_none [of "\<lambda>j. j \<in> tempfds \<and> i + 1 \<le> j", OF this] True
        show ?thesis by simp
      next
        case False
        have "tempfds \<noteq> {} \<longrightarrow> cfd s1 \<noteq> None" using serve Inr i(2) by simp
        from Suc(1) [OF m later(2) n later(1) this] False show ?thesis by simp
      qed
      have "sel_served (\<lambda>j. j = i \<or> j \<in> tempfds \<and> i + 1 \<le> j) s
          (if nready - 1 = 0 then Inr s1 else sel_loop (i + 1) last1 (nready - 1) tempfds s1)"
        by (rule sel_served_step [OF serve Inr rest]) simp
      with True Inr le show ?thesis by (simp add: sel_loop.simps [of i] split1)
    qed
  qed
qed

section \<open>The invariant\<close>

definition sel_ok :: "int \<Rightarrow> sel \<Rightarrow> bool" where
  "sel_ok lfd s \<longleftrightarrow>
     0 \<le> lfd \<and> lfd \<in> readfds s \<and> (\<forall>fd \<in> readfds s. lfd \<le> fd \<and> fd \<le> maxfd s \<and> fd < 1024) \<and>
     (cfd s = None \<longrightarrow> readfds s = {lfd})"

text \<open>
  What \<open>select\<close> and \<open>accept\<close> answer: watched descriptors, their number, and, unless \<open>accept\<close> fails, a
  descriptor above the listening one, as the lower ones are in use.
\<close>

definition accepted_fd :: "(errno + int) list \<Rightarrow> int option" where
  "accepted_fd answers = (case Accept answers of Some (Inr (fd, _)) \<Rightarrow> Some fd | _ \<Rightarrow> None)"

definition sel_allowed :: "int \<Rightarrow> sel_answer \<Rightarrow> (errno + int) list \<times> sock \<Rightarrow> sel \<Rightarrow> bool" where
  "sel_allowed lfd reply accepted s \<longleftrightarrow>
     (case reply of SelErr e \<Rightarrow> True
      | Ready nready tempfds \<Rightarrow> tempfds \<subseteq> readfds s \<and> tempfds \<noteq> {} \<and> nready = int (card tempfds) \<and>
          (lfd \<in> tempfds \<longrightarrow> Accept (fst accepted) \<noteq> None \<and>
             (case accepted_fd (fst accepted) of None \<Rightarrow> True
              | Some fd \<Rightarrow> lfd < fd \<and> fd < 1024 \<and> fd \<notin> readfds s)))"

lemma sel_ok_finite: "sel_ok lfd s \<Longrightarrow> finite (readfds s)"
  by (rule finite_subset [of _ "{lfd..maxfd s}"]) (auto simp: sel_ok_def)

lemma Accept_faults: "Accept k = Some (Inl e) \<Longrightarrow> e = Exited (-1)"
  by (induction k rule: Accept.induct)
    (auto simp: returns_def lift_res_def perr_exit_def split: if_splits)

text \<open>The state with the new client.\<close>

definition sel_admit :: "int \<Rightarrow> sock \<Rightarrow> sel \<Rightarrow> sel" where
  "sel_admit new c s = s\<lparr>readfds := insert new (readfds s),
     maxfd := (if maxfd s < new then new else maxfd s), cfd := Some new,
     socks := (socks s)(new := c)\<rparr>"

lemma sel_accept_cases:
  assumes ok: "sel_ok lfd s" and allowed: "sel_allowed lfd (Ready nready tempfds) accepted s"
    and lfd: "lfd \<in> tempfds"
  obtains (exits) "Accept (fst accepted) = faults (Exited (-1))"
      "sel_accept (fst accepted) (snd accepted) s = faults (Exited (-1))"
  | (new) new where "accepted_fd (fst accepted) = Some new" "lfd < new" "new < 1024" "new \<notin> readfds s"
      "sel_accept (fst accepted) (snd accepted) s = returns (sel_admit new (snd accepted) s)"
proof -
  from allowed lfd obtain r where r: "Accept (fst accepted) = Some r" by (auto simp: sel_allowed_def)
  show ?thesis
  proof (cases r)
    case (Inl e)
    with r Accept_faults [of "fst accepted" e] have "Accept (fst accepted) = faults (Exited (-1))"
      by (simp add: faults_def)
    then show ?thesis by (intro exits) (simp_all add: sel_accept_def)
  next
    case (Inr x)
    obtain new k where x: "x = (new, k)" by fastforce
    with r Inr have acc: "Accept (fst accepted) = returns (new, k)" by (simp add: returns_def)
    then have fd: "accepted_fd (fst accepted) = Some new" by (simp add: accepted_fd_def returns_def)
    with allowed lfd have bounds: "lfd < new" "new < 1024" "new \<notin> readfds s"
      by (auto simp: sel_allowed_def)
    with ok have "FD_SET new (readfds s) = Inr (insert new (readfds s))"
      by (simp add: FD_SET_def sel_ok_def)
    with acc have "sel_accept (fst accepted) (snd accepted) s = returns (sel_admit new (snd accepted) s)"
      by (simp add: sel_accept_def sel_admit_def)
    with fd bounds show ?thesis by (rule new)
  qed
qed

text \<open>The turn after the new client, if any, has been accepted; \<open>m\<close> clients are ready.\<close>

lemma sel_clients:
  assumes ok: "sel_ok lfd s1" and sub: "tempfds \<subseteq> readfds s1" and cfd: "tempfds \<noteq> {} \<longrightarrow> cfd s1 \<noteq> None"
  shows "sel_served (\<lambda>j. j \<in> tempfds - {lfd}) s1
      (sel_loop (lfd + 1) (maxfd s1) (int (card (tempfds - {lfd}))) tempfds s1)"
proof -
  have fin: "finite tempfds" using sub sel_ok_finite [OF ok] by (rule finite_subset)
  have above: "{j \<in> tempfds. lfd + 1 \<le> j} = tempfds - {lfd}" using sub ok by (force simp: sel_ok_def)
  then have iff: "(j \<in> tempfds \<and> lfd + 1 \<le> j) = (j \<in> tempfds - {lfd})" for j by blast
  have "\<forall>j \<in> tempfds. lfd + 1 \<le> j \<longrightarrow> j \<le> maxfd s1 \<and> j < 1024"
    using sub ok by (auto simp: sel_ok_def)
  moreover have "0 \<le> lfd + 1" using ok by (simp add: sel_ok_def)
  ultimately have "sel_served (\<lambda>j. j \<in> tempfds \<and> lfd + 1 \<le> j) s1
      (sel_loop (lfd + 1) (maxfd s1) (int (card (tempfds - {lfd}))) tempfds s1)"
    by (intro sel_loop_ok [OF fin]) (simp_all add: above cfd)
  then show ?thesis by (simp only: iff)
qed

text \<open>What one turn does to \<open>s1\<close>, the state with the new client, or the state before the turn.\<close>

definition sel_turned :: "int \<Rightarrow> int set \<Rightarrow> sel \<Rightarrow> sel res \<Rightarrow> bool" where
  "sel_turned lfd tempfds s1 r \<longleftrightarrow>
     sel_served (\<lambda>j. j \<in> tempfds - {lfd}) s1 r \<and> (case r of Inl e \<Rightarrow> True | Inr s' \<Rightarrow> sel_ok lfd s')"

lemma sel_served_keeps:
  assumes ok: "sel_ok lfd s1" and cfd: "tempfds \<noteq> {} \<longrightarrow> cfd s1 \<noteq> None"
    and r: "sel_served (\<lambda>j. j \<in> tempfds - {lfd}) s1 r"
  shows "sel_turned lfd tempfds s1 r"
proof (cases r)
  case (Inr s')
  with r have "maxfd s' = maxfd s1" "cfd s' = cfd s1" "lfd \<in> readfds s1 \<longrightarrow> lfd \<in> readfds s'"
    "readfds s' \<subseteq> readfds s1" by (auto simp: sel_served_def)
  with ok r Inr have "sel_ok lfd s'" by (auto simp: sel_ok_def)
  with r Inr show ?thesis by (simp add: sel_turned_def)
qed (use r in \<open>simp add: sel_turned_def\<close>)

lemma sel_round_clients:
  assumes ok: "sel_ok lfd s" and allowed: "sel_allowed lfd (Ready nready tempfds) accepted s"
    and lfd: "lfd \<notin> tempfds"
  shows "\<exists>r. sel_round lfd (Ready nready tempfds) accepted s =
      bindM (lift_res r) (\<lambda>s'. returns (False, s')) \<and> sel_turned lfd tempfds s r"
proof -
  from allowed have t: "tempfds \<subseteq> readfds s" "nready = int (card (tempfds - {lfd}))"
    using lfd by (simp_all add: sel_allowed_def)
  have cfd: "tempfds \<noteq> {} \<longrightarrow> cfd s \<noteq> None" using ok t(1) lfd by (auto simp: sel_ok_def)
  from sel_served_keeps [OF ok cfd sel_clients [OF ok t(1) cfd]] t(2) lfd show ?thesis
    by (auto simp: sel_round_def)
qed

lemma sel_round_new:
  assumes ok: "sel_ok lfd s" and allowed: "sel_allowed lfd (Ready nready tempfds) accepted s"
    and lfd: "lfd \<in> tempfds"
    and new: "lfd < new" "new < 1024" "new \<notin> readfds s"
    and acc: "sel_accept (fst accepted) (snd accepted) s = returns (sel_admit new (snd accepted) s)"
  shows "\<exists>r. sel_round lfd (Ready nready tempfds) accepted s =
      bindM (lift_res r) (\<lambda>s'. returns (False, s')) \<and>
      sel_turned lfd tempfds (sel_admit new (snd accepted) s) r"
proof -
  define s1 where "s1 = sel_admit new (snd accepted) s"
  from allowed have t: "tempfds \<subseteq> readfds s" "nready = int (card tempfds)"
    by (simp_all add: sel_allowed_def)
  have fin: "finite tempfds" using t(1) sel_ok_finite [OF ok] by (rule finite_subset)
  have n: "nready - 1 = int (card (tempfds - {lfd}))"
    using card.remove [OF fin lfd] t(2) by simp
  have ok1: "sel_ok lfd s1" using ok new by (auto simp: sel_ok_def s1_def sel_admit_def)
  have sub1: "tempfds \<subseteq> readfds s1" using t(1) by (auto simp: s1_def sel_admit_def)
  have cfd: "tempfds \<noteq> {} \<longrightarrow> cfd s1 \<noteq> None" by (simp add: s1_def sel_admit_def)
  show ?thesis
  proof (cases "nready - 1 = 0")
    case True
    then have "tempfds - {lfd} = {}" using n fin by simp
    then have "sel_served (\<lambda>j. j \<in> tempfds - {lfd}) s1 (Inr s1)" by (intro sel_served_none) blast
    from sel_served_keeps [OF ok1 cfd this] True lfd acc show ?thesis
      by (intro exI [of _ "Inr s1"]) (simp add: sel_round_def s1_def)
  next
    case False
    with sel_served_keeps [OF ok1 cfd sel_clients [OF ok1 sub1 cfd]] n lfd acc show ?thesis
      by (auto simp: sel_round_def s1_def)
  qed
qed

text \<open>The state whose clients the turn serves.\<close>

definition sel_admitted :: "int \<Rightarrow> int set \<Rightarrow> (errno + int) list \<times> sock \<Rightarrow> sel \<Rightarrow> sel" where
  "sel_admitted lfd tempfds accepted s =
     (case accepted_fd (fst accepted) of
        Some new \<Rightarrow> if lfd \<in> tempfds then sel_admit new (snd accepted) s else s
      | None \<Rightarrow> s)"

lemma sel_round_ok:
  assumes ok: "sel_ok lfd s" and allowed: "sel_allowed lfd (Ready nready tempfds) accepted s"
  shows "sel_round lfd (Ready nready tempfds) accepted s = faults (Exited (-1)) \<and>
      lfd \<in> tempfds \<and> Accept (fst accepted) = faults (Exited (-1)) \<or>
    (\<exists>r. sel_round lfd (Ready nready tempfds) accepted s =
       bindM (lift_res r) (\<lambda>s'. returns (False, s')) \<and>
       sel_turned lfd tempfds (sel_admitted lfd tempfds accepted s) r)"
proof (cases "lfd \<in> tempfds")
  case False
  with sel_round_clients [OF ok allowed] show ?thesis
    by (auto simp: sel_admitted_def split: option.split)
next
  case True
  with ok allowed True show ?thesis
  proof (cases rule: sel_accept_cases)
    case exits
    with True show ?thesis by (simp add: sel_round_def)
  next
    case (new new)
    from sel_round_new [OF ok allowed True new(2-5)] new(1) True show ?thesis
      by (simp add: sel_admitted_def)
  qed
qed

text \<open>The clients of the turn are those before it: the new descriptor is not ready yet.\<close>

lemma sel_admitted_client:
  assumes "sel_ok lfd s" and "sel_allowed lfd (Ready nready tempfds) accepted s" and "j \<in> tempfds"
  shows "socks (sel_admitted lfd tempfds accepted s) j = socks s j"
  using assms by (auto simp: sel_admitted_def sel_admit_def sel_allowed_def split: option.split)

text \<open>Whole runs, every answer allowed in the state it meets.\<close>

fun sel_run_allowed :: "int \<Rightarrow> sel_event list \<Rightarrow> sel \<Rightarrow> bool" where
  "sel_run_allowed lfd [] s \<longleftrightarrow> True"
| "sel_run_allowed lfd ((reply, accepted) # es) s \<longleftrightarrow>
     sel_allowed lfd reply accepted s \<and>
     (case sel_round lfd reply accepted s of
        Some (Inr (False, s')) \<Rightarrow> sel_run_allowed lfd es s' | _ \<Rightarrow> True)"

text \<open>The clients whose reads may fill the buffer: those watched, and those still to come.\<close>

definition long_clients :: "int \<Rightarrow> sel_event list \<Rightarrow> sel \<Rightarrow> bool" where
  "long_clients lfd es s \<longleftrightarrow>
     (\<exists>j \<in> readfds s - {lfd}. \<not> short_reads (s_in (socks s j))) \<or>
     (\<exists>(reply, answers, c) \<in> set es. \<not> short_reads (s_in c))"

lemma long_clients_turn:
  assumes "sel_turned lfd tempfds (sel_admitted lfd tempfds accepted s) (Inr s')"
    and "long_clients lfd es s'"
  shows "long_clients lfd ((reply, accepted) # es) s"
proof -
  let ?s1 = "sel_admitted lfd tempfds accepted s"
  from assms(1) have s': "readfds s' \<subseteq> readfds ?s1"
    "\<And>j. short_reads (s_in (socks ?s1 j)) \<Longrightarrow> short_reads (s_in (socks s' j))"
    by (auto simp: sel_turned_def sel_served_def after_read_def short_reads_kread split: if_splits)
  from assms(2) consider j where "j \<in> readfds s' - {lfd}" "\<not> short_reads (s_in (socks s' j))"
    | "\<exists>(reply, answers, c) \<in> set es. \<not> short_reads (s_in c)" by (auto simp: long_clients_def)
  then show ?thesis
  proof cases
    case (1 j)
    with s' have "j \<in> readfds ?s1 - {lfd}" "\<not> short_reads (s_in (socks ?s1 j))" by blast+
    then show ?thesis
      by (cases accepted)
        (auto simp: long_clients_def sel_admitted_def sel_admit_def split: option.splits if_splits)
  qed (auto simp: long_clients_def)
qed

lemma sel_run_ok:
  "sel_ok lfd s \<Longrightarrow> sel_run_allowed lfd es s \<Longrightarrow>
   \<exists>r. sel_run lfd es s = Some r \<and>
     (case r of
        Inr s' \<Rightarrow> sel_ok lfd s'
      | Inl e \<Rightarrow> e = Exited (-1) \<and> (\<exists>(reply, answers, c) \<in> set es. Accept answers = faults e) \<or>
          e = OutOfBounds \<and> long_clients lfd es s)"
proof (induction es arbitrary: s)
  case Nil
  then show ?case by (simp add: returns_def)
next
  case (Cons e es)
  obtain reply accepted where e: "e = (reply, accepted)" by (cases e)
  show ?case
  proof (cases reply)
    case (SelErr err)
    show ?thesis
    proof (cases "err = EINTR")
      case True
      with SelErr Cons e have "sel_run_allowed lfd es s" by (simp add: sel_round_def returns_def)
      from Cons.IH [OF Cons.prems(1) this] True SelErr e show ?thesis
        by (auto simp: sel_round_def long_clients_def split: sum.splits)
    qed (use SelErr Cons e in \<open>simp add: sel_round_def returns_def bindM_def\<close>)
  next
    case (Ready nready tempfds)
    with Cons.prems(2) e have allowed: "sel_allowed lfd (Ready nready tempfds) accepted s" by simp
    note client = sel_admitted_client [OF Cons.prems(1) allowed]
    from sel_round_ok [OF Cons.prems(1) allowed] show ?thesis
    proof (elim disjE exE conjE)
      assume "sel_round lfd (Ready nready tempfds) accepted s = faults (Exited (-1))"
        "Accept (fst accepted) = faults (Exited (-1))"
      then show ?thesis using Ready e
        by (cases accepted) (auto simp: faults_def [symmetric] simp del: outcome_distinct intro!: exI [of _ "Inl (Exited (-1))"])
    next
      fix r
      assume r: "sel_round lfd (Ready nready tempfds) accepted s =
          bindM (lift_res r) (\<lambda>s'. returns (False, s'))"
        and turned: "sel_turned lfd tempfds (sel_admitted lfd tempfds accepted s) r"
      show ?thesis
      proof (cases r)
        case (Inl err)
        with turned obtain j where "err = OutOfBounds" "j \<in> tempfds - {lfd}" "fills (socks s j)"
          by (auto simp: sel_turned_def sel_served_def client)
        moreover from this(3) have "\<not> short_reads (s_in (socks s j))" using short_not_fills by blast
        moreover have "tempfds \<subseteq> readfds s" using allowed by (simp add: sel_allowed_def)
        ultimately have "err = OutOfBounds \<and> long_clients lfd (e # es) s"
          unfolding long_clients_def by blast
        with r Inl Ready e show ?thesis by (simp add: bindM_def faults_def)
      next
        case (Inr s1)
        with turned have ok1: "sel_ok lfd s1" by (simp add: sel_turned_def)
        from Inr r have round: "sel_round lfd (Ready nready tempfds) accepted s = returns (False, s1)"
          by simp
        with Cons.prems(2) e Ready have "sel_run_allowed lfd es s1" by (simp add: returns_def)
        from Cons.IH [OF ok1 this] obtain r2 where r2: "sel_run lfd es s1 = Some r2"
          "case r2 of Inr s' \<Rightarrow> sel_ok lfd s'
           | Inl e \<Rightarrow> e = Exited (-1) \<and> (\<exists>(reply, answers, c) \<in> set es. Accept answers = faults e) \<or>
               e = OutOfBounds \<and> long_clients lfd es s1" by blast
        have "sel_run lfd (e # es) s = Some r2" using r2(1) round Ready e by simp
        then show ?thesis
          using r2(2) long_clients_turn [OF turned [unfolded Inr], of es reply] e
          by (intro exI [of _ r2]) (auto split: sum.splits)
      qed
    qed
  qed
qed

lemma sel_start_ok: "sel_start lfd socks0 = Inr s \<Longrightarrow> sel_ok lfd s"
  by (auto simp: sel_start_def FD_SET_def sel_ok_def split: if_splits)

end
