(* ===== verification/Echo_Props.thy ===== *)
theory Echo_Props
  imports Select_Correct Event_Runs
begin

text \<open>
  What the echo servers promise: everything that arrives comes back in upper case, in order, from
  whatever loop or callback serves it; and where the servers for many clients answer the wrong one.
\<close>

section \<open>Concrete connections\<close>

definition hi_sock :: sock where
  "hi_sock = \<lparr>s_in = [Data ''hi'', Data ''You'', RdErr EAGAIN],
     s_out = \<lparr>sent = ''>'', wk = []\<rparr>, s_open = True\<rparr>"

lemma upper_texts:
  "map toupper ''hi'' = ''HI''" "map toupper ''hiYou'' = ''HIYOU''"
  by (simp_all add: toupper_def less_eq_char_def char_of_eq_iff)

lemma udp_reply:
  assumes "\<not> full_piece (take 1024 d)"
  shows "udp_once (From client d) sent1 = Inr (sent1 @ [(client, map toupper (take 1024 d))])"
proof -
  define e where "e = take 1024 d"
  have len: "length e \<le> 1024" by (simp add: e_def)
  have up: "upper_loop (piece_buffer e) 0 (int (length e)) =
      Inr (map toupper e @ replicate (1024 - length e) NUL)" (is "_ = Inr ?b")
    using len by (subst upper_loop_result) (simp_all add: piece_buffer_def overwrite_def)
  have "toupper NUL = NUL" by (simp add: toupper_def NUL_def less_eq_char_def)
  then have "NUL \<in> set ?b" using assms by (force simp: full_piece_def image_iff e_def)
  then have "udp_once (From client d) sent1 = Inr (sent1 @ [(client, map toupper e)])"
    unfolding udp_once_def dgram.case Let_def e_def [symmetric]
    by (simp add: piece_store [OF len] up print_text_def)
  then show ?thesis by (simp only: e_def)
qed

lemma udp_loop_replies:
  "\<forall>(client, d) \<in> set gs. \<not> full_piece (take 1024 d) \<Longrightarrow>
   udp_loop (map (\<lambda>(client, d). From client d) gs) sent1 =
     Inr (sent1 @ map (\<lambda>(client, d). (client, map toupper (take 1024 d))) gs)"
  by (induction gs arbitrary: sent1) (auto simp: udp_reply)

text \<open>Three connections: the listening socket 3 and two clients, one of which has sent something.\<close>

definition quiet :: sock where
  "quiet = \<lparr>s_in = [], s_out = \<lparr>sent = [], wk = []\<rparr>, s_open = True\<rparr>"

definition talking :: sock where
  "talking = quiet\<lparr>s_in := [Data ''hello'']\<rparr>"

definition two_clients :: sel where
  "two_clients = \<lparr>readfds = {3, 4, 5}, maxfd = 5, cfd = Some 5, socks = (\<lambda>_. quiet)(4 := talking)\<rparr>"


section \<open>The event loops\<close>

text \<open>What client \<open>fd\<close> has received or is still to receive.\<close>

definition owed :: "sock \<Rightarrow> string" where
  "owed c = sent (s_out c) @ map toupper (sock_pending c)"

fun connects_to :: "int \<Rightarrow> evs_event \<Rightarrow> bool" where
  "connects_to fd (EvConnect r ok c) \<longleftrightarrow> r = fd"
| "connects_to fd (EvReadable r) \<longleftrightarrow> False"

lemma evs_exec_owed:
  assumes step: "evs_exec e s = Some (Inr s')" and ok: "sock_ok (ev_socks s fd)"
    and other: "\<not> connects_to fd e"
  shows "sock_ok (ev_socks s' fd) \<and> owed (ev_socks s' fd) = owed (ev_socks s fd)"
proof (cases e)
  case (EvReadable r)
  with step obtain c where c: "s_open (ev_socks s r)" "readcb (ev_socks s r) = Inr c"
    "s' = s\<lparr>ev_socks := (ev_socks s)(r := c)\<rparr>" by (auto simp: evs_exec_def split: if_splits)
  show ?thesis
  proof (cases "r = fd")
    case True
    with c have "on_open readcb (ev_socks s fd) = Inr c" by (simp add: on_open_def)
    from event_echo.serve_conserves [OF ok this] c(3) True show ?thesis by (simp add: owed_def)
  qed (use c ok in simp)
qed (use step ok other in \<open>auto simp: evs_exec_def\<close>)

interpretation evs_runs: fallible_runs evs_exec evs_run
  by unfold_locales simp_all

lemma evs_run_owed:
  assumes "evs_run es s = Some (Inr s')" and "sock_ok (ev_socks s fd)"
    and "\<forall>e \<in> set es. \<not> connects_to fd e"
  shows "owed (ev_socks s' fd) = owed (ev_socks s fd)"
  using evs_runs.run_keeps_state [of "\<lambda>t. sock_ok (ev_socks t fd) \<and> owed (ev_socks t fd) = owed (ev_socks s fd)"
      "\<lambda>e. \<not> connects_to fd e" s es s'] evs_exec_owed assms by auto

text \<open>The events of the buffered server that begin or end connection \<open>fd\<close>.\<close>

fun touches :: "int \<Rightarrow> 'b hello_event \<Rightarrow> bool" where
  "touches fd (HConnect r b) \<longleftrightarrow> r = fd"
| "touches fd (HEvent r) \<longleftrightarrow> r = fd"
| "touches fd _ \<longleftrightarrow> False"

lemma hello_exec_owed:
  assumes laws: "bev_laws bread bwrite inp outp"
    and step: "hello_exec bread bwrite e s = Some (Inr s')" and b: "bevs s fd = Some b"
    and other: "\<not> touches fd e"
  shows "\<exists>b'. bevs s' fd = Some b' \<and> outp b' @ map toupper (inp b') = outp b @ map toupper (inp b)"
proof (cases e)
  case (HRead r)
  with step obtain c c' where c: "bevs s r = Some c" "conn_readcb bread bwrite c = Inr c'"
    "s' = s\<lparr>bevs := (bevs s)(r \<mapsto> c')\<rparr>"
    by (auto simp: hello_exec_def split: if_splits option.splits)
  show ?thesis
  proof (cases "r = fd")
    case True
    with c b have "conn_readcb bread bwrite b = Inr c'" by simp
    from echo_service.serve_conserves [OF conn_readcb_echo [OF laws] TrueI this] c(3) True
    show ?thesis by simp
  qed (use b c(3) in simp)
qed (use step b other in \<open>auto simp: hello_exec_def listener_cb_def conn_eventcb_def signal_cb_def
       split: if_splits option.splits\<close>)

interpretation hello_runs: fallible_runs "hello_exec bread bwrite" "hello_run bread bwrite"
  by unfold_locales simp_all

lemma hello_run_owed:
  assumes "bev_laws bread bwrite inp outp" and "hello_run bread bwrite es s = Some (Inr s')"
    and "bevs s fd = Some b" and "\<forall>e \<in> set es. \<not> touches fd e"
  shows "\<exists>b'. bevs s' fd = Some b' \<and> outp b' @ map toupper (inp b') = outp b @ map toupper (inp b)"
proof (rule hello_runs.run_keeps_state [OF _ _ assms(4,2)])
  fix e t t'
  assume t: "\<exists>b'. bevs t fd = Some b' \<and> outp b' @ map toupper (inp b') = outp b @ map toupper (inp b)"
    and e: "\<not> touches fd e" "hello_exec bread bwrite e t = Some (Inr t')"
  from t obtain c where c: "bevs t fd = Some c"
    "outp c @ map toupper (inp c) = outp b @ map toupper (inp b)" by blast
  with hello_exec_owed [OF assms(1) e(2) c(1) e(1)]
  show "\<exists>b'. bevs t' fd = Some b' \<and> outp b' @ map toupper (inp b') = outp b @ map toupper (inp b)" by simp
qed (use assms(3) in blast)

section \<open>Properties\<close>

text \<open>C28: the server for one client, whose client takes what is written to it and where no read fills
  the buffer of 1024 characters, sends back, in upper case and in order, every byte that arrives before
  the first end of file or failing read (an interrupted one included), however the bytes are cut into
  reads, and closes both sockets.\<close>

theorem echo_server_answers:
  assumes "wk (s_out c) = []" and "short_reads (s_in c)"
    and "0 \<le> lfd" and "0 \<le> bound" and "0 \<le> afd"
  shows "\<exists>l' c'. testServSocket lfd bound afd listener c = Inr (l', c') \<and>
    sent (s_out c') = sent (s_out c) @ map toupper (file_bytes (s_in c)) \<and>
    \<not> s_open c' \<and> \<not> s_open l'"
  using echo_loop_result [OF assms(1)] assms(2-5)
  by (auto simp: testServSocket_def sk_close_def split: sum.splits)

theorem echo_server_answers_witness:
  "\<exists>l' c'. testServSocket 3 0 4 hi_sock hi_sock = Inr (l', c') \<and>
    sent (s_out c') = ''>HIYOU'' \<and> \<not> s_open c' \<and> \<not> s_open l'"
  using echo_server_answers [of hi_sock 3 0 4 hi_sock] upper_texts(2)
  by (simp add: hi_sock_def short_reads_def)

text \<open>a read that fills the buffer without a NUL makes its \<open>printf\<close> read on behind the buffer.\<close>

theorem echo_prints_past_buffer:
  assumes "length d = 1024" and "NUL \<notin> set d"
  shows "echo_once (c\<lparr>s_in := Data d # k\<rparr>) = Inl OutOfBounds"
proof -
  have "d \<noteq> []" using assms(1) by auto
  with assms show ?thesis
    by (simp add: echo_once_def piece_store piece_print full_piece_def)
qed

theorem echo_prints_past_buffer_witness:
  "echo_once (hi_sock\<lparr>s_in := [Data (replicate 1024 CHR ''x'')]\<rparr>) = Inl OutOfBounds"
  using echo_prints_past_buffer [of "replicate 1024 CHR ''x''" "[]" hi_sock] by (simp add: NUL_def)

text \<open>the callback of the buffered server, called as often as there are characters, has answered
  everything in the input buffer, which holds less than 1024 characters, in upper case and in order, for every library whose buffers behave
  as documented.\<close>

theorem buffered_echo_answers:
  assumes "bev_laws bread bwrite inp outp" and "length (inp b) < 1024"
  shows "\<exists>b'. serve_all (conn_readcb bread bwrite) (length (inp b)) b = Inr b' \<and> inp b' = [] \<and>
    outp b' = outp b @ map toupper (inp b)"
  using echo_service.serve_all_done [OF conn_readcb_echo [OF assms(1)] TrueI assms(2)] by simp

theorem buffered_echo_answers_witness:
  "\<exists>b'. serve_all (conn_readcb (\<lambda>n b. (take n (fst b), (drop n (fst b), snd b)))
      (\<lambda>d b. (fst b, snd b @ d))) 2 (''hi'', ''>'') = Inr b' \<and> snd b' = ''>HI''"
proof -
  have "bev_laws (\<lambda>n b. (take n (fst b), (drop n (fst b), snd b))) (\<lambda>d b. (fst b, snd b @ d)) fst snd"
    by (simp add: bev_laws_def)
  from buffered_echo_answers [OF this, of "(''hi'', ''>'')"] show ?thesis
    using upper_texts(1) by (auto simp: numeral_2_eq_2)
qed

text \<open>the callback of \<open>libevent.c\<close>, called while its socket is open, answers everything that
  arrives before the first end or failure, and then closes the socket, if no read fills its buffer.\<close>

theorem event_echo_answers:
  assumes "wk (s_out c) = []" and "s_open c" and "short_reads (s_in c)"
  shows "\<exists>c'. serve_all (on_open readcb) (length (file_bytes (s_in c))) c = Inr c' \<and>
    sent (s_out c') = sent (s_out c) @ map toupper (file_bytes (s_in c))"
  using event_echo.serve_all_done [of c] assms by (auto simp: sock_ok_def sock_short_def sock_pending_def)

theorem event_echo_answers_witness:
  "\<exists>c'. serve_all (on_open readcb) 5 hi_sock = Inr c' \<and> sent (s_out c') = ''>HIYOU''"
  using event_echo_answers [of hi_sock] upper_texts(2) by (simp add: hi_sock_def short_reads_def eval_nat_numeral)

text \<open>C12: in every run of the event loop of \<open>libevent.c\<close>, however its clients' events interleave, each
  client that takes what is written to it has received the beginning of its own bytes in upper case
  and is still to receive the rest: nothing of it is lost, doubled or sent to another client.\<close>

theorem event_clients_separate:
  assumes "evs_run es s = Some (Inr s')" and "wk (s_out (ev_socks s fd)) = []"
    and "\<forall>e \<in> set es. \<not> connects_to fd e"
  shows "sent (s_out (ev_socks s' fd)) @ map toupper (sock_pending (ev_socks s' fd)) =
    sent (s_out (ev_socks s fd)) @ map toupper (sock_pending (ev_socks s fd))"
  using evs_run_owed [OF assms(1) _ assms(3)] assms(2) by (simp add: owed_def sock_ok_def)

text \<open>Two clients that talk at the same time.\<close>

definition two_talkers :: evs where
  "two_talkers = \<lparr>ev_watched = [4, 5], ev_socks = (\<lambda>_. hi_sock)(4 := talking)\<rparr>"

theorem event_clients_separate_witness:
  "\<exists>s'. evs_run [EvReadable 5, EvReadable 4, EvReadable 5] two_talkers = Some (Inr s') \<and>
    sent (s_out (ev_socks s' 5)) @ map toupper (sock_pending (ev_socks s' 5)) = ''>HIYOU''"
proof -
  have "case evs_run [EvReadable 5, EvReadable 4, EvReadable 5] two_talkers of
    Some (Inr s') \<Rightarrow> True | _ \<Rightarrow> False" by code_simp
  then obtain s' where run: "evs_run [EvReadable 5, EvReadable 4, EvReadable 5] two_talkers = Some (Inr s')"
    by (auto split: option.splits sum.splits)
  from event_clients_separate [OF run, of 5] run upper_texts(2) show ?thesis
    by (auto simp: two_talkers_def hi_sock_def sock_pending_def)
qed

text \<open>the same for the buffered server, over any library whose buffers behave as documented: what a
  client's buffer has answered and has still to answer never changes while the connection lasts.\<close>

theorem hello_clients_separate:
  assumes "bev_laws bread bwrite inp outp" and "hello_run bread bwrite es s = Some (Inr s')"
    and "bevs s fd = Some b" and "\<forall>e \<in> set es. \<not> touches fd e"
  shows "\<exists>b'. bevs s' fd = Some b' \<and> outp b' @ map toupper (inp b') = outp b @ map toupper (inp b)"
  by (rule hello_run_owed [OF assms])

theorem hello_clients_separate_witness:
  "\<exists>s' b'. hello_run (\<lambda>n b. (take n (fst b), (drop n (fst b), snd b))) (\<lambda>d b. (fst b, snd b @ d))
      [HRead 7, HSignal, HRead 6] \<lparr>bevs = [6 \<mapsto> (''hi'', ''>''), 7 \<mapsto> (''you'', [])], looping = True, exit_in = None\<rparr> =
      Some (Inr s') \<and>
    bevs s' 6 = Some b' \<and> snd b' @ map toupper (fst b') = ''>HI''"
proof -
  let ?r = "\<lambda>n b. (take n (fst b), (drop n (fst b), snd b))" and ?w = "\<lambda>d b. (fst b, snd b @ d)"
  let ?s = "\<lparr>bevs = [6 \<mapsto> (''hi'', ''>''), 7 \<mapsto> (''you'', [])], looping = True, exit_in = None\<rparr>"
  have laws: "bev_laws ?r ?w fst snd" by (simp add: bev_laws_def)
  have "case hello_run ?r ?w [HRead 7, HSignal, HRead 6] ?s of Some (Inr s') \<Rightarrow> True | _ \<Rightarrow> False"
    by code_simp
  then obtain s' where run: "hello_run ?r ?w [HRead 7, HSignal, HRead 6] ?s = Some (Inr s')"
    by (auto split: option.splits sum.splits)
  from hello_clients_separate [OF laws run, of 6 "(''hi'', ''>'')"] upper_texts(1) run
  show ?thesis by (auto intro!: exI [of _ s'])
qed

text \<open>the datagram server answers every datagram to its own sender, in upper case, cut off after
  1024 characters, as long as none fills the buffer without a NUL.\<close>

theorem udp_answers_sender:
  assumes "0 \<le> lfd" and "0 \<le> bound" and "\<forall>(client, d) \<in> set gs. \<not> full_piece (take 1024 d)"
  shows "testUdpServer lfd bound (map (\<lambda>(client, d). From client d) gs) =
     Inr (map (\<lambda>(client, d). (client, map toupper (take 1024 d))) gs)"
  using assms by (simp add: testUdpServer_def udp_loop_replies)

theorem udp_answers_sender_witness:
  "testUdpServer 3 0 [From 7 ''hi''] = Inr [(7, ''HI'')]"
  using udp_answers_sender [of 3 0 "[(7, ''hi'')]"] upper_texts(1) by (simp add: full_piece_def)







text \<open>C30: the \<open>select\<close> server answers the wrong client: what a client \<open>i\<close> sends, in a read that does not
  fill the buffer, goes to the client \<open>w\<close> accepted last, when \<open>w\<close> is another one that is still open and
  takes what is written to it; only its character number \<open>i\<close> is turned to upper case, and client \<open>i\<close>
  itself receives nothing.\<close>

theorem select_answers_last_client:
  assumes "kread 1024 (s_in (socks s i)) = (Got d, k)" and "0 \<le> i" and "i < 1024"
    and "cfd s = Some w" and "length d < 1024" and "w \<noteq> i" and "s_open (socks s w)"
    and "wk (s_out (socks s w)) = []"
  shows "\<exists>s'. sel_serve i s = Inr s' \<and>
    sent (s_out (socks s' w)) =
      sent (s_out (socks s w)) @ (if nat i < length d then d[nat i := toupper (d ! nat i)] else d) \<and>
    s_out (socks s' i) = s_out (socks s i)"
  using sel_serve_data [OF assms(1-4)] assms(5-8)
  by (simp add: write_raw_all sel_reply_def sel_write_def full_piece_def)

theorem select_answers_last_client_witness:
  "\<exists>s'. sel_serve 4 two_clients = Inr s' \<and> sent (s_out (socks s' 5)) = ''hellO'' \<and>
    sent (s_out (socks s' 4)) = []"
proof -
  have "toupper (CHR ''o'') = CHR ''O''" by (simp add: toupper_def less_eq_char_def char_of_eq_iff)
  then show ?thesis
    using select_answers_last_client [of two_clients 4 "''hello''" "[]" 5]
    by (auto simp: two_clients_def talking_def quiet_def)
qed

text \<open>all threads of the threaded server share the variable \<open>cfd\<close>: when two clients are accepted
  before the first thread has started, both threads serve the second and none the first.\<close>

theorem threads_share_descriptor:
  "tserv_run [TAccept [Inr a], TAccept [Inr b], TStart 0, TStart 1] \<lparr>cfd_var = v, serving = []\<rparr> =
     returns \<lparr>cfd_var = b, serving = [Some b, Some b]\<rparr>"
  by simp

text \<open>a message of 1024 or more characters makes the client write its terminator behind the
  buffer.\<close>

theorem client_message_overflow:
  assumes "bev_laws bread bwrite inp outp" and "1024 \<le> length (inp b)" and "length msg = 1024"
  shows "server_msg_cb bread msg b = Inl OutOfBounds"
proof -
  obtain d b' where read: "bread 1024 b = (d, b')" by fastforce
  have "d = take 1024 (inp b)" using assms(1) read unfolding bev_laws_def by blast
  with assms(2) have "length d = 1024" by simp
  with read assms(3) store_ok [of 0 d msg] show ?thesis
    by (simp add: server_msg_cb_def arr_set_def)
qed

theorem client_message_overflow_witness:
  "server_msg_cb (\<lambda>n b. (take n (fst b), (drop n (fst b), snd b))) (replicate 1024 NUL)
     (replicate 1024 CHR ''x'', ''>'') = Inl OutOfBounds"
proof -
  have "bev_laws (\<lambda>n b. (take n (fst b), (drop n (fst b), snd b))) (\<lambda>d b. (fst b, snd b @ d)) fst snd"
    by (simp add: bev_laws_def)
  from client_message_overflow [OF this] show ?thesis by simp
qed

text \<open>once the connection has ended or failed, the client's \<open>main\<close> frees what its callback has
  already freed.\<close>

theorem client_frees_twice:
  assumes "3 \<le> argc" and "e \<noteq> BEV_CONNECTED"
  shows "client_main argc (replicate n BEV_CONNECTED @ [e]) = Inl BadFree"
proof -
  have "client_dispatch (replicate n BEV_CONNECTED @ es) s = client_dispatch es s" for s es
    by (induction n) (simp_all add: event_cb_def)
  with assms show ?thesis
    by (simp add: client_main_def event_cb_def release_bev_def release_ev_def)
qed

theorem client_frees_twice_witness:
  "client_main 3 [BEV_CONNECTED, BEV_EOF] = Inl BadFree"
  using client_frees_twice [of 3 BEV_EOF 1] by simp

end
