(* ===== verification/Thread_Demo.thy ===== *)
theory Thread_Demo
  imports C_Base
begin

text \<open>
  \<open>pipe/thread.c\<close>: threads that get a pointer into their creator's stack frame
  (\<open>testCreateThread2\<close>), and two threads that count under a mutex (\<open>testCreateThread6\<close>). Every
  statement of the counting threads is a step of its own, so that the mutex is all that orders them.
\<close>

section \<open>Arguments on the creator's stack\<close>

text \<open>
  \<open>frame\<close> is the array \<open>arr\<close> while \<open>testCreateThread2\<close> has not returned; thread \<open>i\<close> of \<open>printed\<close> has
  printed its number or has not started yet.
\<close>

record create2 =
  frame :: "int list option"
  printed :: "int option list"

datatype create2_event = Create bool | Start nat | Return

text \<open>\<open>threadCllback\<close>, started with a pointer to entry \<open>i\<close>.\<close>

definition threadCllback :: "nat \<Rightarrow> create2 \<Rightarrow> create2 res" where
  "threadCllback i s =
     (case frame s of
        None \<Rightarrow> Inl UseAfterFree
      | Some arr \<Rightarrow> bindR (arr_get arr (int i)) (\<lambda>n. Inr (s\<lparr>printed := (printed s)[i := Some n]\<rparr>)))"

fun create2_exec :: "create2_event \<Rightarrow> create2 \<Rightarrow> create2 res option" where
  "create2_exec (Create ok) s =
     (case frame s of
        None \<Rightarrow> None
      | Some arr \<Rightarrow>
          if length (printed s) < 5
          then Some (bindR (arr_set arr (int (length (printed s))) (int (length (printed s)))) (\<lambda>arr.
                 if ok then Inr (s\<lparr>frame := Some arr, printed := printed s @ [None]\<rparr>)
                 else Inr (s\<lparr>frame := None\<rparr>)))
          else None)"
| "create2_exec (Start i) s =
     (if i < length (printed s) \<and> printed s ! i = None then Some (threadCllback i s) else None)"
| "create2_exec Return s =
     (if frame s \<noteq> None \<and> length (printed s) = 5 then Some (Inr (s\<lparr>frame := None\<rparr>)) else None)"

fun create2_run :: "create2_event list \<Rightarrow> create2 \<Rightarrow> create2 res option" where
  "create2_run [] s = Some (Inr s)"
| "create2_run (e # es) s =
     (case create2_exec e s of
        None \<Rightarrow> None
      | Some (Inl err) \<Rightarrow> Some (Inl err)
      | Some (Inr s') \<Rightarrow> create2_run es s')"

text \<open>The array is not initialised; \<open>junk\<close> is what it holds.\<close>

definition testCreateThread2 :: "int list \<Rightarrow> create2" where
  "testCreateThread2 junk = \<lparr>frame = Some junk, printed = []\<rparr>"

section \<open>Counting under a mutex\<close>

text \<open>
  Where \<open>funThread1\<close> and \<open>funThread2\<close> are, with the values of \<open>i\<close> and \<open>n\<close>: at the loop test, and
  after the lock, the load, the increment and the store.
\<close>

datatype fpos = FTest int | FLocked int | FLoaded int int | FAdded int int | FStored int | FDone

text \<open>Where \<open>testCreateThread6\<close> is; \<open>MPrinted\<close> holds the number it prints.\<close>

datatype mpos = MStart | MOne | MJoin1 | MJoin2 | MPrinted int | MFailed

record counter =
  s_number :: int
  owner :: "nat option"
  fpcs :: "fpos list"
  mpc :: mpos
  c_fault :: "c_error option"

definition f_at :: "nat \<Rightarrow> fpos \<Rightarrow> counter \<Rightarrow> counter" where
  "f_at t w s = s\<lparr>fpcs := (fpcs s)[t := w]\<rparr>"

definition funThread :: "nat \<Rightarrow> counter \<Rightarrow> counter option" where
  "funThread t s =
     (case fpcs s ! t of
        FTest i \<Rightarrow>
          if i < 5000
          then if owner s = None then Some (f_at t (FLocked i) (s\<lparr>owner := Some t\<rparr>)) else None
          else Some (f_at t FDone s)
      | FLocked i \<Rightarrow> Some (f_at t (FLoaded i (s_number s)) s)
      | FLoaded i n \<Rightarrow> Some (case c_add n 1 of
            Inl e \<Rightarrow> s\<lparr>c_fault := Some e\<rparr> | Inr n' \<Rightarrow> f_at t (FAdded i n') s)
      | FAdded i n \<Rightarrow> Some (f_at t (FStored i) (s\<lparr>s_number := n\<rparr>))
      | FStored i \<Rightarrow> Some (case c_add i 1 of
            Inl e \<Rightarrow> s\<lparr>c_fault := Some e\<rparr>
          | Inr i' \<Rightarrow> f_at t (FTest i') (s\<lparr>owner := None\<rparr>))
      | FDone \<Rightarrow> None)"

text \<open>The next statement of \<open>testCreateThread6\<close>; \<open>ok\<close>: a creation succeeds.\<close>

definition main_step :: "bool \<Rightarrow> counter \<Rightarrow> counter option" where
  "main_step ok s =
     (case mpc s of
        MStart \<Rightarrow> Some (if ok then s\<lparr>fpcs := [FTest 0], mpc := MOne\<rparr> else s\<lparr>mpc := MFailed\<rparr>)
      | MOne \<Rightarrow> Some (if ok then s\<lparr>fpcs := fpcs s @ [FTest 0], mpc := MJoin1\<rparr>
                     else s\<lparr>mpc := MFailed\<rparr>)
      | MJoin1 \<Rightarrow> if fpcs s ! 0 = FDone then Some (s\<lparr>mpc := MJoin2\<rparr>) else None
      | MJoin2 \<Rightarrow> if fpcs s ! 1 = FDone then Some (s\<lparr>mpc := MPrinted (s_number s)\<rparr>) else None
      | _ \<Rightarrow> None)"

datatype counter_event = Main bool | Thread nat

fun counter_exec :: "counter_event \<Rightarrow> counter \<Rightarrow> counter option" where
  "counter_exec (Main ok) s = (if c_fault s = None then main_step ok s else None)"
| "counter_exec (Thread t) s =
     (if c_fault s = None \<and> t < length (fpcs s) then funThread t s else None)"

inductive counter_step :: "counter \<Rightarrow> counter \<Rightarrow> bool" where
  counter_stepI: "counter_exec e s = Some s' \<Longrightarrow> counter_step s s'"

fun counter_run :: "counter_event list \<Rightarrow> counter \<Rightarrow> counter option" where
  "counter_run [] s = Some s"
| "counter_run (e # es) s = (case counter_exec e s of None \<Rightarrow> None | Some s' \<Rightarrow> counter_run es s')"

definition testCreateThread6 :: counter where
  "testCreateThread6 = \<lparr>s_number = 0, owner = None, fpcs = [], mpc = MStart, c_fault = None\<rparr>"

end
