(* ===== verification/Thread_Demo_Correct.thy ===== *)
theory Thread_Demo_Correct
  imports Thread_Demo Event_Runs
begin

text \<open>
  The invariant of the counting threads, their refinement of an atomic counter, and a measure that
  every step decreases.
\<close>

section \<open>Invariant\<close>

text \<open>The increments a thread has stored.\<close>

fun finc :: "fpos \<Rightarrow> int" where
  "finc (FTest i) = i"
| "finc (FLocked i) = i"
| "finc (FLoaded i n) = i"
| "finc (FAdded i n) = i"
| "finc (FStored i) = i + 1"
| "finc FDone = 5000"

fun f_in :: "fpos \<Rightarrow> bool" where
  "f_in (FTest i) = False"
| "f_in FDone = False"
| "f_in _ = True"

text \<open>What a thread inside the section knows of the number.\<close>

fun f_ok :: "int \<Rightarrow> fpos \<Rightarrow> bool" where
  "f_ok num (FTest i) \<longleftrightarrow> 0 \<le> i \<and> i \<le> 5000"
| "f_ok num (FLocked i) \<longleftrightarrow> 0 \<le> i \<and> i < 5000"
| "f_ok num (FLoaded i n) \<longleftrightarrow> 0 \<le> i \<and> i < 5000 \<and> n = num"
| "f_ok num (FAdded i n) \<longleftrightarrow> 0 \<le> i \<and> i < 5000 \<and> n = num + 1"
| "f_ok num (FStored i) \<longleftrightarrow> 0 \<le> i \<and> i < 5000"
| "f_ok num FDone \<longleftrightarrow> True"

fun m_ok :: "mpos \<Rightarrow> fpos list \<Rightarrow> bool" where
  "m_ok MStart ws \<longleftrightarrow> ws = []"
| "m_ok MOne ws \<longleftrightarrow> length ws = 1"
| "m_ok MJoin1 ws \<longleftrightarrow> length ws = 2"
| "m_ok MJoin2 ws \<longleftrightarrow> length ws = 2 \<and> ws ! 0 = FDone"
| "m_ok (MPrinted n) ws \<longleftrightarrow> ws = [FDone, FDone] \<and> n = 10000"
| "m_ok MFailed ws \<longleftrightarrow> length ws \<le> 1"

definition counter_ok :: "counter \<Rightarrow> bool" where
  "counter_ok s \<longleftrightarrow>
     c_fault s = None \<and> s_number s = sum_list (map finc (fpcs s)) \<and> m_ok (mpc s) (fpcs s) \<and>
     (\<forall>u. owner s = Some u \<longrightarrow> u < length (fpcs s)) \<and>
     (\<forall>t < length (fpcs s). f_ok (s_number s) (fpcs s ! t) \<and>
        (f_in (fpcs s ! t) \<longleftrightarrow> owner s = Some t))"

lemma m_ok_length: "m_ok m ws \<Longrightarrow> length ws \<le> 2"
  by (cases m) auto

text \<open>A finished thread does not move, so \<open>main\<close>'s knowledge is stable.\<close>

lemma m_ok_move: "m_ok m ws \<Longrightarrow> t < length ws \<Longrightarrow> ws ! t \<noteq> FDone \<Longrightarrow> m_ok m (ws[t := w])"
  by (cases m) (auto simp: nth_list_update less_Suc_eq split: if_splits)

lemma finc_bounds: "f_ok num w \<Longrightarrow> 0 \<le> finc w \<and> finc w \<le> 5000"
  by (cases w) auto

lemma number_bounds:
  assumes "counter_ok s"
  shows "0 \<le> s_number s \<and> s_number s \<le> 10000"
proof -
  have "\<forall>w \<in> set (fpcs s). 0 \<le> finc w \<and> finc w \<le> 5000"
    using assms finc_bounds by (fastforce simp: counter_ok_def in_set_conv_nth)
  from sum_list_within [OF this] have "0 \<le> sum_list (map finc (fpcs s)) \<and>
      sum_list (map finc (fpcs s)) \<le> 5000 * int (length (fpcs s))" .
  moreover have "length (fpcs s) \<le> 2" using assms m_ok_length by (auto simp: counter_ok_def)
  ultimately show ?thesis using assms by (auto simp: counter_ok_def)
qed

text \<open>What every thread but \<open>t\<close> keeps when \<open>t\<close> moves: outside the section the number does not matter.\<close>

lemma f_ok_outside: "f_ok num w \<Longrightarrow> \<not> f_in w \<Longrightarrow> f_ok num' w"
  by (cases w) auto

lemma counter_ok_move:
  assumes ok: "counter_ok s" and t: "t < length (fpcs s)" "fpcs s ! t \<noteq> FDone"
    and own: "num = s_number s \<or> owner s = Some t" "\<forall>u. u \<noteq> t \<longrightarrow> (own' = Some u \<longleftrightarrow> owner s = Some u)"
    and w: "f_ok num w" "f_in w \<longleftrightarrow> own' = Some t"
    and num: "num = s_number s + finc w - finc (fpcs s ! t)"
  shows "counter_ok (f_at t w (s\<lparr>s_number := num, owner := own'\<rparr>))"
proof -
  have "sum_list (map finc ((fpcs s)[t := w])) = num"
    using ok num sum_list_at [OF t(1), of finc w] by (simp add: counter_ok_def)
  moreover have "f_ok num (fpcs s ! u) \<and> (f_in (fpcs s ! u) \<longleftrightarrow> own' = Some u)"
    if "u < length (fpcs s)" "u \<noteq> t" for u
    using ok own that by (auto simp: counter_ok_def intro: f_ok_outside)
  moreover have "\<forall>u. own' = Some u \<longrightarrow> u < length (fpcs s)"
  proof clarify
    fix u assume "own' = Some u"
    with own(2) have "u = t \<or> owner s = Some u" by blast
    with ok t(1) show "u < length (fpcs s)" by (auto simp: counter_ok_def)
  qed
  ultimately show ?thesis
    using ok t w by (auto simp: counter_ok_def f_at_def nth_list_update m_ok_move)
qed

section \<open>The steps\<close>

text \<open>An upper bound of the statements a thread still executes.\<close>

fun fleft :: "fpos \<Rightarrow> nat" where
  "fleft (FTest i) = 5 * nat (5000 - i) + 1"
| "fleft (FLocked i) = 5 * nat (5000 - i)"
| "fleft (FLoaded i n) = 5 * nat (5000 - i) - 1"
| "fleft (FAdded i n) = 5 * nat (5000 - i) - 2"
| "fleft (FStored i) = 5 * nat (5000 - i) - 3"
| "fleft FDone = 0"

fun mleft :: "mpos \<Rightarrow> nat" where
  "mleft MStart = 4 + 2 * 25001"
| "mleft MOne = 3 + 25001"
| "mleft MJoin1 = 2"
| "mleft MJoin2 = 1"
| "mleft _ = 0"

definition counter_left :: "counter \<Rightarrow> nat" where
  "counter_left s = mleft (mpc s) + sum_list (map fleft (fpcs s))"

text \<open>What a thread's step changes, whatever statement it is.\<close>

definition f_moves :: "counter \<Rightarrow> nat \<Rightarrow> fpos \<Rightarrow> nat option \<Rightarrow> int \<Rightarrow> bool" where
  "f_moves s t w own num \<longleftrightarrow>
     fpcs s ! t \<noteq> FDone \<and> (num = s_number s \<or> owner s = Some t) \<and>
     (\<forall>u. u \<noteq> t \<longrightarrow> (own = Some u \<longleftrightarrow> owner s = Some u)) \<and> f_ok num w \<and>
     (f_in w \<longleftrightarrow> own = Some t) \<and>
     num = s_number s + finc w - finc (fpcs s ! t) \<and> fleft w < fleft (fpcs s ! t) \<and>
     (finc w = finc (fpcs s ! t) \<or> finc w = finc (fpcs s ! t) + 1 \<and> finc (fpcs s ! t) < 5000)"

lemma funThread_moves:
  assumes ok: "counter_ok s" and t: "t < length (fpcs s)" and step: "funThread t s = Some s'"
  shows "\<exists>w own num. s' = f_at t w (s\<lparr>s_number := num, owner := own\<rparr>) \<and> f_moves s t w own num"
proof -
  have here: "f_ok (s_number s) (fpcs s ! t)" "f_in (fpcs s ! t) \<longleftrightarrow> owner s = Some t"
    using ok t by (auto simp: counter_ok_def)
  note num = number_bounds [OF ok]
  show ?thesis
  proof (cases "fpcs s ! t")
    case (FTest i)
    show ?thesis
    proof (cases "i < 5000")
      case True
      with FTest step here show ?thesis
        by (intro exI [of _ "FLocked i"] exI [of _ "Some t"] exI [of _ "s_number s"])
          (auto simp: funThread_def f_moves_def f_at_def split: if_splits)
    next
      case False
      with FTest step here show ?thesis
        by (intro exI [of _ FDone] exI [of _ "owner s"] exI [of _ "s_number s"])
          (auto simp: funThread_def f_moves_def f_at_def)
    qed
  next
    case (FLocked i)
    with step here show ?thesis
      by (intro exI [of _ "FLoaded i (s_number s)"] exI [of _ "Some t"] exI [of _ "s_number s"])
        (auto simp: funThread_def f_moves_def f_at_def)
  next
    case (FLoaded i n)
    with step here num show ?thesis
      by (intro exI [of _ "FAdded i (n + 1)"] exI [of _ "Some t"] exI [of _ "s_number s"])
        (auto simp: funThread_def f_moves_def f_at_def c_add_def int_range_defs)
  next
    case (FAdded i n)
    with step here show ?thesis
      by (intro exI [of _ "FStored i"] exI [of _ "Some t"] exI [of _ n])
        (auto simp: funThread_def f_moves_def f_at_def)
  next
    case (FStored i)
    with step here show ?thesis
      by (intro exI [of _ "FTest (i + 1)"] exI [of _ None] exI [of _ "s_number s"])
        (auto simp: funThread_def f_moves_def f_at_def c_add_def int_range_defs)
  next
    case FDone
    with step show ?thesis by (simp add: funThread_def)
  qed
qed

lemma funThread_ok:
  assumes "counter_ok s" and "t < length (fpcs s)" and "funThread t s = Some s'"
  shows "counter_ok s'"
  using funThread_moves [OF assms] counter_ok_move [OF assms(1,2)] by (auto simp: f_moves_def)

lemma funThread_left:
  assumes "counter_ok s" and "t < length (fpcs s)" and "funThread t s = Some s'"
  shows "counter_left s' < counter_left s"
proof -
  from funThread_moves [OF assms] obtain w own num where
    "s' = f_at t w (s\<lparr>s_number := num, owner := own\<rparr>)" "fleft w < fleft (fpcs s ! t)"
    by (auto simp: f_moves_def)
  with sum_list_at [OF assms(2), of fleft w] show ?thesis
    by (simp add: counter_left_def f_at_def)
qed

lemma two_done: "length ws = 2 \<Longrightarrow> ws ! 0 = FDone \<Longrightarrow> ws ! 1 = FDone \<Longrightarrow> ws = [FDone, FDone]"
  by (cases ws rule: list.exhaust [case_names Nil Cons]) (auto simp: length_Suc_conv numeral_2_eq_2)

lemma main_step_ok:
  assumes ok: "counter_ok s" and step: "main_step b s = Some s'"
  shows "counter_ok s' \<and> counter_left s' < counter_left s"
proof (cases "mpc s")
  case MJoin2
  with ok step have w: "fpcs s = [FDone, FDone]"
    by (auto simp: counter_ok_def main_step_def intro: two_done split: if_splits)
  then have "s_number s = 10000" using ok by (simp add: counter_ok_def)
  with MJoin2 w ok step show ?thesis by (auto simp: counter_ok_def main_step_def counter_left_def)
next
  case MOne
  with ok obtain w where w: "fpcs s = [w]" by (auto simp: counter_ok_def length_Suc_conv)
  show ?thesis
  proof (cases b)
    case True
    with step MOne w have s': "s' = s\<lparr>fpcs := [w, FTest 0], mpc := MJoin1\<rparr>"
      by (simp add: main_step_def)
    have "owner s \<noteq> Some (Suc 0)" using ok w by (auto simp: counter_ok_def)
    then have "counter_ok s'" using ok w s' by (auto simp: counter_ok_def nth_Cons')
    moreover have "counter_left s' < counter_left s"
      using MOne w s' by (simp add: counter_left_def)
    ultimately show ?thesis by simp
  next
    case False
    with step MOne w ok show ?thesis
      by (auto simp: counter_ok_def main_step_def counter_left_def)
  qed
next
  case MStart
  with ok have w: "fpcs s = []" "owner s = None"
    by (auto simp: counter_ok_def)
  with step MStart have "s' = s\<lparr>fpcs := [FTest 0], mpc := MOne\<rparr> \<or> s' = s\<lparr>mpc := MFailed\<rparr>"
    by (auto simp: main_step_def split: if_splits)
  then show ?thesis
  proof
    assume s': "s' = s\<lparr>fpcs := [FTest 0], mpc := MOne\<rparr>"
    with ok w have "counter_ok s'" by (simp add: counter_ok_def)
    moreover have "counter_left s' < counter_left s"
      using MStart w s' by (simp add: counter_left_def)
    ultimately show ?thesis by simp
  next
    assume "s' = s\<lparr>mpc := MFailed\<rparr>"
    with ok w MStart show ?thesis by (simp add: counter_ok_def counter_left_def)
  qed
next
  case MJoin1
  with step have "fpcs s ! 0 = FDone" "s' = s\<lparr>mpc := MJoin2\<rparr>"
    by (auto simp: main_step_def split: if_splits)
  with ok MJoin1 show ?thesis by (auto simp: counter_ok_def counter_left_def)
qed (use step in \<open>simp_all add: main_step_def\<close>)

lemma counter_exec_ok:
  "counter_ok s \<Longrightarrow> counter_exec e s = Some s' \<Longrightarrow> counter_ok s' \<and> counter_left s' < counter_left s"
proof (cases e)
  case (Main b)
  assume "counter_ok s" "counter_exec e s = Some s'"
  with Main show ?thesis by (intro main_step_ok [of s b]) (auto split: if_splits)
next
  case (Thread t)
  assume ok: "counter_ok s" and "counter_exec e s = Some s'"
  with Thread have "t < length (fpcs s)" "funThread t s = Some s'" by (auto split: if_splits)
  from funThread_ok [OF ok this] funThread_left [OF ok this] show ?thesis by blast
qed

interpretation counter_runs: plain_runs counter_exec counter_run
  by unfold_locales simp_all

lemma counter_run_ok:
  "counter_ok s \<Longrightarrow> counter_run es s = Some s' \<Longrightarrow>
   counter_ok s' \<and> length es + counter_left s' \<le> counter_left s"
  by (rule counter_runs.run_bounded) (rule counter_exec_ok)

lemma counter_start: "counter_ok testCreateThread6" "counter_left testCreateThread6 = 50006"
  by (simp_all add: counter_ok_def testCreateThread6_def counter_left_def)

section \<open>Progress\<close>

text \<open>The owner can always move; without an owner every thread that is not done can.\<close>

lemma funThread_enabled:
  assumes "counter_ok s" and "t < length (fpcs s)" and "fpcs s ! t \<noteq> FDone"
    and "owner s = None \<or> owner s = Some t"
  shows "funThread t s \<noteq> None"
  using assms by (cases "fpcs s ! t") (auto simp: counter_ok_def funThread_def)

lemma some_thread_enabled:
  assumes ok: "counter_ok s" and t: "t < length (fpcs s)" "fpcs s ! t \<noteq> FDone"
  shows "\<exists>u s'. counter_exec (Thread u) s = Some s'"
proof (cases "owner s")
  case None
  with funThread_enabled [OF ok t] ok t(1) show ?thesis
    by (intro exI [of _ t]) (auto simp: counter_ok_def)
next
  case (Some u)
  with ok have u: "u < length (fpcs s)" "f_in (fpcs s ! u)" by (auto simp: counter_ok_def)
  then have "fpcs s ! u \<noteq> FDone" by auto
  with funThread_enabled [OF ok u(1)] Some u(1) ok show ?thesis
    by (intro exI [of _ u]) (auto simp: counter_ok_def)
qed

lemma counter_enabled:
  assumes ok: "counter_ok s" and m: "mpc s \<noteq> MFailed" "\<forall>n. mpc s \<noteq> MPrinted n"
  shows "\<exists>e s'. counter_exec e s = Some s'"
proof (cases "mpc s")
  case MJoin1
  with ok have "0 < length (fpcs s)" by (auto simp: counter_ok_def)
  note thread = some_thread_enabled [OF ok this]
  show ?thesis
  proof (cases "fpcs s ! 0 = FDone")
    case True
    with MJoin1 ok have "\<exists>s'. counter_exec (Main True) s = Some s'"
      by (simp add: counter_ok_def main_step_def)
    then show ?thesis by blast
  next
    case False
    with thread show ?thesis by blast
  qed
next
  case MJoin2
  with ok have "1 < length (fpcs s)" by (auto simp: counter_ok_def)
  note thread = some_thread_enabled [OF ok this]
  show ?thesis
  proof (cases "fpcs s ! 1 = FDone")
    case True
    with MJoin2 ok have "\<exists>s'. counter_exec (Main True) s = Some s'"
      by (simp add: counter_ok_def main_step_def)
    then show ?thesis by blast
  next
    case False
    with thread show ?thesis by blast
  qed
qed (use ok m in \<open>auto simp: counter_ok_def main_step_def intro!: exI [of _ "Main True"]\<close>)

text \<open>Every run can be continued until \<open>main\<close> has finished.\<close>

lemma counter_finishes:
  "counter_ok s \<Longrightarrow>
   \<exists>es s'. counter_run es s = Some s' \<and> counter_ok s' \<and> (mpc s' = MFailed \<or> (\<exists>n. mpc s' = MPrinted n))"
  by (rule counter_runs.run_finishes [where left = counter_left, OF counter_exec_ok])
    (auto intro: counter_enabled)

section \<open>Refinement of an atomic counter\<close>

text \<open>The specification: a number and how often each thread has added one to it, at once.\<close>

definition atomic_inc :: "nat \<Rightarrow> int \<times> int list \<Rightarrow> (int \<times> int list) option" where
  "atomic_inc t a =
     (case a of (num, cs) \<Rightarrow>
        if t < length cs \<and> cs ! t < 5000 then Some (num + 1, cs[t := cs ! t + 1]) else None)"

definition counter_abs :: "counter \<Rightarrow> int \<times> int list" where
  "counter_abs s = (s_number s, map finc (fpcs s))"

lemma funThread_refines:
  assumes ok: "counter_ok s" and t: "t < length (fpcs s)" and step: "funThread t s = Some s'"
  shows "counter_abs s' = counter_abs s \<or> atomic_inc t (counter_abs s) = Some (counter_abs s')"
proof -
  from funThread_moves [OF assms] obtain w own num where
    s': "s' = f_at t w (s\<lparr>s_number := num, owner := own\<rparr>)" and
    num: "num = s_number s + finc w - finc (fpcs s ! t)" and
    w: "finc w = finc (fpcs s ! t) \<or> finc w = finc (fpcs s ! t) + 1 \<and> finc (fpcs s ! t) < 5000"
    by (auto simp: f_moves_def)
  have "map finc ((fpcs s)[t := w]) = (map finc (fpcs s))[t := finc w]" by (rule map_update)
  with s' num w t show ?thesis
    by (auto simp: counter_abs_def f_at_def atomic_inc_def list_update_same_conv)
qed

inductive_cases counter_stepE: "counter_step s s'"

end
