(* ===== verification/Thread_Demo_Props.thy ===== *)
theory Thread_Demo_Props
  imports Thread_Demo_Correct
begin

text \<open>
  What \<open>pipe/thread.c\<close> promises: the two counting threads reach exactly 10000, always finish, and refine
  an atomic counter; the numbered threads print their own numbers while their creator's frame lives.
\<close>

section \<open>Numbered threads\<close>

definition create2_ok :: "create2 \<Rightarrow> bool" where
  "create2_ok s \<longleftrightarrow>
     (\<forall>i < length (printed s). printed s ! i = None \<or> printed s ! i = Some (int i)) \<and>
     length (printed s) \<le> 5 \<and>
     (\<forall>arr. frame s = Some arr \<longrightarrow> length arr = 5 \<and> (\<forall>i < length (printed s). arr ! i = int i))"

lemma create2_exec_ok:
  assumes ok: "create2_ok s" and step: "create2_exec e s = Some r"
  shows "r = Inl UseAfterFree \<or> (\<exists>s'. r = Inr s' \<and> create2_ok s')"
proof (cases e)
  case (Create b)
  with step obtain arr where arr: "frame s = Some arr" "length (printed s) < 5"
    by (auto split: option.splits if_splits)
  with ok have len: "length arr = 5" "\<forall>i < length (printed s). arr ! i = int i"
    by (auto simp: create2_ok_def)
  with Create step arr have "r = Inr (if b
      then s\<lparr>frame := Some (arr[length (printed s) := int (length (printed s))]), printed := printed s @ [None]\<rparr>
      else s\<lparr>frame := None\<rparr>)"
    by auto
  moreover have "create2_ok (s\<lparr>frame := Some (arr[length (printed s) := int (length (printed s))]),
      printed := printed s @ [None]\<rparr>)"
    using ok arr(2) len by (auto simp: create2_ok_def nth_append nth_list_update less_Suc_eq)
  moreover have "create2_ok (s\<lparr>frame := None\<rparr>)" using ok by (simp add: create2_ok_def)
  ultimately show ?thesis by (cases b) auto
next
  case (Start i)
  with step have i: "i < length (printed s)" and r: "r = threadCllback i s"
    by (auto split: if_splits)
  show ?thesis
  proof (cases "frame s")
    case None
    with r show ?thesis by (simp add: threadCllback_def)
  next
    case (Some arr)
    with ok i have "int i < int (length arr)" "arr ! i = int i" by (auto simp: create2_ok_def)
    with Some r have "r = Inr (s\<lparr>printed := (printed s)[i := Some (int i)]\<rparr>)"
      by (simp add: threadCllback_def)
    with ok i show ?thesis by (auto simp: create2_ok_def nth_list_update)
  qed
next
  case Return
  with ok step show ?thesis by (auto simp: create2_ok_def split: if_splits)
qed

interpretation create2_runs: fallible_runs create2_exec create2_run
  by unfold_locales simp_all

lemma create2_run_ok:
  "create2_ok s \<Longrightarrow> create2_run es s = Some r \<Longrightarrow>
   (case r of Inl err \<Rightarrow> err = UseAfterFree | Inr s' \<Rightarrow> create2_ok s')"
  using create2_runs.run_keeps [of create2_ok "\<lambda>_. True" "\<lambda>err. err = UseAfterFree" s es r]
    create2_exec_ok by (fastforce split: sum.splits)

section \<open>A short run of the counter\<close>

lemma counter_run_ends:
  "counter_run [Main True, Thread 0, Main False] testCreateThread6 =
     Some \<lparr>s_number = 0, owner = Some 0, fpcs = [FLocked 0], mpc = MFailed, c_fault = None\<rparr>"
  by (simp add: testCreateThread6_def main_step_def funThread_def f_at_def)

lemma counter_run_stores:
  "counter_run [Main True, Main True, Thread 1, Thread 1, Thread 1] testCreateThread6 =
     Some \<lparr>s_number = 0, owner = Some 1, fpcs = [FTest 0, FAdded 0 1], mpc = MJoin1, c_fault = None\<rparr>"
  by (simp add: testCreateThread6_def main_step_def funThread_def f_at_def c_add_def int_range_defs)

section \<open>Properties\<close>

text \<open>C11: however the two threads interleave, no addition overflows, a thread is between lock and unlock
  exactly while it owns the mutex, and the number \<open>testCreateThread6\<close> prints is 10000.\<close>

theorem counter_prints_10000:
  assumes "counter_run es testCreateThread6 = Some s"
  shows "c_fault s = None \<and> (\<forall>t < length (fpcs s). f_in (fpcs s ! t) = (owner s = Some t)) \<and>
    (case mpc s of MPrinted n \<Rightarrow> n = 10000 | _ \<Rightarrow> True)"
  using counter_run_ok [OF counter_start(1) assms]
  by (auto simp: counter_ok_def split: mpos.splits)

theorem counter_prints_10000_witness:
  "f_in (FAdded 0 1) = (Some (1::nat) = Some 1) \<and> f_in (FTest 0) = (Some (1::nat) = Some 0)"
  using counter_prints_10000 [OF counter_run_stores] by (auto simp: less_Suc_eq)

text \<open>C15: the counting threads terminate: no schedule, however unfair, takes more than 50006 steps.\<close>

theorem counter_terminates:
  assumes "counter_run es testCreateThread6 = Some s"
  shows "length es \<le> 50006"
  using counter_run_ok [OF counter_start(1) assms] counter_start(2) by simp

theorem counter_terminates_witness:
  "length [Main True, Thread 0, Main False] \<le> 50006"
  using counter_terminates [OF counter_run_ends] by simp

text \<open>C14: the counting threads never block each other for ever: every run can be continued until
  \<open>testCreateThread6\<close> has printed 10000, or has returned because a creation failed.\<close>

theorem counter_finishes_always:
  assumes "counter_run es testCreateThread6 = Some s"
  shows "\<exists>es' s'. counter_run es' s = Some s' \<and> (mpc s' = MFailed \<or> mpc s' = MPrinted 10000)"
proof -
  have ok: "counter_ok s" using counter_run_ok [OF counter_start(1) assms] by blast
  from counter_finishes [OF ok] obtain es' s' where run: "counter_run es' s = Some s'" "counter_ok s'"
    and m: "mpc s' = MFailed \<or> (\<exists>n. mpc s' = MPrinted n)" by blast
  from m run(2) have "mpc s' = MFailed \<or> mpc s' = MPrinted 10000" by (auto simp: counter_ok_def)
  with run(1) show ?thesis by blast
qed

theorem counter_finishes_always_witness:
  "\<exists>es' s'. counter_run es' \<lparr>s_number = 0, owner = Some 1, fpcs = [FTest 0, FAdded 0 1], mpc = MJoin1,
     c_fault = None\<rparr> = Some s' \<and> (mpc s' = MFailed \<or> mpc s' = MPrinted 10000)"
  by (rule counter_finishes_always [OF counter_run_stores])

text \<open>C10: the counting threads refine an atomic counter: every statement of a thread either leaves the
  number and the threads' counts alone, or adds one to the number and to that thread's count.\<close>

theorem counter_refines_atomic:
  assumes "counter_run es testCreateThread6 = Some s" and "counter_exec (Thread t) s = Some s'"
  shows "counter_abs s' = counter_abs s \<or> atomic_inc t (counter_abs s) = Some (counter_abs s')"
proof -
  have "counter_ok s" using counter_run_ok [OF counter_start(1) assms(1)] by blast
  moreover from assms(2) have "t < length (fpcs s)" "funThread t s = Some s'" by (auto split: if_splits)
  ultimately show ?thesis by (rule funThread_refines)
qed

theorem counter_refines_atomic_witness:
  "atomic_inc 1 (0, [0, 0]) = Some (1, [0, 1])"
  using counter_refines_atomic [OF counter_run_stores, of 1]
  by (simp add: funThread_def f_at_def counter_abs_def)

text \<open>a thread of \<open>testCreateThread2\<close> prints its own number, since each gets an array entry of its
  own; the only fault is a thread that starts after its creator has returned.\<close>

theorem numbered_threads_print_own:
  assumes "length junk = 5" and "create2_run es (testCreateThread2 junk) = Some r"
  shows "case r of Inl e \<Rightarrow> e = UseAfterFree
    | Inr s \<Rightarrow> \<forall>i < length (printed s). printed s ! i = None \<or> printed s ! i = Some (int i)"
proof -
  have "create2_ok (testCreateThread2 junk)" using assms(1) by (simp add: create2_ok_def testCreateThread2_def)
  from create2_run_ok [OF this assms(2)] show ?thesis by (auto simp: create2_ok_def split: sum.splits)
qed

theorem numbered_threads_print_own_witness:
  "\<exists>s. create2_run [Create True, Create True, Start 1] (testCreateThread2 [9, 9, 9, 9, 9]) = Some (Inr s) \<and>
     (printed s ! 1 = None \<or> printed s ! 1 = Some 1)"
proof -
  have "create2_run [Create True, Create True, Start 1] (testCreateThread2 [9, 9, 9, 9, 9]) =
    Some (Inr \<lparr>frame = Some [0, 1, 9, 9, 9], printed = [None, Some 1]\<rparr>)"
    by (simp add: testCreateThread2_def threadCllback_def)
  from numbered_threads_print_own [OF _ this] this show ?thesis by simp
qed

end
