(* ===== verification/Thread_Join.thy ===== *)
theory Thread_Join
  imports C_Base Pub
begin

text \<open>
  The rest of \<open>pipe/thread.c\<close>: a thread that prints a structure in its creator's frame
  (\<open>testCreateThread\<close>), and joining a thread that has an exit value (\<open>testCreateThread3\<close>), that is
  detached (\<open>testCreateThread4\<close>), or that is detached and cancelled (\<open>testCreateThread5\<close>). \<open>sleep\<close>
  orders nothing.
\<close>

section \<open>A structure in the creator's frame\<close>

text \<open>
  \<open>person\<close> is the structure while \<open>testCreateThread\<close> has not returned; its name is an array of 20
  characters. \<open>started1\<close>: the thread has been created and may run.
\<close>

record create1 =
  person :: "(int \<times> string) option"
  started1 :: bool
  said :: "(int \<times> string) option"

datatype create1_event = Create1 bool | Run1 | Return1

text \<open>The name in UTF-8.\<close>

definition zhangsan :: string where
  "zhangsan = [CHR 0xE5, CHR 0xBC, CHR 0xA0, CHR 0xE4, CHR 0xB8, CHR 0x89]"

definition mythread :: "create1 \<Rightarrow> create1 res" where
  "mythread s =
     (case person s of
        None \<Rightarrow> Inl UseAfterFree
      | Some (age, name) \<Rightarrow> Inr (s\<lparr>said := Some (age, c_string name 0)\<rparr>))"

fun create1_exec :: "create1_event \<Rightarrow> create1 \<Rightarrow> create1 res option" where
  "create1_exec (Create1 ok) s =
     (if person s \<noteq> None \<and> \<not> started1 s
      then Some (Inr (if ok then s\<lparr>started1 := True\<rparr> else s\<lparr>person := None\<rparr>)) else None)"
| "create1_exec Run1 s = (if started1 s \<and> said s = None then Some (mythread s) else None)"
| "create1_exec Return1 s =
     (if started1 s \<and> person s \<noteq> None then Some (Inr (s\<lparr>person := None\<rparr>)) else None)"

fun create1_run :: "create1_event list \<Rightarrow> create1 \<Rightarrow> create1 res option" where
  "create1_run [] s = Some (Inr s)"
| "create1_run (e # es) s =
     (case create1_exec e s of
        None \<Rightarrow> None
      | Some (Inl err) \<Rightarrow> Some (Inl err)
      | Some (Inr s') \<Rightarrow> create1_run es s')"

definition testCreateThread :: "create1 res" where
  "testCreateThread =
     bindR (put_string (replicate 20 NUL) 0 zhangsan) (\<lambda>name.
       Inr \<lparr>person = Some (20, name), started1 = False, said = None\<rparr>)"

section \<open>Joining\<close>

text \<open>
  A thread that has been created lives until it is over. Joining one that is not detached waits for
  its end and gets its exit value. POSIX leaves joining a detached thread undefined: while it
  lives its id is recognised and the error EINVAL returned, afterwards the id is that of nothing.
\<close>

datatype exit_ptr = NULL | Addr_g_var

datatype life = Unborn | Living | Over

record thr =
  life :: life
  detached :: bool
  cancelled :: bool
  retval :: exit_ptr
  counted :: int

definition EINVAL :: int where "EINVAL = 22"

definition g_var :: int where "g_var = 9"

definition read_exit :: "exit_ptr \<Rightarrow> int res" where
  "read_exit p = (case p of NULL \<Rightarrow> Inl NullDeref | Addr_g_var \<Rightarrow> Inr g_var)"

definition pthread_join :: "thr \<Rightarrow> (int \<times> exit_ptr) res option" where
  "pthread_join t =
     (if detached t
      then if life t = Over then Some (Inl UseAfterFree) else Some (Inr (EINVAL, NULL))
      else if life t = Over then Some (Inr (0, retval t)) else None)"

text \<open>The thread functions: one that exits with the address of \<open>g_var\<close>, one that counts until cancelled.\<close>

definition threadExit :: "thr \<Rightarrow> thr res" where
  "threadExit t = Inr (t\<lparr>life := Over, retval := Addr_g_var\<rparr>)"

definition threadCancel :: "thr \<Rightarrow> thr res" where
  "threadCancel t =
     bindR (c_add (counted t) 1) (\<lambda>n.
       Inr (if cancelled t then t\<lparr>counted := n, life := Over\<rparr> else t\<lparr>counted := n\<rparr>))"

text \<open>
  Where a creator is: before the creation, before the call between creation and join, before the
  join; what the join returned and, in \<open>testCreateThread3\<close>, the number printed.
\<close>

datatype jpos = JCreate | JNext | JJoin | JJoined int "int option" | JFailed

record jsys =
  jpos :: jpos
  jthr :: thr

datatype jevent = JMain bool | JThread

definition thr_new :: "bool \<Rightarrow> thr" where
  "thr_new d = \<lparr>life = Living, detached = d, cancelled = False, retval = NULL, counted = 0\<rparr>"

definition j_create :: "bool \<Rightarrow> bool \<Rightarrow> jsys \<Rightarrow> jsys" where
  "j_create ok d s = (if ok then s\<lparr>jpos := JNext, jthr := thr_new d\<rparr> else s\<lparr>jpos := JFailed\<rparr>)"

text \<open>\<open>testCreateThread3\<close>: join, and print what the exit value points to.\<close>

definition testCreateThread3 :: "bool \<Rightarrow> jsys \<Rightarrow> jsys res option" where
  "testCreateThread3 ok s =
     (case jpos s of
        JCreate \<Rightarrow> Some (Inr (j_create ok False s))
      | JNext \<Rightarrow> Some (Inr (s\<lparr>jpos := JJoin\<rparr>))
      | JJoin \<Rightarrow>
          (case pthread_join (jthr s) of
             None \<Rightarrow> None
           | Some r \<Rightarrow> Some (bindR r (\<lambda>(rc, p). bindR (read_exit p) (\<lambda>n. Inr (s\<lparr>jpos := JJoined rc (Some n)\<rparr>)))))
      | _ \<Rightarrow> None)"

text \<open>\<open>testCreateThread4\<close>: detach, then join.\<close>

definition testCreateThread4 :: "bool \<Rightarrow> jsys \<Rightarrow> jsys res option" where
  "testCreateThread4 ok s =
     (case jpos s of
        JCreate \<Rightarrow> Some (Inr (j_create ok False s))
      | JNext \<Rightarrow> Some (Inr (s\<lparr>jpos := JJoin, jthr := (jthr s)\<lparr>detached := True\<rparr>\<rparr>))
      | JJoin \<Rightarrow>
          (case pthread_join (jthr s) of
             None \<Rightarrow> None
           | Some r \<Rightarrow> Some (bindR r (\<lambda>(rc, p). Inr (s\<lparr>jpos := JJoined rc None\<rparr>))))
      | _ \<Rightarrow> None)"

text \<open>\<open>testCreateThread5\<close>: created detached; cancel, then join.\<close>

definition testCreateThread5 :: "bool \<Rightarrow> jsys \<Rightarrow> jsys res option" where
  "testCreateThread5 ok s =
     (case jpos s of
        JCreate \<Rightarrow> Some (Inr (j_create ok True s))
      | JNext \<Rightarrow> Some (Inr (s\<lparr>jpos := JJoin, jthr := (jthr s)\<lparr>cancelled := True\<rparr>\<rparr>))
      | JJoin \<Rightarrow>
          (case pthread_join (jthr s) of
             None \<Rightarrow> None
           | Some r \<Rightarrow> Some (bindR r (\<lambda>(rc, p). Inr (s\<lparr>jpos := JJoined rc None\<rparr>))))
      | _ \<Rightarrow> None)"

text \<open>A creator \<open>main\<close> and its thread \<open>body\<close>.\<close>

fun j_exec ::
  "(bool \<Rightarrow> jsys \<Rightarrow> jsys res option) \<Rightarrow> (thr \<Rightarrow> thr res) \<Rightarrow> jevent \<Rightarrow> jsys \<Rightarrow> jsys res option" where
  "j_exec main body (JMain ok) s = main ok s"
| "j_exec main body JThread s =
     (if life (jthr s) = Living then Some (bindR (body (jthr s)) (\<lambda>t. Inr (s\<lparr>jthr := t\<rparr>))) else None)"

fun j_run ::
  "(bool \<Rightarrow> jsys \<Rightarrow> jsys res option) \<Rightarrow> (thr \<Rightarrow> thr res) \<Rightarrow> jevent list \<Rightarrow> jsys \<Rightarrow> jsys res option" where
  "j_run main body [] s = Some (Inr s)"
| "j_run main body (e # es) s =
     (case j_exec main body e s of
        None \<Rightarrow> None
      | Some (Inl err) \<Rightarrow> Some (Inl err)
      | Some (Inr s') \<Rightarrow> j_run main body es s')"

definition j_start :: jsys where
  "j_start = \<lparr>jpos = JCreate,
     jthr = \<lparr>life = Unborn, detached = False, cancelled = False, retval = NULL, counted = 0\<rparr>\<rparr>"

end
