(* ===== verification/Thread_Join_Props.thy ===== *)
theory Thread_Join_Props
  imports Thread_Join Event_Runs
begin

text \<open>
  A thread's exit value reaches the one who joins it; a detached thread is joined in vain, or after
  its end at the price of a fault; and a structure on the creator's stack is read whole or not at all.
\<close>

interpretation create1_runs: fallible_runs create1_exec create1_run
  by unfold_locales simp_all

interpretation j_runs: fallible_runs "j_exec main body" "j_run main body"
  by unfold_locales simp_all

lemmas thread_bodies = threadExit_def threadCancel_def
lemmas creators = testCreateThread3_def testCreateThread4_def testCreateThread5_def j_create_def
  thr_new_def

section \<open>The structure\<close>

lemma zhangsan_stored:
  "\<exists>name. put_string (replicate 20 NUL) 0 zhangsan = Inr name \<and> c_string name 0 = zhangsan"
proof -
  have "put_string (replicate 20 NUL) 0 zhangsan = Inr (zhangsan @ replicate 14 NUL)" by code_simp
  moreover have "c_string (zhangsan @ replicate 14 NUL) 0 = zhangsan" by code_simp
  ultimately show ?thesis by blast
qed

definition create1_ok :: "create1 \<Rightarrow> bool" where
  "create1_ok s \<longleftrightarrow>
     (\<forall>age name. person s = Some (age, name) \<longrightarrow> age = 20 \<and> c_string name 0 = zhangsan) \<and>
     (said s = None \<or> said s = Some (20, zhangsan))"

lemma create1_exec_ok:
  assumes "create1_ok s" and "create1_exec e s = Some r"
  shows "case r of Inl err \<Rightarrow> err = UseAfterFree | Inr s' \<Rightarrow> create1_ok s'"
proof (cases e)
  case Run1
  with assms show ?thesis
    by (auto simp: create1_ok_def mythread_def split: if_splits option.splits)
qed (use assms in \<open>auto simp: create1_ok_def split: if_splits\<close>)

section \<open>The exit value\<close>

definition join3_ok :: "jsys \<Rightarrow> bool" where
  "join3_ok s \<longleftrightarrow>
     \<not> detached (jthr s) \<and> (life (jthr s) = Over \<longrightarrow> retval (jthr s) = Addr_g_var) \<and>
     (life (jthr s) = Unborn \<longleftrightarrow> jpos s = JCreate \<or> jpos s = JFailed) \<and>
     (\<forall>rc n. jpos s = JJoined rc n \<longrightarrow> life (jthr s) = Over \<and> rc = 0 \<and> n = Some g_var)"

lemma join3_exec_ok:
  assumes ok: "join3_ok s" and step: "j_exec testCreateThread3 threadExit e s = Some r"
  shows "\<exists>s'. r = Inr s' \<and> join3_ok s'"
proof (cases e)
  case (JMain b)
  with ok step show ?thesis
    by (cases "jpos s")
      (auto simp: join3_ok_def creators pthread_join_def read_exit_def split: if_splits)
next
  case JThread
  with ok step show ?thesis by (auto simp: join3_ok_def thread_bodies split: if_splits)
qed

section \<open>Detached threads\<close>

text \<open>At the join the thread is detached, so that the join returns the error or faults.\<close>

definition join_detached :: "jsys \<Rightarrow> bool" where
  "join_detached s \<longleftrightarrow>
     (jpos s = JJoin \<longrightarrow> detached (jthr s)) \<and> (\<forall>rc n. jpos s = JJoined rc n \<longrightarrow> rc = EINVAL)"

lemma join4_exec_ok:
  assumes ok: "join_detached s" and step: "j_exec testCreateThread4 threadExit e s = Some r"
  shows "case r of Inl err \<Rightarrow> err = UseAfterFree | Inr s' \<Rightarrow> join_detached s'"
proof (cases e)
  case (JMain b)
  with ok step show ?thesis
    by (cases "jpos s") (auto simp: join_detached_def creators pthread_join_def split: if_splits)
next
  case JThread
  with ok step show ?thesis by (auto simp: join_detached_def thread_bodies split: if_splits)
qed

definition join5_ok :: "jsys \<Rightarrow> bool" where
  "join5_ok s \<longleftrightarrow> join_detached s \<and> (jpos s = JNext \<longrightarrow> detached (jthr s))"

lemma join5_exec_ok:
  assumes ok: "join5_ok s" and step: "j_exec testCreateThread5 threadCancel e s = Some r"
  shows "case r of Inl err \<Rightarrow> err = UseAfterFree \<or> err = SignedOverflow | Inr s' \<Rightarrow> join5_ok s'"
proof (cases e)
  case (JMain b)
  with ok step show ?thesis
    by (cases "jpos s")
      (auto simp: join5_ok_def join_detached_def creators pthread_join_def split: if_splits)
next
  case JThread
  with ok step show ?thesis
    by (auto simp: join5_ok_def join_detached_def thread_bodies c_add_def split: if_splits)
qed

section \<open>Properties\<close>

text \<open>the thread of \<open>testCreateThread\<close> prints the age and the name its creator has stored; the only
  fault is a thread that starts after its creator has returned.\<close>

theorem thread_prints_person:
  assumes "testCreateThread = Inr s" and "create1_run es s = Some r"
  shows "case r of Inl err \<Rightarrow> err = UseAfterFree
    | Inr s' \<Rightarrow> said s' = None \<or> said s' = Some (20, zhangsan)"
proof -
  have "create1_ok s"
    using assms(1) zhangsan_stored by (auto simp: create1_ok_def testCreateThread_def)
  from create1_runs.run_keeps_all [OF create1_exec_ok this assms(2)]
  have "case r of Inl err \<Rightarrow> err = UseAfterFree | Inr s \<Rightarrow> create1_ok s" .
  then show ?thesis by (cases r) (simp_all add: create1_ok_def)
qed

theorem thread_prints_person_witness:
  "\<exists>s s'. testCreateThread = Inr s \<and> create1_run [Create1 True, Run1] s = Some (Inr s') \<and>
    said s' = Some (20, zhangsan)"
proof -
  from zhangsan_stored obtain s where s: "testCreateThread = Inr s"
    "person s \<noteq> None" "\<not> started1 s" "said s = None" by (auto simp: testCreateThread_def)
  then obtain s' where run: "create1_run [Create1 True, Run1] s = Some (Inr s')" "said s' \<noteq> None"
    by (auto simp: mythread_def)
  from thread_prints_person [OF s(1) run(1)] run(2) have "said s' = Some (20, zhangsan)" by simp
  with run(1) s(1) show ?thesis by blast
qed

text \<open>joining a thread delivers its exit value: whenever the join of \<open>testCreateThread3\<close> returns,
  it has waited for the thread's end, and prints the 9 the thread points to; no run faults.\<close>

theorem join_delivers_exit_value:
  assumes "j_run testCreateThread3 threadExit es j_start = Some r"
  shows "\<exists>s. r = Inr s \<and>
    (\<forall>rc n. jpos s = JJoined rc n \<longrightarrow> life (jthr s) = Over \<and> rc = 0 \<and> n = Some 9)"
proof -
  have "join3_ok j_start" by (simp add: join3_ok_def j_start_def)
  moreover have "case r1 of Inl err \<Rightarrow> False | Inr s' \<Rightarrow> join3_ok s'"
    if "join3_ok s" "j_exec testCreateThread3 threadExit e s = Some r1" for e s r1
    using join3_exec_ok [OF that] by auto
  ultimately have "case r of Inl err \<Rightarrow> False | Inr s \<Rightarrow> join3_ok s"
    using j_runs.run_keeps_all [of join3_ok testCreateThread3 threadExit "\<lambda>_. False"] assms by blast
  then show ?thesis by (auto simp: join3_ok_def g_var_def split: sum.splits)
qed

theorem join_delivers_exit_value_witness:
  "\<exists>s. j_run testCreateThread3 threadExit [JMain True, JMain True, JThread, JMain True] j_start = Some (Inr s) \<and>
     (\<forall>rc n. jpos s = JJoined rc n \<longrightarrow> n = Some 9)"
proof -
  have "\<exists>r. j_run testCreateThread3 threadExit [JMain True, JMain True, JThread, JMain True] j_start = Some r"
    by (simp add: j_start_def creators thread_bodies pthread_join_def read_exit_def)
  with join_delivers_exit_value show ?thesis by blast
qed

text \<open>joining a detached thread never waits for it: the join of \<open>testCreateThread4\<close> returns EINVAL
  while the thread lives, and uses the id of a thread that is gone when it does not.\<close>

theorem detached_thread_not_joined:
  assumes "j_run testCreateThread4 threadExit es j_start = Some r"
  shows "case r of Inl err \<Rightarrow> err = UseAfterFree
    | Inr s \<Rightarrow> \<forall>rc n. jpos s = JJoined rc n \<longrightarrow> rc = EINVAL"
proof -
  have "join_detached j_start" by (simp add: join_detached_def j_start_def)
  from j_runs.run_keeps_all [OF join4_exec_ok this assms]
  have "case r of Inl err \<Rightarrow> err = UseAfterFree | Inr s \<Rightarrow> join_detached s" .
  then show ?thesis by (auto simp: join_detached_def split: sum.splits)
qed

theorem detached_thread_not_joined_witness:
  "j_run testCreateThread4 threadExit [JMain True, JMain True, JThread, JMain True] j_start =
     Some (Inl UseAfterFree)"
proof -
  have run: "\<exists>r. j_run testCreateThread4 threadExit [JMain True, JMain True, JThread, JMain True] j_start = Some r \<and>
      (case r of Inl err \<Rightarrow> True | Inr s \<Rightarrow> False)"
    by (simp add: j_start_def creators thread_bodies pthread_join_def)
  with detached_thread_not_joined show ?thesis by (fastforce split: sum.splits)
qed

text \<open>the same for the cancelled thread of \<open>testCreateThread5\<close>, whose counter may also overflow
  before it is cancelled.\<close>

theorem cancelled_thread_not_joined:
  assumes "j_run testCreateThread5 threadCancel es j_start = Some r"
  shows "case r of Inl err \<Rightarrow> err = UseAfterFree \<or> err = SignedOverflow
    | Inr s \<Rightarrow> \<forall>rc n. jpos s = JJoined rc n \<longrightarrow> rc = EINVAL"
proof -
  have "join5_ok j_start" by (simp add: join5_ok_def join_detached_def j_start_def)
  from j_runs.run_keeps_all [OF join5_exec_ok this assms]
  have "case r of Inl err \<Rightarrow> err = UseAfterFree \<or> err = SignedOverflow | Inr s \<Rightarrow> join5_ok s" .
  then show ?thesis by (auto simp: join5_ok_def join_detached_def split: sum.splits)
qed

theorem cancelled_thread_not_joined_witness:
  "\<exists>s. j_run testCreateThread5 threadCancel [JMain True, JThread, JMain True, JMain True] j_start = Some (Inr s) \<and>
     (\<forall>rc n. jpos s = JJoined rc n \<longrightarrow> rc = EINVAL)"
proof -
  have "\<exists>s. j_run testCreateThread5 threadCancel [JMain True, JThread, JMain True, JMain True] j_start = Some (Inr s)"
    by (simp add: j_start_def creators thread_bodies pthread_join_def c_add_def int_range_defs)
  then obtain s where "j_run testCreateThread5 threadCancel [JMain True, JThread, JMain True, JMain True] j_start =
      Some (Inr s)" by blast
  with cancelled_thread_not_joined [OF this] show ?thesis by simp
qed

end
