(* ===== verification/Signals.thy ===== *)
theory Signals
  imports C_Base
begin

text \<open>
  \<open>pipe/signal.c\<close>: the handler that collects ended children (\<open>waitchild\<close>, \<open>testSigchld\<close>) and the two
  processes that signal each other in turn (\<open>testSigchld2\<close>). A signal is pending or not, it is not
  counted. A handler may run between any two statements.
\<close>

section \<open>Collecting children\<close>

datatype status = Alive | ExitedWith int | KilledBy int

type_synonym children = "(int \<times> status) list"

text \<open>\<open>waitpid(-1, &status, WNOHANG)\<close>: an ended child is removed; 0 if all live; -1 without children.\<close>

datatype wait_result = Collected int status | NoneEnded | NoChild

fun take_ended :: "children \<Rightarrow> (int \<times> status) option \<times> children" where
  "take_ended [] = (None, [])"
| "take_ended ((p, st) # cs) =
     (if st \<noteq> Alive then (Some (p, st), cs)
      else (case take_ended cs of (r, cs') \<Rightarrow> (r, (p, st) # cs')))"

definition waitpid :: "children \<Rightarrow> wait_result \<times> children" where
  "waitpid cs =
     (case take_ended cs of
        (Some (p, st), cs') \<Rightarrow> (Collected p st, cs')
      | (None, cs') \<Rightarrow> (if cs = [] then NoChild else NoneEnded, cs))"

text \<open>
  The parent and its children. \<open>started\<close> counts the turns of the loop with \<open>fork\<close>; \<open>waiting\<close> says
  that the handler is running; \<open>collected\<close> is what it has reported.
\<close>

datatype chld_pos = SBlock | SFork | SInstall | SUnblock | SIdle | SReturned

record chld =
  kids :: children
  chld_blocked :: bool
  installed :: bool
  chld_pending :: bool
  waiting :: bool
  collected :: "(int \<times> status) list"
  started :: nat
  spos :: chld_pos

text \<open>
  \<open>SParent fork\<close>: the parent's next statement, with what \<open>fork\<close> returned. \<open>SEnd\<close>: a child ends.
  \<open>SDeliver\<close>: the handler starts, unless it is running; \<open>SWait\<close>: one turn of its loop.
\<close>

datatype chld_event = SParent int | SEnd int status | SDeliver | SWait

definition testSigchld :: "int \<Rightarrow> chld \<Rightarrow> chld option" where
  "testSigchld pid s =
     (case spos s of
        SBlock \<Rightarrow> Some (s\<lparr>chld_blocked := True, spos := SFork\<rparr>)
      | SFork \<Rightarrow>
          if started s < 3
          then if pid < 0 then Some (s\<lparr>spos := SReturned\<rparr>)
               else if pid > 0 \<and> pid \<notin> fst ` set (kids s)
               then Some (s\<lparr>kids := kids s @ [(pid, Alive)], started := Suc (started s)\<rparr>)
               else None
          else Some (s\<lparr>spos := SInstall\<rparr>)
      | SInstall \<Rightarrow> Some (s\<lparr>installed := True, spos := SUnblock\<rparr>)
      | SUnblock \<Rightarrow> Some (s\<lparr>chld_blocked := False, spos := SIdle\<rparr>)
      | _ \<Rightarrow> None)"

text \<open>One turn of \<open>waitchild\<close>.\<close>

definition waitchild :: "chld \<Rightarrow> chld" where
  "waitchild s =
     (case waitpid (kids s) of
        (Collected p st, cs) \<Rightarrow> s\<lparr>kids := cs, collected := collected s @ [(p, st)]\<rparr>
      | (_, cs) \<Rightarrow> s\<lparr>waiting := False\<rparr>)"

text \<open>
  A child that ends raises SIGCHLD: kept while it is blocked, and ignored by default, unblocked, as
  long as no handler is installed. The handler does not interrupt the parent before the unblocking,
  and not itself.
\<close>

fun chld_exec :: "chld_event \<Rightarrow> chld \<Rightarrow> chld option" where
  "chld_exec (SParent pid) s = (if waiting s then None else testSigchld pid s)"
| "chld_exec (SEnd p st) s =
     (if (p, Alive) \<in> set (kids s) \<and> st \<noteq> Alive
      then Some (s\<lparr>kids := map (\<lambda>c. if c = (p, Alive) then (p, st) else c) (kids s),
                   chld_pending := (chld_pending s \<or> chld_blocked s \<or> installed s)\<rparr>)
      else None)"
| "chld_exec SDeliver s =
     (if chld_pending s \<and> \<not> chld_blocked s \<and> installed s \<and> \<not> waiting s
      then Some (s\<lparr>chld_pending := False, waiting := True\<rparr>) else None)"
| "chld_exec SWait s = (if waiting s then Some (waitchild s) else None)"

fun chld_run :: "chld_event list \<Rightarrow> chld \<Rightarrow> chld option" where
  "chld_run [] s = Some s"
| "chld_run (e # es) s = (case chld_exec e s of None \<Rightarrow> None | Some s' \<Rightarrow> chld_run es s')"

definition chld_start :: chld where
  "chld_start = \<lparr>kids = [], chld_blocked = False, installed = False, chld_pending = False,
     waiting = False, collected = [], started = 0, spos = SBlock\<rparr>"

section \<open>Taking turns\<close>

text \<open>
  One of the two processes of \<open>testSigchld2\<close>: before its statements \<open>num = ...\<close>, \<open>flag = ...\<close> and
  \<open>signal(...)\<close>, at the test of its loop, before \<open>kill\<close>, and before \<open>flag = 1\<close>.
\<close>

datatype tpos = TNum | TFlag | TSignal | TTest | TKill | TSet

record proc =
  num :: int
  flag :: int
  handled :: bool
  sig_pending :: bool
  tpos :: tpos
  dead :: bool

text \<open>Both processes, and the numbers printed so far, in order.\<close>

record turns =
  parent :: proc
  child :: proc
  shown :: "int list"

datatype side = Parent | Child

definition proc_of :: "side \<Rightarrow> turns \<Rightarrow> proc" where
  "proc_of x s = (case x of Parent \<Rightarrow> parent s | Child \<Rightarrow> child s)"

definition set_proc :: "side \<Rightarrow> proc \<Rightarrow> turns \<Rightarrow> turns" where
  "set_proc x p s = (case x of Parent \<Rightarrow> s\<lparr>parent := p\<rparr> | Child \<Rightarrow> s\<lparr>child := p\<rparr>)"

definition other :: "side \<Rightarrow> side" where
  "other x = (case x of Parent \<Rightarrow> Child | Child \<Rightarrow> Parent)"

text \<open>The next statement of a process; \<open>num\<close> and \<open>flag\<close> start at 0 and 1, and at 1 and 0.\<close>

definition testSigchld2 :: "side \<Rightarrow> turns \<Rightarrow> turns" where
  "testSigchld2 x s =
     (let p = proc_of x s in
      case tpos p of
        TNum \<Rightarrow> set_proc x (p\<lparr>num := (if x = Parent then 0 else 1), tpos := TFlag\<rparr>) s
      | TFlag \<Rightarrow> set_proc x (p\<lparr>flag := (if x = Parent then 1 else 0), tpos := TSignal\<rparr>) s
      | TSignal \<Rightarrow> set_proc x (p\<lparr>handled := True, tpos := TTest\<rparr>) s
      | TTest \<Rightarrow> if flag p = 0 then set_proc x (p\<lparr>tpos := TKill\<rparr>) s else s
      | TKill \<Rightarrow> set_proc (other x) ((proc_of (other x) s)\<lparr>sig_pending := True\<rparr>)
                  (set_proc x (p\<lparr>tpos := TSet\<rparr>) s)
      | TSet \<Rightarrow> set_proc x (p\<lparr>flag := 1, tpos := TTest\<rparr>) s)"

text \<open>\<open>func1\<close> and \<open>func2\<close>, which have the same body.\<close>

definition func :: "side \<Rightarrow> turns \<Rightarrow> turns res" where
  "func x s =
     (let p = proc_of x s in
      bindR (c_add (num p) 2) (\<lambda>n.
        Inr ((set_proc x (p\<lparr>num := n, flag := 0, sig_pending := False\<rparr>) s)
               \<lparr>shown := shown s @ [num p]\<rparr>)))"

text \<open>Without a handler the signal ends the process.\<close>

definition deliver :: "side \<Rightarrow> turns \<Rightarrow> turns res" where
  "deliver x s =
     (let p = proc_of x s in
      if handled p then func x s else Inr (set_proc x (p\<lparr>sig_pending := False, dead := True\<rparr>) s))"

datatype turn_event = Step side | Signal side

fun turn_exec :: "turn_event \<Rightarrow> turns \<Rightarrow> turns res option" where
  "turn_exec (Step x) s = (if dead (proc_of x s) then None else Some (Inr (testSigchld2 x s)))"
| "turn_exec (Signal x) s =
     (if sig_pending (proc_of x s) \<and> \<not> dead (proc_of x s) then Some (deliver x s) else None)"

fun turn_run :: "turn_event list \<Rightarrow> turns \<Rightarrow> turns res option" where
  "turn_run [] s = Some (Inr s)"
| "turn_run (e # es) s =
     (case turn_exec e s of
        None \<Rightarrow> None
      | Some (Inl err) \<Rightarrow> Some (Inl err)
      | Some (Inr s') \<Rightarrow> turn_run es s')"

text \<open>After \<open>fork\<close>: \<open>num\<close> is 0 and \<open>flag\<close>, a global variable, 0 in both.\<close>

definition turn_start :: turns where
  "turn_start =
     (let p = \<lparr>num = 0, flag = 0, handled = False, sig_pending = False, tpos = TNum, dead = False\<rparr>
      in \<lparr>parent = p, child = p, shown = []\<rparr>)"

end
