(* ===== verification/Signals_Props.thy ===== *)
theory Signals_Props
  imports Signals Event_Runs "HOL-Library.Multiset" "HOL-Library.Sublist"
begin

text \<open>
  What \<open>pipe/signal.c\<close> promises: no ended child is forgotten, and the two processes print the numbers in
  order; and how a turn, or a process, can be lost.
\<close>

section \<open>Ended children\<close>

definition ended :: "children \<Rightarrow> (int \<times> status) list" where
  "ended cs = filter (\<lambda>c. snd c \<noteq> Alive) cs"

definition alive :: "children \<Rightarrow> (int \<times> status) list" where
  "alive cs = filter (\<lambda>c. snd c = Alive) cs"

lemma ended_simps [simp]:
  "ended [] = []" "ended (c # cs) = (if snd c \<noteq> Alive then c # ended cs else ended cs)"
  "ended (cs @ ds) = ended cs @ ended ds"
  by (simp_all add: ended_def)

lemma alive_simps [simp]:
  "alive [] = []" "alive (c # cs) = (if snd c = Alive then c # alive cs else alive cs)"
  by (simp_all add: alive_def)

lemma take_ended_result:
  "(case take_ended cs of
      (None, cs') \<Rightarrow> ended cs = [] \<and> cs' = cs
    | (Some c, cs') \<Rightarrow> ended cs = c # ended cs' \<and> alive cs' = alive cs \<and> Suc (length cs') = length cs)"
  by (induction cs) (auto split: option.splits prod.splits)

lemma alive_none_ended: "ended cs = [] \<Longrightarrow> alive cs = cs"
  by (induction cs) (auto split: if_splits)

lemma waitchild_none:
  "ended (kids s) = [] \<Longrightarrow> waitchild s = s\<lparr>waiting := False\<rparr>"
  using take_ended_result [of "kids s"]
  by (auto simp: waitchild_def waitpid_def split: option.splits prod.splits)

lemma waitchild_some:
  assumes "ended (kids s) = c # cs"
  shows "\<exists>ks. waitchild s = s\<lparr>kids := ks, collected := collected s @ [c]\<rparr> \<and> ended ks = cs \<and>
    alive ks = alive (kids s) \<and> Suc (length ks) = length (kids s)"
  using assms take_ended_result [of "kids s"]
  by (auto simp: waitchild_def waitpid_def split: option.splits prod.splits)

text \<open>The loop of the handler, run to its end.\<close>

lemma waitchild_all:
  "waiting s \<Longrightarrow>
   chld_run (replicate (Suc (length (ended (kids s)))) SWait) s =
     Some (s\<lparr>kids := alive (kids s), waiting := False, collected := collected s @ ended (kids s)\<rparr>)"
proof (induction "ended (kids s)" arbitrary: s)
  case Nil
  then show ?case by (simp add: waitchild_none alive_none_ended eq_commute [of "[]"])
next
  case (Cons c cs)
  from waitchild_some [OF Cons(2) [symmetric]] obtain ks where
    ks: "waitchild s = s\<lparr>kids := ks, collected := collected s @ [c]\<rparr>" "ended ks = cs"
      "alive ks = alive (kids s)" by blast
  with Cons(1) [of "s\<lparr>kids := ks, collected := collected s @ [c]\<rparr>"] Cons(3)
  show ?case by (simp add: Cons(2) [symmetric])
qed

text \<open>An ended child has its signal still pending, or the handler at work.\<close>

definition chld_ok :: "chld \<Rightarrow> bool" where
  "chld_ok s \<longleftrightarrow>
     (ended (kids s) \<noteq> [] \<longrightarrow> chld_pending s \<or> waiting s) \<and>
     (waiting s \<longrightarrow> spos s = SIdle) \<and>
     (spos s = SBlock \<longrightarrow> kids s = [] \<and> \<not> installed s) \<and>
     (spos s \<in> {SFork, SInstall, SUnblock, SReturned} \<longrightarrow> chld_blocked s) \<and>
     (spos s \<in> {SUnblock, SIdle} \<longrightarrow> installed s) \<and>
     (spos s = SIdle \<longrightarrow> \<not> chld_blocked s) \<and>
     length (collected s) + length (kids s) = started s \<and> started s \<le> 3"

lemma ended_end:
  "st \<noteq> Alive \<Longrightarrow> (p, Alive) \<in> set cs \<Longrightarrow>
   ended (map (\<lambda>c. if c = (p, Alive) then (p, st) else c) cs) \<noteq> []"
  by (induction cs) auto

lemma chld_exec_ok:
  assumes ok: "chld_ok s" and step: "chld_exec e s = Some s'"
  shows "chld_ok s'"
proof (cases e)
  case (SParent pid)
  with ok step show ?thesis
    by (cases "spos s") (auto simp: chld_ok_def testSigchld_def split: if_splits)
next
  case (SEnd p st)
  with step have p: "(p, Alive) \<in> set (kids s)" "st \<noteq> Alive" and
    s': "s' = s\<lparr>kids := map (\<lambda>c. if c = (p, Alive) then (p, st) else c) (kids s),
      chld_pending := (chld_pending s \<or> chld_blocked s \<or> installed s)\<rparr>"
    by (auto split: if_splits)
  from p have "kids s \<noteq> []" by auto
  with ok have "chld_blocked s \<or> installed s" by (cases "spos s") (auto simp: chld_ok_def)
  with ok s' \<open>kids s \<noteq> []\<close> show ?thesis by (auto simp: chld_ok_def)
next
  case SDeliver
  with ok step show ?thesis
    by (cases "spos s") (auto simp: chld_ok_def split: if_splits)
next
  case SWait
  with step have w: "waiting s" and s': "s' = waitchild s" by (auto split: if_splits)
  show ?thesis
  proof (cases "ended (kids s)")
    case Nil
    with ok w s' show ?thesis by (auto simp: chld_ok_def waitchild_none)
  next
    case (Cons c cs)
    from waitchild_some [OF Cons] ok w s' show ?thesis by (auto simp: chld_ok_def)
  qed
qed

interpretation chld_runs: plain_runs chld_exec chld_run
  by unfold_locales simp_all

lemma chld_run_ok: "chld_ok s \<Longrightarrow> chld_run es s = Some s' \<Longrightarrow> chld_ok s'"
  by (rule chld_runs.run_invariant [OF chld_exec_ok])

lemma chld_start_ok: "chld_ok chld_start"
  by (simp add: chld_ok_def chld_start_def)

text \<open>The children that end in a run, with the status they end with.\<close>

fun deaths :: "chld_event list \<Rightarrow> (int \<times> status) list" where
  "deaths [] = []"
| "deaths (SEnd p st # es) = (p, st) # deaths es"
| "deaths (_ # es) = deaths es"

text \<open>The reports made and those still to be made.\<close>

definition reports :: "chld \<Rightarrow> (int \<times> status) multiset" where
  "reports s = mset (collected s) + mset (ended (kids s))"

definition pids_ok :: "chld \<Rightarrow> bool" where
  "pids_ok s \<longleftrightarrow> distinct (map fst (kids s))"

lemma take_ended_subseq: "take_ended cs = (r, cs') \<Longrightarrow> subseq cs' cs"
  by (induction cs arbitrary: cs') (auto split: option.splits prod.splits if_splits)

lemma take_ended_pids:
  "take_ended cs = (r, cs') \<Longrightarrow> distinct (map fst cs) \<Longrightarrow> distinct (map fst cs')"
  using subseq_map [OF take_ended_subseq, of cs r cs' fst] by (auto simp: subseq_conv_nths distinct_nthsI)

lemma end_child:
  assumes "distinct (map fst cs)" and "(p, Alive) \<in> set cs" and "st \<noteq> Alive"
  shows "mset (ended (map (\<lambda>c. if c = (p, Alive) then (p, st) else c) cs)) =
    add_mset (p, st) (mset (ended cs))"
  using assms
proof (induction cs)
  case (Cons c cs)
  show ?case
  proof (cases "c = (p, Alive)")
    case True
    then have "(p, Alive) \<notin> set cs" using Cons.prems(1) by force
    then have "map (\<lambda>c. if c = (p, Alive) then (p, st) else c) cs = cs" by (auto intro: map_idI)
    with True Cons.prems(3) show ?thesis by simp
  qed (use Cons in auto)
qed simp

lemma chld_exec_reports:
  assumes pids: "pids_ok s" and step: "chld_exec e s = Some s'"
  shows "pids_ok s' \<and> reports s' = reports s + mset (deaths [e])"
proof (cases e)
  case (SParent pid)
  with pids step show ?thesis
    by (cases "spos s") (auto simp: pids_ok_def reports_def testSigchld_def split: if_splits)
next
  case (SEnd p st)
  with step have p: "(p, Alive) \<in> set (kids s)" "st \<noteq> Alive" and
    s': "kids s' = map (\<lambda>c. if c = (p, Alive) then (p, st) else c) (kids s)"
      "collected s' = collected s" by (auto split: if_splits)
  have "map fst (map (\<lambda>c. if c = (p, Alive) then (p, st) else c) (kids s)) = map fst (kids s)"
    by auto
  with end_child [OF pids [unfolded pids_ok_def] p] s' pids SEnd show ?thesis
    by (simp add: pids_ok_def reports_def del: map_map)
next
  case SDeliver
  with pids step show ?thesis by (auto simp: pids_ok_def reports_def split: if_splits)
next
  case SWait
  with step have s': "s' = waitchild s" by (auto split: if_splits)
  obtain r cs where t: "take_ended (kids s) = (r, cs)" by fastforce
  have "kids s' = kids s \<or> kids s' = cs" using s' t
    by (auto simp: waitchild_def waitpid_def split: option.splits prod.splits)
  with take_ended_pids [OF t] pids have "pids_ok s'" by (auto simp: pids_ok_def)
  moreover have "reports s' = reports s"
  proof (cases "ended (kids s)")
    case Nil
    with s' show ?thesis by (simp add: waitchild_none reports_def)
  next
    case (Cons c cs)
    from waitchild_some [OF Cons] s' Cons show ?thesis by (auto simp: reports_def)
  qed
  ultimately show ?thesis using SWait by simp
qed

lemma deaths_Cons: "mset (deaths (e # es)) = mset (deaths [e]) + mset (deaths es)"
  by (cases e) simp_all

lemma chld_run_reports:
  "pids_ok s \<Longrightarrow> chld_run es s = Some s' \<Longrightarrow> reports s' = reports s + mset (deaths es)"
proof (induction es arbitrary: s)
  case (Cons e es)
  then obtain s1 where 1: "chld_exec e s = Some s1" "chld_run es s1 = Some s'"
    by (auto split: option.splits)
  from chld_exec_reports [OF Cons.prems(1) 1(1)] Cons.IH [OF _ 1(2)] show ?case
    by (simp add: deaths_Cons [of e es] del: deaths.simps)
qed simp

section \<open>Turns\<close>

text \<open>A process that has passed its turn on, or is about to forget that it has it again.\<close>

definition passed :: "proc \<Rightarrow> bool" where
  "passed p \<longleftrightarrow> tpos p = TSet \<or> tpos p = TTest \<and> flag p = 1"

text \<open>The parent before its first turn.\<close>

definition starting :: "proc \<Rightarrow> bool" where
  "starting p \<longleftrightarrow> tpos p = TNum \<or> tpos p = TFlag \<or> tpos p = TSignal \<and> flag p = 1"

definition set_up :: "proc \<Rightarrow> bool" where
  "set_up p \<longleftrightarrow> (handled p \<longleftrightarrow> tpos p \<in> {TTest, TKill, TSet})"

text \<open>The list 0, 1, 2, \<dots>.\<close>

definition counting :: "int list \<Rightarrow> bool" where
  "counting xs \<longleftrightarrow> xs = map int [0..<length xs]"

lemma counting_simps: "counting []" "counting xs \<Longrightarrow> counting (xs @ [int (length xs)])"
  by (simp_all add: counting_def)

definition turn_ok :: "turns \<Rightarrow> bool" where
  "turn_ok s \<longleftrightarrow>
     (let n = length (shown s); p = parent s; c = child s in
      counting (shown s) \<and> set_up p \<and> set_up c \<and>
      (n \<noteq> 0 \<longrightarrow> handled p) \<and> (2 \<le> n \<longrightarrow> handled c) \<and>
      (if even n
       then \<not> sig_pending c \<and> (passed p \<or> n = 0 \<and> starting p) \<and> (sig_pending p \<longrightarrow> passed c) \<and>
         (tpos p \<noteq> TNum \<longrightarrow> num p = int n) \<and> (tpos c \<noteq> TNum \<longrightarrow> num c = int n + 1)
       else \<not> sig_pending p \<and> passed c \<and> (sig_pending c \<longrightarrow> passed p) \<and>
         (tpos p \<noteq> TNum \<longrightarrow> num p = int n + 1) \<and> num c = int n))"

lemmas turn_defs = turn_ok_def passed_def starting_def set_up_def Let_def
lemmas turn_moves = proc_of_def set_proc_def other_def

lemma turn_start_ok: "turn_ok turn_start"
  by (simp add: turn_defs turn_start_def counting_simps)

lemma step_parent_ok: "turn_ok s \<Longrightarrow> turn_ok (testSigchld2 Parent s)"
  by (cases "tpos (parent s)") (auto simp: testSigchld2_def turn_moves turn_defs split: if_splits)

lemma step_child_ok: "turn_ok s \<Longrightarrow> turn_ok (testSigchld2 Child s)"
proof (cases "tpos (child s)")
  case TNum
  assume ok: "turn_ok s"
  with TNum have "even (length (shown s))" "\<not> 2 \<le> length (shown s)"
    by (auto simp: turn_defs split: if_splits)
  then have "length (shown s) = 0" by presburger
  then have "shown s = []" by simp
  with TNum ok show ?thesis by (auto simp: testSigchld2_def turn_moves turn_defs)
qed (auto simp: testSigchld2_def turn_moves turn_defs split: if_splits)

text \<open>What \<open>func\<close> does when it does not overflow.\<close>

lemma func_result:
  "func x s = Inr s' \<Longrightarrow>
   s' = (set_proc x ((proc_of x s)\<lparr>num := num (proc_of x s) + 2, flag := 0, sig_pending := False\<rparr>) s)
          \<lparr>shown := shown s @ [num (proc_of x s)]\<rparr>"
  by (auto simp: func_def c_add_def Let_def split: if_splits)

lemma signal_parent_ok:
  assumes "turn_ok s" and "sig_pending (parent s)" and "deliver Parent s = Inr s'"
  shows "turn_ok s'"
proof (cases "handled (parent s)")
  case True
  with assms(1,2) have n: "even (length (shown s))" "num (parent s) = int (length (shown s))"
    by (auto simp: turn_defs split: if_splits)
  from True assms(3) have "func Parent s = Inr s'" by (simp add: deliver_def proc_of_def Let_def)
  from func_result [OF this] n assms(1,2) True show ?thesis
    by (auto simp: turn_moves turn_defs counting_simps)
next
  case False
  then have "s' = s\<lparr>parent := (parent s)\<lparr>sig_pending := False, dead := True\<rparr>\<rparr>"
    using assms(3) by (simp add: deliver_def turn_moves Let_def)
  with assms(1,2) show ?thesis by (auto simp: turn_defs split: if_splits)
qed

lemma signal_child_ok:
  assumes "turn_ok s" and "sig_pending (child s)" and "deliver Child s = Inr s'"
  shows "turn_ok s'"
proof -
  from assms(1,2) have n: "odd (length (shown s))" "num (child s) = int (length (shown s))"
    "handled (child s)" by (auto simp: turn_defs split: if_splits)
  with assms(3) have "func Child s = Inr s'" by (simp add: deliver_def proc_of_def Let_def)
  from func_result [OF this] n assms(1,2) show ?thesis
    by (auto simp: turn_moves turn_defs counting_simps)
qed

lemma turn_exec_ok:
  assumes ok: "turn_ok s" and step: "turn_exec e s = Some r"
  shows "case r of Inl err \<Rightarrow> err = SignedOverflow | Inr s' \<Rightarrow> turn_ok s'"
proof (cases e)
  case (Step x)
  with ok step show ?thesis
    by (cases x) (auto simp: step_parent_ok step_child_ok split: if_splits)
next
  case (Signal x)
  with step have p: "sig_pending (proc_of x s)" "r = deliver x s" by (auto split: if_splits)
  show ?thesis
  proof (cases r)
    case (Inl err)
    with p show ?thesis
      by (auto simp: deliver_def func_def c_add_def Let_def split: if_splits)
  next
    case (Inr s')
    with p have "deliver x s = Inr s'" by simp
    with ok p(1) Inr show ?thesis
      by (cases x) (auto simp: proc_of_def intro: signal_parent_ok signal_child_ok)
  qed
qed

interpretation turn_runs: fallible_runs turn_exec turn_run
  by unfold_locales simp_all

lemma turn_run_ok:
  "turn_ok s \<Longrightarrow> turn_run es s = Some r \<Longrightarrow>
   (case r of Inl err \<Rightarrow> err = SignedOverflow | Inr s' \<Rightarrow> turn_ok s')"
  by (rule turn_runs.run_keeps_all [OF turn_exec_ok])

text \<open>Nobody's turn: both processes wait for a signal that nobody will send.\<close>

definition stuck :: "turns \<Rightarrow> bool" where
  "stuck s \<longleftrightarrow>
     tpos (parent s) = TTest \<and> flag (parent s) = 1 \<and> \<not> sig_pending (parent s) \<and>
     tpos (child s) = TTest \<and> flag (child s) = 1 \<and> \<not> sig_pending (child s)"

lemma stuck_forever: "stuck s \<Longrightarrow> turn_run es s = Some r \<Longrightarrow> r = Inr s"
proof (rule turn_runs.run_stuck)
  fix e assume "stuck s"
  then show "turn_exec e s = None \<or> turn_exec e s = Some (Inr s)"
    by (cases e; rename_tac x; case_tac x)
      (auto simp: stuck_def testSigchld2_def turn_moves Let_def)
qed

section \<open>Properties\<close>

text \<open>C25: SIGCHLD is not counted, yet no ended child is forgotten: blocking it before the first
  \<open>fork\<close> and collecting in a loop keep, in every interleaving, an ended child's signal pending or the
  handler at work; what the handler has reported, together with the ended children it can still
  collect, is each child that has ended, once, with its own status.\<close>

theorem children_not_forgotten:
  assumes "chld_run es chld_start = Some s"
  shows "(ended (kids s) \<noteq> [] \<longrightarrow> chld_pending s \<or> waiting s) \<and>
    mset (collected s) + mset (ended (kids s)) = mset (deaths es) \<and>
    length (collected s) + length (kids s) = started s"
proof -
  have "pids_ok chld_start" "reports chld_start = {#}"
    by (simp_all add: pids_ok_def reports_def chld_start_def)
  from chld_run_reports [OF this(1) assms] this(2) chld_run_ok [OF chld_start_ok assms] show ?thesis
    by (simp add: chld_ok_def reports_def)
qed

theorem children_not_forgotten_witness:
  "\<exists>s. chld_run [SParent 0, SParent 7, SEnd 7 (ExitedWith 0)] chld_start = Some s \<and>
     ended (kids s) = [(7, ExitedWith 0)] \<and> (chld_pending s \<or> waiting s) \<and> collected s = []"
proof -
  have "\<exists>s. chld_run [SParent 0, SParent 7, SEnd 7 (ExitedWith 0)] chld_start = Some s \<and>
     kids s = [(7, ExitedWith 0)]"
    by (simp add: chld_start_def testSigchld_def)
  then obtain s where s: "chld_run [SParent 0, SParent 7, SEnd 7 (ExitedWith 0)] chld_start = Some s"
    "kids s = [(7, ExitedWith 0)]" by blast
  with children_not_forgotten [OF s(1)] show ?thesis by auto
qed

text \<open>C26: once the parent waits for signals, delivering the pending one and letting the handler run
  collects every child that has ended, in one go, and leaves exactly the living ones.\<close>

theorem children_all_collected:
  assumes "chld_run es chld_start = Some s" and "spos s = SIdle"
  shows "\<exists>es' s'. chld_run es' s = Some s' \<and> set es' \<subseteq> {SDeliver, SWait} \<and>
    kids s' = alive (kids s) \<and> collected s' = collected s @ ended (kids s)"
proof -
  from chld_run_ok [OF chld_start_ok assms(1)] have ok: "chld_ok s" .
  let ?all = "replicate (Suc (length (ended (kids s)))) SWait"
  consider "waiting s" | "\<not> waiting s" "chld_pending s" | "ended (kids s) = []"
    using ok by (auto simp: chld_ok_def)
  then show ?thesis
  proof cases
    case 1
    from waitchild_all [OF this] show ?thesis by (intro exI [of _ ?all]) auto
  next
    case 2
    with ok assms(2) have "chld_exec SDeliver s = Some (s\<lparr>chld_pending := False, waiting := True\<rparr>)"
      by (simp add: chld_ok_def)
    with waitchild_all [of "s\<lparr>chld_pending := False, waiting := True\<rparr>"] show ?thesis
      by (intro exI [of _ "SDeliver # ?all"]) auto
  next
    case 3
    then show ?thesis by (intro exI [of _ "[]"]) (simp add: alive_none_ended)
  qed
qed

theorem children_all_collected_witness:
  "\<exists>es' s'. chld_run es' (chld_start\<lparr>kids := [(8, Alive), (9, Alive)], chld_pending := False,
       collected := [(7, ExitedWith 0)], installed := True, started := 3, spos := SIdle, waiting := True\<rparr>)
     = Some s' \<and> kids s' = [(8, Alive), (9, Alive)]"
proof -
  have "chld_run [SParent 0, SParent 7, SParent 8, SParent 9, SEnd 7 (ExitedWith 0), SParent 0, SParent 0,
      SParent 0, SDeliver, SWait] chld_start =
    Some (chld_start\<lparr>kids := [(8, Alive), (9, Alive)], chld_pending := False,
       collected := [(7, ExitedWith 0)], installed := True, started := 3, spos := SIdle, waiting := True\<rparr>)"
    by (simp add: chld_start_def testSigchld_def waitchild_def waitpid_def)
  from children_all_collected [OF this] show ?thesis by auto
qed

text \<open>C27: whatever the timing, the two processes print 0, 1, 2, \<dots> in turn, no number twice, none
  skipped, until \<open>num\<close> overflows.\<close>

theorem turns_in_order:
  assumes "turn_run es turn_start = Some r"
  shows "case r of Inl err \<Rightarrow> err = SignedOverflow
    | Inr s \<Rightarrow> shown s = map int [0..<length (shown s)]"
  using turn_run_ok [OF turn_start_ok assms]
  by (auto simp: turn_ok_def counting_def Let_def split: sum.splits)

text \<open>The schedule that loses a turn, and one that ends the parent.\<close>

definition lost_turn :: "turn_event list" where
  "lost_turn = [Step Parent, Step Parent, Step Parent,
     Step Child, Step Child, Step Child, Step Child, Step Child,
     Signal Parent, Step Parent, Step Parent, Signal Child, Step Child, Step Parent]"

definition early_signal :: "turn_event list" where
  "early_signal = [Step Child, Step Child, Step Child, Step Child, Step Child, Signal Parent]"

definition stuck_state :: turns where
  "stuck_state =
     (let p = \<lparr>num = 2, flag = 1, handled = True, sig_pending = False, tpos = TTest, dead = False\<rparr>
      in \<lparr>parent = p, child = p\<lparr>num := 3\<rparr>, shown = [0, 1]\<rparr>)"

lemma lost_turn_run: "turn_run lost_turn turn_start = Some (Inr stuck_state)"
  by code_simp

lemma early_signal_run:
  "turn_run early_signal turn_start = Some (Inr (turn_start\<lparr>
     parent := (parent turn_start)\<lparr>dead := True\<rparr>,
     child := \<lparr>num = 1, flag = 0, handled = True, sig_pending = False, tpos = TSet, dead = False\<rparr>\<rparr>))"
  by code_simp

theorem turns_in_order_witness:
  "shown stuck_state = map int [0..<length (shown stuck_state)]"
  using turns_in_order [OF lost_turn_run] by simp

text \<open>a turn can be lost for ever: when the answer arrives between \<open>kill\<close> and \<open>flag = 1\<close>, the
  handler's \<open>flag = 0\<close> is overwritten, and both processes wait; and a signal that arrives before the
  parent has installed its handler ends the parent.\<close>

theorem turn_can_be_lost:
  "(\<exists>s. turn_run lost_turn turn_start = Some (Inr s) \<and> shown s = [0, 1] \<and>
      (\<forall>es. turn_run es s = None \<or> turn_run es s = Some (Inr s))) \<and>
   (\<exists>s. turn_run early_signal turn_start = Some (Inr s) \<and> dead (parent s) \<and> shown s = [])"
proof
  have "stuck stuck_state" by (simp add: stuck_def stuck_state_def Let_def)
  then have "turn_run es stuck_state = None \<or> turn_run es stuck_state = Some (Inr stuck_state)" for es
    using stuck_forever [of stuck_state es] by (cases "turn_run es stuck_state") auto
  with lost_turn_run show "\<exists>s. turn_run lost_turn turn_start = Some (Inr s) \<and> shown s = [0, 1] \<and>
      (\<forall>es. turn_run es s = None \<or> turn_run es s = Some (Inr s))"
    by (intro exI [of _ stuck_state]) (simp add: stuck_state_def Let_def)
  show "\<exists>s. turn_run early_signal turn_start = Some (Inr s) \<and> dead (parent s) \<and> shown s = []"
    using early_signal_run by (simp add: turn_start_def Let_def)
qed

end
