(* ===== verification/Timers.thy ===== *)
theory Timers
  imports C_Base
begin

text \<open>
  The rest of \<open>pipe/signal.c\<close>: alarms and interval timers (\<open>testSignal2\<close>, \<open>testSignal3\<close>,
  \<open>testAlarm\<close>, \<open>testSetitTimer\<close>, \<open>testDaemon\<close>), a write to a pipe without a reader (\<open>testSignal\<close>),
  and a handler that blocks another signal (\<open>testSigaction\<close>). Time passes in whole seconds, and only
  while a program sleeps or counts.
\<close>

section \<open>The clock of a process\<close>

text \<open>
  \<open>due\<close> is when the next SIGALRM comes, \<open>period\<close> how long after it the next one (0: none). \<open>caught\<close>
  lists when the handler ran and the number it printed. Without a handler the signal ends the process.
\<close>

record clock =
  now :: nat
  due :: "nat option"
  period :: nat
  catches :: bool
  caught :: "(nat \<times> int) list"
  killed :: bool

definition SIGALRM :: int where "SIGALRM = 14"
definition SIGPIPE :: int where "SIGPIPE = 13"

definition sighandler :: "int \<Rightarrow> clock \<Rightarrow> clock res" where
  "sighandler signo s = Inr (s\<lparr>caught := caught s @ [(now s, signo)]\<rparr>)"

text \<open>\<open>alarm\<close> returns the seconds that were left; 0 switches the alarm off.\<close>

definition alarm :: "nat \<Rightarrow> clock \<Rightarrow> nat \<times> clock" where
  "alarm k s =
     (case due s of None \<Rightarrow> 0 | Some t \<Rightarrow> t - now s,
      s\<lparr>due := (if k = 0 then None else Some (now s + k)), period := 0\<rparr>)"

definition setitimer :: "nat \<Rightarrow> nat \<Rightarrow> clock \<Rightarrow> clock" where
  "setitimer first every s = s\<lparr>due := (if first = 0 then None else Some (now s + first)), period := every\<rparr>"

text \<open>One second; \<open>h\<close> is the handler.\<close>

definition tick :: "(clock \<Rightarrow> clock res) \<Rightarrow> clock \<Rightarrow> clock res" where
  "tick h s =
     (let s1 = s\<lparr>now := Suc (now s)\<rparr>
      in if due s1 = Some (now s1)
         then if catches s1
              then h (s1\<lparr>due := (if period s1 = 0 then None else Some (now s1 + period s1))\<rparr>)
              else Inr (s1\<lparr>due := None, killed := True\<rparr>)
         else Inr s1)"

text \<open>\<open>sleep\<close> ends early when a handler has run.\<close>

fun sleep :: "(clock \<Rightarrow> clock res) \<Rightarrow> nat \<Rightarrow> clock \<Rightarrow> clock res" where
  "sleep h 0 s = Inr s"
| "sleep h (Suc n) s =
     (if killed s then Inr s
      else bindR (tick h s) (\<lambda>s'. if due s = Some (now s') then Inr s' else sleep h n s'))"

text \<open>\<open>while (1) sleep(k)\<close>, the first \<open>turns\<close> turns.\<close>

fun sleeps :: "(clock \<Rightarrow> clock res) \<Rightarrow> nat \<Rightarrow> nat \<Rightarrow> clock \<Rightarrow> clock res" where
  "sleeps h 0 k s = Inr s"
| "sleeps h (Suc turns) k s = bindR (sleep h k s) (sleeps h turns k)"

section \<open>Alarms and timers\<close>

text \<open>The process returns with the alarm still to come.\<close>

definition testSignal2 :: "clock \<Rightarrow> clock" where
  "testSignal2 s = snd (alarm 5 s)"

text \<open>The two numbers printed, and the clock.\<close>

definition testSignal3 :: "clock \<Rightarrow> (nat list \<times> clock) res" where
  "testSignal3 s =
     (case alarm 5 (s\<lparr>catches := True\<rparr>) of (n1, s1) \<Rightarrow>
        bindR (sleep (sighandler SIGALRM) 2 s1) (\<lambda>s2.
          case alarm 5 s2 of (n2, s3) \<Rightarrow>
            bindR (sleep (sighandler SIGALRM) 10 s3) (\<lambda>s4. Inr ([n1, n2], s4))))"

text \<open>\<open>testAlarm\<close> counts as fast as it can until the alarm ends it: \<open>turns\<close> turns.\<close>

fun count_up :: "nat \<Rightarrow> int \<Rightarrow> int res" where
  "count_up 0 i = Inr i"
| "count_up (Suc turns) i = bindR (c_add i 1) (count_up turns)"

definition testAlarm :: "nat \<Rightarrow> clock \<Rightarrow> (int \<times> clock) res" where
  "testAlarm turns s =
     bindR (count_up turns 0) (\<lambda>i.
     bindR (tick (sighandler SIGALRM) (snd (alarm 1 s))) (\<lambda>s'. Inr (i, s')))"

definition testSetitTimer :: "nat \<Rightarrow> clock \<Rightarrow> clock res" where
  "testSetitTimer turns s =
     sleeps (sighandler SIGALRM) turns 1 (setitimer 3 1 (s\<lparr>catches := True\<rparr>))"

section \<open>The daemon\<close>

text \<open>
  \<open>myfunc\<close> formats a time that was never set; \<open>opens t\<close>: the log file can be opened at second \<open>t\<close>.
\<close>

definition myfunc :: "(nat \<Rightarrow> bool) \<Rightarrow> clock \<Rightarrow> clock res" where
  "myfunc opens s = (if opens (now s) then Inl Uninitialised else Inr s)"

text \<open>\<open>pid\<close> is what \<open>fork\<close> returned; only the child goes on.\<close>

definition testDaemon :: "int \<Rightarrow> (nat \<Rightarrow> bool) \<Rightarrow> nat \<Rightarrow> clock \<Rightarrow> clock res" where
  "testDaemon pid opens turns s =
     (if pid < 0 \<or> pid > 0 then Inl (Exited 1)
      else sleeps (myfunc opens) turns 2 (setitimer 2 3 (s\<lparr>catches := True\<rparr>)))"

section \<open>A pipe without a reader\<close>

text \<open>What a write of \<open>msg\<close> does: the text, or the signal when nobody can read it.\<close>

datatype pipe_out = InPipe string | SigCaught int | SigKilled int

definition pipe_write :: "nat \<Rightarrow> bool \<Rightarrow> string \<Rightarrow> pipe_out" where
  "pipe_write readers handled msg =
     (if readers > 0 then InPipe msg else if handled then SigCaught SIGPIPE else SigKilled SIGPIPE)"

text \<open>\<open>ret\<close> is what \<open>pipe\<close> returned; the handler is installed and the only read end closed.\<close>

definition testSignal :: "int \<Rightarrow> pipe_out option" where
  "testSignal ret = (if ret < 0 then None else Some (pipe_write (1 - 1) True ''hello world''))"

section \<open>Blocking a signal in a handler\<close>

text \<open>The handler of SIGINT blocks SIGQUIT too; that of SIGQUIT blocks only itself.\<close>

datatype sg = SigInt | SigQuit

fun sa_mask :: "sg \<Rightarrow> sg set" where
  "sa_mask SigInt = {SigInt, SigQuit}"
| "sa_mask SigQuit = {SigQuit}"

text \<open>The two signals can be enumerated, so that a statement about every signal can be evaluated.\<close>

instantiation sg :: enum
begin

definition enum_sg :: "sg list" where
  "enum_sg = [SigInt, SigQuit]"

definition enum_all_sg :: "(sg \<Rightarrow> bool) \<Rightarrow> bool" where
  "enum_all_sg P \<longleftrightarrow> P SigInt \<and> P SigQuit"

definition enum_ex_sg :: "(sg \<Rightarrow> bool) \<Rightarrow> bool" where
  "enum_ex_sg P \<longleftrightarrow> P SigInt \<or> P SigQuit"

instance
proof
  show univ: "(UNIV :: sg set) = set enum_class.enum"
    by (auto simp: enum_sg_def intro: sg.exhaust)
  show "distinct (enum_class.enum :: sg list)" by (simp add: enum_sg_def)
  show "enum_class.enum_all P \<longleftrightarrow> Ball UNIV P" for P :: "sg \<Rightarrow> bool"
    by (simp add: univ enum_sg_def enum_all_sg_def)
  show "enum_class.enum_ex P \<longleftrightarrow> Bex UNIV P" for P :: "sg \<Rightarrow> bool"
    by (simp add: univ enum_sg_def enum_ex_sg_def)
qed

end

lemma UNIV_sg: "UNIV = {SigInt, SigQuit}"
  by (simp add: UNIV_enum enum_sg_def)

text \<open>The pending signals, and the running handlers, the last started first.\<close>

record sigs =
  sg_pending :: "sg set"
  active :: "sg list"

datatype sg_event = SgRaise sg | SgHandle sg | SgReturn

definition sg_blocked :: "sigs \<Rightarrow> sg set" where
  "sg_blocked s = \<Union> (sa_mask ` set (active s))"

fun sg_exec :: "sg_event \<Rightarrow> sigs \<Rightarrow> sigs option" where
  "sg_exec (SgRaise g) s = Some (s\<lparr>sg_pending := insert g (sg_pending s)\<rparr>)"
| "sg_exec (SgHandle g) s =
     (if g \<in> sg_pending s \<and> g \<notin> sg_blocked s
      then Some (s\<lparr>sg_pending := sg_pending s - {g}, active := g # active s\<rparr>) else None)"
| "sg_exec SgReturn s = (case active s of [] \<Rightarrow> None | g # gs \<Rightarrow> Some (s\<lparr>active := gs\<rparr>))"

fun sg_run :: "sg_event list \<Rightarrow> sigs \<Rightarrow> sigs option" where
  "sg_run [] s = Some s"
| "sg_run (e # es) s = (case sg_exec e s of None \<Rightarrow> None | Some s' \<Rightarrow> sg_run es s')"

definition testSigaction :: sigs where
  "testSigaction = \<lparr>sg_pending = {}, active = []\<rparr>"

end
