(* ===== verification/Timers_Props.thy ===== *)
theory Timers_Props
  imports Timers Event_Runs
begin

text \<open>
  When the alarms of \<open>pipe/signal.c\<close> ring, what its counting loop and its daemon run into, and how its
  two handlers nest.
\<close>

section \<open>Sleeping\<close>

text \<open>Nothing rings: the time passes.\<close>

lemma sleep_quiet:
  "\<not> killed s \<Longrightarrow> (\<And>t. due s = Some t \<Longrightarrow> now s + n < t) \<Longrightarrow> sleep h n s = Inr (s\<lparr>now := now s + n\<rparr>)"
proof (induction n arbitrary: s)
  case (Suc n)
  have quiet: "due s \<noteq> Some (Suc (now s))" using Suc.prems(2) by force
  have "sleep h n (s\<lparr>now := Suc (now s)\<rparr>) = Inr (s\<lparr>now := now s + Suc n\<rparr>)"
    using Suc.IH [of "s\<lparr>now := Suc (now s)\<rparr>"] Suc.prems by fastforce
  with quiet Suc.prems(1) show ?case by (simp add: tick_def Let_def)
qed simp

text \<open>The next alarm, \<open>k\<close> seconds ahead, rings and ends the sleep.\<close>

lemma sleep_rings:
  "\<not> killed s \<Longrightarrow> catches s \<Longrightarrow> due s = Some (now s + Suc k) \<Longrightarrow> k < n \<Longrightarrow>
   \<forall>t. h t = Inr (g t) \<and> now (g t) = now t \<Longrightarrow>
   sleep h n s = Inr (g (s\<lparr>now := now s + Suc k,
     due := (if period s = 0 then None else Some (now s + Suc k + period s))\<rparr>))"
proof (induction k arbitrary: s n)
  case 0
  then obtain m where "n = Suc m" by (cases n) auto
  with 0 show ?case by (simp add: tick_def Let_def)
next
  case (Suc k)
  then obtain m where m: "n = Suc m" by (cases n) auto
  have "sleep h m (s\<lparr>now := Suc (now s)\<rparr>) = Inr (g (s\<lparr>now := now s + Suc (Suc k),
     due := (if period s = 0 then None else Some (now s + Suc (Suc k) + period s))\<rparr>))"
    using Suc.IH [of "s\<lparr>now := Suc (now s)\<rparr>" m, OF _ _ _ _ Suc.prems(5)] Suc.prems(1-4) m by simp
  moreover have "due s \<noteq> Some (Suc (now s))" using Suc.prems(3) by simp
  ultimately show ?case using m Suc.prems(1) by (simp add: tick_def Let_def)
qed

lemma sighandler_result:
  "\<forall>t. sighandler signo t = Inr (t\<lparr>caught := caught t @ [(now t, signo)]\<rparr>) \<and>
    now (t\<lparr>caught := caught t @ [(now t, signo)]\<rparr>) = now t"
  by (simp add: sighandler_def)

section \<open>The counting loop\<close>

lemma count_up_result:
  "in_int i \<Longrightarrow>
   count_up n i = (if i + int n \<le> int_max then Inr (i + int n) else Inl SignedOverflow)"
proof (induction n arbitrary: i)
  case (Suc n)
  show ?case
  proof (cases "in_int (i + 1)")
    case True
    with Suc.IH [of "i + 1"] show ?thesis by (simp add: c_add_def algebra_simps)
  next
    case False
    with Suc.prems have "int_max < i + 1" by (auto simp: int_range_defs)
    with False show ?thesis by (simp add: c_add_def)
  qed
qed (simp add: in_int_def)

section \<open>Nested handlers\<close>

interpretation sg_runs: plain_runs sg_exec sg_run
  by unfold_locales simp_all

definition nests :: "sigs \<Rightarrow> bool" where
  "nests s \<longleftrightarrow> active s \<in> {[], [SigInt], [SigQuit], [SigInt, SigQuit]}"

lemma sg_exec_nests:
  assumes "nests s" and "sg_exec e s = Some s'"
  shows "nests s'"
proof (cases e)
  case (SgHandle g)
  with assms show ?thesis
    by (cases g) (auto simp: nests_def sg_blocked_def split: if_splits)
qed (use assms in \<open>auto simp: nests_def split: list.splits\<close>)

section \<open>Properties\<close>

text \<open>the second \<open>alarm\<close> of \<open>testSignal3\<close> returns the 3 seconds left of the first and replaces it:
  the handler runs once, 7 seconds after the start, and cuts the last sleep short.\<close>

theorem second_alarm_replaces_first:
  assumes "due s = None" and "\<not> killed s"
  shows "\<exists>s'. testSignal3 s = Inr ([0, 3], s') \<and> now s' = now s + 7 \<and> due s' = None \<and>
    caught s' = caught s @ [(now s + 7, SIGALRM)]"
proof -
  define s1 where "s1 = s\<lparr>catches := True, due := Some (now s + 5), period := 0\<rparr>"
  define s3 where "s3 = s1\<lparr>now := now s + 2, due := Some (now s + 7)\<rparr>"
  have 1: "sleep (sighandler SIGALRM) 2 s1 = Inr (s1\<lparr>now := now s + 2\<rparr>)"
    using assms by (subst sleep_quiet) (auto simp: s1_def)
  have "sleep (sighandler SIGALRM) 10 s3 = Inr (s3\<lparr>now := now s + 7, due := None,
      caught := caught s @ [(now s + 7, SIGALRM)]\<rparr>)"
    using sleep_rings [OF _ _ _ _ sighandler_result, of s3 4 10 SIGALRM] assms
    by (simp add: s3_def s1_def)
  moreover have "alarm 5 (s\<lparr>catches := True\<rparr>) = (0, s1)"
    using assms(1) by (cases s) (simp add: alarm_def s1_def)
  moreover have "alarm 5 (s1\<lparr>now := now s + 2\<rparr>) = (3, s3)"
    by (cases s) (simp add: alarm_def s1_def s3_def)
  ultimately show ?thesis using 1 by (simp add: testSignal3_def s3_def s1_def)
qed

theorem second_alarm_replaces_first_witness:
  "\<exists>s'. testSignal3 \<lparr>now = 100, due = None, period = 0, catches = False, caught = [], killed = False\<rparr> =
     Inr ([0, 3], s') \<and> caught s' = [(107, SIGALRM)]"
  using second_alarm_replaces_first
    [of "\<lparr>now = 100, due = None, period = 0, catches = False, caught = [], killed = False\<rparr>"] by auto

text \<open>the interval timer rings after 3 seconds and then every second, as long as the program runs.\<close>

theorem timer_rings_every_second:
  assumes "\<not> killed s"
  shows "\<exists>s'. testSetitTimer (n + 2) s = Inr s' \<and> now s' = now s + n + 2 \<and>
    caught s' = caught s @ map (\<lambda>i. (now s + 3 + i, SIGALRM)) [0..<n]"
proof -
  let ?h = "sighandler SIGALRM"
  have turns: "\<exists>s'. sleeps ?h n 1 t = Inr s' \<and> now s' = now t + n \<and>
      caught s' = caught t @ map (\<lambda>i. (now t + 1 + i, SIGALRM)) [0..<n]"
    if "\<not> killed t" "catches t" "period t = 1" "due t = Some (now t + 1)" for t n
    using that
  proof (induction n arbitrary: t)
    case (Suc n)
    let ?t = "t\<lparr>now := now t + 1, due := Some (now t + 2), caught := caught t @ [(now t + 1, SIGALRM)]\<rparr>"
    have "sleep ?h 1 t = Inr ?t"
      using sleep_rings [OF _ _ _ _ sighandler_result, of t 0 1 SIGALRM] Suc.prems by simp
    moreover from Suc.IH [of ?t] Suc.prems obtain s' where "sleeps ?h n 1 ?t = Inr s'"
      "now s' = now t + Suc n"
      "caught s' = caught t @ (now t + 1, SIGALRM) # map (\<lambda>i. (now t + 2 + i, SIGALRM)) [0..<n]"
      by auto
    moreover have "[0..<Suc n] = 0 # map Suc [0..<n]" by (simp add: map_Suc_upt upt_conv_Cons)
    ultimately show ?case by (simp add: comp_def)
  qed simp
  define t where "t = setitimer 3 1 (s\<lparr>catches := True\<rparr>)"
  have "sleep ?h 1 t = Inr (t\<lparr>now := now s + 1\<rparr>)"
    using sleep_quiet [of t 1 ?h] assms by (simp add: t_def setitimer_def)
  moreover have "sleep ?h 1 (t\<lparr>now := now s + 1\<rparr>) = Inr (t\<lparr>now := now s + 2\<rparr>)"
    using sleep_quiet [of "t\<lparr>now := now s + 1\<rparr>" 1 ?h] assms by (simp add: t_def setitimer_def)
  moreover from turns [of "t\<lparr>now := now s + 2\<rparr>" n] assms obtain s' where
    "sleeps ?h n 1 (t\<lparr>now := now s + 2\<rparr>) = Inr s'" "now s' = now s + n + 2"
    "caught s' = caught s @ map (\<lambda>i. (now s + 3 + i, SIGALRM)) [0..<n]"
    by (auto simp: t_def setitimer_def)
  moreover have "sleeps ?h (Suc m) 1 u = sleeps ?h m 1 v" if "sleep ?h 1 u = Inr v" for m u v
    by (simp only: sleeps.simps that bindR_simps)
  ultimately show ?thesis
    by (simp only: testSetitTimer_def t_def [symmetric] add_2_eq_Suc') blast
qed

theorem timer_rings_every_second_witness:
  "\<exists>s'. testSetitTimer 4 \<lparr>now = 0, due = None, period = 0, catches = False, caught = [], killed = False\<rparr> =
     Inr s' \<and> caught s' = [(3, SIGALRM), (4, SIGALRM)]"
  using timer_rings_every_second
    [of "\<lparr>now = 0, due = None, period = 0, catches = False, caught = [], killed = False\<rparr>" 2]
  by (auto simp: upt_rec)

text \<open>\<open>testAlarm\<close> is ended by its own alarm after a second, with the number of turns as the last
  value of \<open>i\<close>; more turns in that second than an \<open>int\<close> can count overflow it.\<close>

theorem alarm_ends_counting:
  assumes "\<not> catches s"
  shows "testAlarm turns s =
    (if int turns \<le> int_max
     then Inr (int turns, s\<lparr>now := now s + 1, due := None, period := 0, killed := True\<rparr>)
     else Inl SignedOverflow)"
proof -
  have "in_int 0" by (simp add: int_range_defs)
  from count_up_result [OF this, of turns] assms show ?thesis
    by (simp add: testAlarm_def alarm_def tick_def Let_def)
qed

theorem alarm_ends_counting_witness:
  "testAlarm 3 \<lparr>now = 0, due = None, period = 0, catches = False, caught = [], killed = False\<rparr> =
     Inr (3, \<lparr>now = 1, due = None, period = 0, catches = False, caught = [], killed = True\<rparr>)"
  using alarm_ends_counting
    [of "\<lparr>now = 0, due = None, period = 0, catches = False, caught = [], killed = False\<rparr>" 3]
  by (simp add: int_max_def)

text \<open>the daemon's first entry into its log, two seconds after the start, formats a time that was
  never set.\<close>

theorem daemon_reads_unset_time:
  assumes "\<not> killed s" and "opens (now s + 2)"
  shows "testDaemon 0 opens (Suc turns) s = Inl Uninitialised"
proof -
  define t where "t = setitimer 2 3 (s\<lparr>catches := True\<rparr>)"
  have "sleep (myfunc opens) 2 t = Inl Uninitialised"
    using assms by (simp add: t_def setitimer_def numeral_2_eq_2 tick_def Let_def myfunc_def)
  then show ?thesis by (simp add: testDaemon_def t_def)
qed

theorem daemon_reads_unset_time_witness:
  "testDaemon 0 (\<lambda>_. True) 1
     \<lparr>now = 0, due = None, period = 0, catches = False, caught = [], killed = False\<rparr> = Inl Uninitialised"
  using daemon_reads_unset_time
    [of "\<lparr>now = 0, due = None, period = 0, catches = False, caught = [], killed = False\<rparr>" "\<lambda>_. True" 0]
  by simp

text \<open>the handler of SIGINT is never interrupted, by SIGQUIT or by itself, while that of SIGQUIT
  may be interrupted by SIGINT, once; and a signal that is blocked stays pending.\<close>

theorem handlers_nest:
  assumes "sg_run es testSigaction = Some s"
  shows "active s \<in> {[], [SigInt], [SigQuit], [SigInt, SigQuit]} \<and>
    (SigInt \<in> set (active s) \<longrightarrow> (\<forall>g. sg_exec (SgHandle g) s = None))"
proof -
  have "nests testSigaction" by (simp add: nests_def testSigaction_def)
  from sg_runs.run_invariant [of nests, OF _ this assms] sg_exec_nests have "nests s" by blast
  moreover have "g \<in> {SigInt, SigQuit}" for g using UNIV_sg by blast
  ultimately show ?thesis by (auto simp: nests_def sg_blocked_def)
qed

theorem handlers_nest_witness:
  "\<exists>s. sg_run [SgRaise SigQuit, SgHandle SigQuit, SgRaise SigInt, SgHandle SigInt, SgRaise SigQuit] testSigaction =
     Some s \<and> SigInt \<in> set (active s) \<and> sg_exec (SgHandle SigQuit) s = None"
proof -
  have run: "sg_run [SgRaise SigQuit, SgHandle SigQuit, SgRaise SigInt, SgHandle SigInt, SgRaise SigQuit] testSigaction =
     Some \<lparr>sg_pending = {SigQuit}, active = [SigInt, SigQuit]\<rparr>"
    by (simp add: testSigaction_def sg_blocked_def)
  from handlers_nest [OF run]
  have "sg_exec (SgHandle SigQuit) \<lparr>sg_pending = {SigQuit}, active = [SigInt, SigQuit]\<rparr> = None"
    by (simp del: sg_exec.simps)
  with run show ?thesis by simp
qed

end
