(* ===== verification/Ipc.thy ===== *)
theory Ipc
  imports C_Base Pub
begin

text \<open>
  \<open>pipe/pipe.c\<close>, \<open>pipe/fifo.c\<close> and \<open>pipe/mmap.c\<close>: a parent and a child over a pipe, two programs over
  a named pipe, and a file mapped into memory. A pipe is its contents and who holds an end of it; the
  processes' steps interleave freely, \<open>sleep\<close> orders nothing.
\<close>

section \<open>\<open>testPipe\<close>\<close>

datatype who = Par | Chi

text \<open>There are just the two, so that the holders of an end can be enumerated.\<close>

instantiation who :: enum
begin

definition enum_who :: "who list" where
  "enum_who = [Par, Chi]"

definition enum_all_who :: "(who \<Rightarrow> bool) \<Rightarrow> bool" where
  "enum_all_who P \<longleftrightarrow> P Par \<and> P Chi"

definition enum_ex_who :: "(who \<Rightarrow> bool) \<Rightarrow> bool" where
  "enum_ex_who P \<longleftrightarrow> P Par \<or> P Chi"

instance
proof
  show univ: "(UNIV :: who set) = set enum_class.enum"
    by (auto simp: enum_who_def intro: who.exhaust)
  show "distinct (enum_class.enum :: who list)" by (simp add: enum_who_def)
  show "enum_class.enum_all P \<longleftrightarrow> Ball UNIV P" for P :: "who \<Rightarrow> bool"
    by (simp add: univ enum_who_def enum_all_who_def)
  show "enum_class.enum_ex P \<longleftrightarrow> Bex UNIV P" for P :: "who \<Rightarrow> bool"
    by (simp add: univ enum_who_def enum_ex_who_def)
qed

end

lemma UNIV_who: "UNIV = {Par, Chi}"
  by (simp add: UNIV_enum enum_who_def)

datatype par_pos = ParClose | ParWrite | ParWait | ParDone | ParKilled

datatype chi_pos = ChiClose | ChiRead | ChiPrint int string | ChiDone

record pipes =
  pbuf :: string
  readers :: "who set"
  writers :: "who set"
  par :: par_pos
  chi :: chi_pos
  read_over :: "(int \<times> string) option"

text \<open>A write without a reader ends the process (SIGPIPE). The length written is that of \<open>hello wold\<close>.\<close>

definition testPipe_parent :: "pipes \<Rightarrow> pipes option" where
  "testPipe_parent s =
     (case par s of
        ParClose \<Rightarrow> Some (s\<lparr>readers := readers s - {Par}, par := ParWrite\<rparr>)
      | ParWrite \<Rightarrow>
          Some (if readers s = {} then s\<lparr>writers := writers s - {Par}, par := ParKilled\<rparr>
                else s\<lparr>pbuf := pbuf s @ take (length ''hello wold'') ''hello world'', par := ParWait\<rparr>)
      | ParWait \<Rightarrow> if chi s = ChiDone then Some (s\<lparr>writers := writers s - {Par}, par := ParDone\<rparr>) else None
      | _ \<Rightarrow> None)"

text \<open>A read waits while the pipe is empty and somebody holds its write end.\<close>

definition testPipe_child :: "pipes \<Rightarrow> pipes option" where
  "testPipe_child s =
     (case chi s of
        ChiClose \<Rightarrow> Some (s\<lparr>writers := writers s - {Chi}, chi := ChiRead\<rparr>)
      | ChiRead \<Rightarrow>
          if pbuf s \<noteq> []
          then Some (s\<lparr>chi := ChiPrint (int (length (take 64 (pbuf s)))) (take 64 (pbuf s)),
                       pbuf := drop 64 (pbuf s)\<rparr>)
          else if writers s = {} then Some (s\<lparr>chi := ChiPrint 0 []\<rparr>)
          else None
      | ChiPrint n b \<Rightarrow>
          Some (s\<lparr>read_over := Some (n, b), readers := readers s - {Chi}, chi := ChiDone\<rparr>)
      | ChiDone \<Rightarrow> None)"

fun pipe_exec :: "who \<Rightarrow> pipes \<Rightarrow> pipes option" where
  "pipe_exec Par s = testPipe_parent s"
| "pipe_exec Chi s = testPipe_child s"

fun pipe_run :: "who list \<Rightarrow> pipes \<Rightarrow> pipes option" where
  "pipe_run [] s = Some s"
| "pipe_run (e # es) s = (case pipe_exec e s of None \<Rightarrow> None | Some s' \<Rightarrow> pipe_run es s')"

text \<open>After \<open>fork\<close> both processes hold both ends.\<close>

definition pipe_start :: pipes where
  "pipe_start = \<lparr>pbuf = [], readers = {Par, Chi}, writers = {Par, Chi}, par = ParClose, chi = ChiClose,
     read_over = None\<rparr>"

text \<open>\<open>ret\<close> and \<open>pid\<close> are what \<open>pipe\<close> and \<open>fork\<close> return; \<open>None\<close>: the function returns early.\<close>

definition testPipe :: "int \<Rightarrow> int \<Rightarrow> pipes option" where
  "testPipe ret pid = (if ret < 0 \<or> pid < 0 then None else Some pipe_start)"

section \<open>\<open>testPipe2\<close>\<close>

text \<open>
  The parent waits for the child before it runs \<open>ps aux\<close> into the pipe; the child runs a program with
  the pipe as its input. \<open>reads\<close>: that program reads its input to the end (\<open>grep\<close>, which the arguments
  name, would; \<open>ps\<close>, which \<open>execlp\<close> starts, does not). \<open>text\<close> is the first thing the parent's program
  writes.
\<close>

datatype par2_pos = WWait | WClose | WDup | WRun | WEnd | WKilled

datatype chi2_pos = XClose | XDup | XRun | XEnd

record pipes2 =
  pbuf2 :: string
  readers2 :: "who set"
  writers2 :: "who set"
  par2 :: par2_pos
  chi2 :: chi2_pos
  received :: string

definition testPipe2_parent :: "string \<Rightarrow> pipes2 \<Rightarrow> pipes2 option" where
  "testPipe2_parent text1 s =
     (case par2 s of
        WWait \<Rightarrow> if chi2 s = XEnd then Some (s\<lparr>par2 := WClose\<rparr>) else None
      | WClose \<Rightarrow> Some (s\<lparr>readers2 := readers2 s - {Par}, par2 := WDup\<rparr>)
      | WDup \<Rightarrow> Some (s\<lparr>par2 := WRun\<rparr>)
      | WRun \<Rightarrow> Some (if readers2 s = {} then s\<lparr>writers2 := writers2 s - {Par}, par2 := WKilled\<rparr>
                     else s\<lparr>pbuf2 := pbuf2 s @ text1, par2 := WEnd\<rparr>)
      | _ \<Rightarrow> None)"

definition testPipe2_child :: "bool \<Rightarrow> pipes2 \<Rightarrow> pipes2 option" where
  "testPipe2_child reads s =
     (case chi2 s of
        XClose \<Rightarrow> Some (s\<lparr>writers2 := writers2 s - {Chi}, chi2 := XDup\<rparr>)
      | XDup \<Rightarrow> Some (s\<lparr>chi2 := XRun\<rparr>)
      | XRun \<Rightarrow>
          if reads \<and> pbuf2 s \<noteq> []
          then Some (s\<lparr>received := received s @ pbuf2 s, pbuf2 := []\<rparr>)
          else if reads \<and> writers2 s \<noteq> {} then None
          else Some (s\<lparr>readers2 := readers2 s - {Chi}, chi2 := XEnd\<rparr>)
      | XEnd \<Rightarrow> None)"

fun pipe2_exec :: "bool \<Rightarrow> string \<Rightarrow> who \<Rightarrow> pipes2 \<Rightarrow> pipes2 option" where
  "pipe2_exec reads text1 Par s = testPipe2_parent text1 s"
| "pipe2_exec reads text1 Chi s = testPipe2_child reads s"

fun pipe2_run :: "bool \<Rightarrow> string \<Rightarrow> who list \<Rightarrow> pipes2 \<Rightarrow> pipes2 option" where
  "pipe2_run reads text1 [] s = Some s"
| "pipe2_run reads text1 (e # es) s =
     (case pipe2_exec reads text1 e s of None \<Rightarrow> None | Some s' \<Rightarrow> pipe2_run reads text1 es s')"

definition pipe2_start :: pipes2 where
  "pipe2_start = \<lparr>pbuf2 = [], readers2 = {Par, Chi}, writers2 = {Par, Chi}, par2 = WWait, chi2 = XClose,
     received = []\<rparr>"

definition testPipe2 :: "int \<Rightarrow> int \<Rightarrow> pipes2 option" where
  "testPipe2 ret pid = (if ret < 0 \<or> pid < 0 then None else Some pipe2_start)"

text \<open>
  \<open>testPipe3\<close>: a non-blocking read of a fresh pipe whose write end this process holds, of the length
  and text that are printed.
\<close>

definition nonblocking_read :: "string \<Rightarrow> int \<times> string" where
  "nonblocking_read contents =
     (let d = take 64 contents
      in if d = [] then (-1, []) else (int (length d), d))"

definition testPipe3 :: "int \<Rightarrow> (int \<times> string) option" where
  "testPipe3 ret = (if ret < 0 then None else Some (nonblocking_read []))"

section \<open>The named pipe\<close>

text \<open>
  Both programs open \<open>./myfifo\<close> for reading and writing, so that opening never waits. The contents
  vanish when nobody has it open any more. \<open>ret\<close>, \<open>rest\<close> and \<open>fd\<close> are what \<open>access\<close>, \<open>mkfifo\<close> and
  \<open>open\<close> return.
\<close>

datatype fw_pos = FWOpen | FWWrite | FWClose | FWDone

datatype fr_pos = FROpen | FRRead | FRClose string | FRDone string | FRFailed

record fifo =
  fbuf :: string
  openers :: nat
  fwriter :: fw_pos
  freader :: fr_pos

definition fifo_close :: "fifo \<Rightarrow> fifo" where
  "fifo_close s = s\<lparr>openers := openers s - 1, fbuf := (if openers s = 1 then [] else fbuf s)\<rparr>"

definition testFifoWrite :: "int \<Rightarrow> int \<Rightarrow> int \<Rightarrow> fifo \<Rightarrow> fifo option" where
  "testFifoWrite ret rest fd s =
     (case fwriter s of
        FWOpen \<Rightarrow>
          Some (if ret \<noteq> 0 \<and> rest < 0 \<or> fd < 0 then s\<lparr>fwriter := FWDone\<rparr>
                else s\<lparr>openers := Suc (openers s), fwriter := FWWrite\<rparr>)
      | FWWrite \<Rightarrow> Some (s\<lparr>fbuf := fbuf s @ ''hello world'', fwriter := FWClose\<rparr>)
      | FWClose \<Rightarrow> Some (fifo_close (s\<lparr>fwriter := FWDone\<rparr>))
      | FWDone \<Rightarrow> None)"

definition testFifoRead :: "int \<Rightarrow> fifo \<Rightarrow> fifo option" where
  "testFifoRead fd s =
     (case freader s of
        FROpen \<Rightarrow>
          Some (if fd < 0 then s\<lparr>freader := FRFailed\<rparr>
                else s\<lparr>openers := Suc (openers s), freader := FRRead\<rparr>)
      | FRRead \<Rightarrow>
          if fbuf s = [] then None
          else Some (s\<lparr>fbuf := drop 64 (fbuf s), freader := FRClose (take 64 (fbuf s))\<rparr>)
      | FRClose b \<Rightarrow> Some (fifo_close (s\<lparr>freader := FRDone b\<rparr>))
      | _ \<Rightarrow> None)"

datatype fifo_event = Writes int int int | Reads int

fun fifo_exec :: "fifo_event \<Rightarrow> fifo \<Rightarrow> fifo option" where
  "fifo_exec (Writes ret rest fd) s = testFifoWrite ret rest fd s"
| "fifo_exec (Reads fd) s = testFifoRead fd s"

fun fifo_events :: "fifo_event list \<Rightarrow> fifo \<Rightarrow> fifo option" where
  "fifo_events [] s = Some s"
| "fifo_events (e # es) s = (case fifo_exec e s of None \<Rightarrow> None | Some s' \<Rightarrow> fifo_events es s')"

definition fifo_start :: fifo where
  "fifo_start = \<lparr>fbuf = [], openers = 0, fwriter = FWOpen, freader = FROpen\<rparr>"

section \<open>Mapped files\<close>

text \<open>
  Mapping \<open>len\<close> bytes of a file gives whole pages: the file, then zeros. What is written behind the
  end of the file is not part of it. An empty file cannot be mapped.
\<close>

definition PAGE :: nat where "PAGE = 4096"

definition mmap :: "string \<Rightarrow> string option" where
  "mmap file =
     (if file = [] then None
      else Some (file @ replicate ((PAGE - length file mod PAGE) mod PAGE) NUL))"

definition synced :: "string \<Rightarrow> string \<Rightarrow> string" where
  "synced file mem = take (length file) mem"

definition memcpy_hello :: "string \<Rightarrow> string res" where
  "memcpy_hello mem = store mem 0 ''hello world''"

text \<open>
  The file and what is printed; \<open>fd\<close> and \<open>pid\<close> are what \<open>open\<close> and \<open>fork\<close> return. \<open>None\<close>: the
  function returns early.
\<close>

definition map_file :: "int \<Rightarrow> string \<Rightarrow> string option" where
  "map_file fd file = (if fd < 0 then None else mmap file)"

definition testMmap2 :: "int \<Rightarrow> string \<Rightarrow> string option res" where
  "testMmap2 fd file =
     (case map_file fd file of
        None \<Rightarrow> Inr None
      | Some mem \<Rightarrow> bindR (memcpy_hello mem) (\<lambda>mem. Inr (Some (synced file mem))))"

definition testMmap3 :: "int \<Rightarrow> string \<Rightarrow> string option res" where
  "testMmap3 fd file =
     (case map_file fd file of
        None \<Rightarrow> Inr None | Some mem \<Rightarrow> bindR (print_text mem) (\<lambda>t. Inr (Some t)))"

text \<open>\<open>first\<close>: the parent copies before the child prints, which the child's \<open>sleep\<close> is there for.\<close>

definition testMmap :: "int \<Rightarrow> int \<Rightarrow> bool \<Rightarrow> string \<Rightarrow> (string \<times> string) option res" where
  "testMmap fd pid first file =
     (case map_file fd file of
        None \<Rightarrow> Inr None
      | Some mem \<Rightarrow>
          if pid < 0 then Inr None
          else bindR (memcpy_hello mem) (\<lambda>mem'.
               bindR (print_text (if first then mem' else mem)) (\<lambda>t. Inr (Some (synced file mem', t)))))"

text \<open>The anonymous mapping; \<open>mapped\<close>: \<open>mmap\<close> succeeds.\<close>

definition testMmap4 :: "bool \<Rightarrow> int \<Rightarrow> bool \<Rightarrow> string option res" where
  "testMmap4 mapped pid first =
     (if \<not> mapped \<or> pid < 0 then Inr None
      else bindR (memcpy_hello (replicate 4096 NUL)) (\<lambda>mem'.
           bindR (print_text (if first then mem' else replicate 4096 NUL)) (\<lambda>t. Inr (Some t))))"

end
