(* ===== verification/Ipc_Props.thy ===== *)
theory Ipc_Props
  imports Ipc Event_Runs
begin

text \<open>
  What the pipe, the named pipe and the mapped file deliver, in every interleaving, and the three places
  where the programs do not do what they mean to: a letter that is not sent, a filter that never runs,
  a text without its end.
\<close>

section \<open>The pipe\<close>

text \<open>The ends each process holds follow from where it is, and so does what is in the pipe.\<close>

definition pipe_ok :: "pipes \<Rightarrow> bool" where
  "pipe_ok s \<longleftrightarrow>
     (Par \<in> readers s \<longleftrightarrow> par s = ParClose) \<and> (Chi \<in> readers s \<longleftrightarrow> chi s \<noteq> ChiDone) \<and>
     (Par \<in> writers s \<longleftrightarrow> par s \<noteq> ParDone) \<and> (Chi \<in> writers s \<longleftrightarrow> chi s = ChiClose) \<and>
     par s \<noteq> ParKilled \<and>
     (if par s = ParClose \<or> par s = ParWrite
      then pbuf s = [] \<and> (chi s = ChiClose \<or> chi s = ChiRead)
      else if chi s = ChiClose \<or> chi s = ChiRead then par s = ParWait \<and> pbuf s = ''hello worl''
      else pbuf s = []) \<and>
     (\<forall>n b. chi s = ChiPrint n b \<longrightarrow> n = 10 \<and> b = ''hello worl'') \<and>
     (par s = ParDone \<longrightarrow> chi s = ChiDone) \<and>
     read_over s = (if chi s = ChiDone then Some (10, ''hello worl'') else None)"

lemma ten: "take (length ''hello wold'') ''hello world'' = ''hello worl''" by simp

lemma pipe_exec_ok:
  assumes ok: "pipe_ok s" and step: "pipe_exec e s = Some s'"
  shows "pipe_ok s'"
proof (cases e)
  case Par
  show ?thesis
  proof (cases "par s")
    case ParWrite
    with ok have "readers s \<noteq> {}" "pbuf s = []" by (auto simp: pipe_ok_def)
    with ParWrite Par step have "s' = s\<lparr>pbuf := ''hello worl'', par := ParWait\<rparr>"
      by (simp add: testPipe_parent_def ten)
    with ok ParWrite show ?thesis by (auto simp: pipe_ok_def)
  next
    case ParClose
    with Par step have "s' = s\<lparr>readers := readers s - {Par}, par := ParWrite\<rparr>"
      by (simp add: testPipe_parent_def)
    with ok ParClose show ?thesis by (simp add: pipe_ok_def)
  next
    case ParWait
    with Par step have "chi s = ChiDone" "s' = s\<lparr>writers := writers s - {Par}, par := ParDone\<rparr>"
      by (auto simp: testPipe_parent_def split: if_splits)
    with ok ParWait show ?thesis by (simp add: pipe_ok_def)
  qed (use step Par in \<open>simp_all add: testPipe_parent_def\<close>)
next
  case Chi
  show ?thesis
  proof (cases "chi s")
    case ChiRead
    show ?thesis
    proof (cases "pbuf s = []")
      case True
      with ok ChiRead have "Par \<in> writers s" by (auto simp: pipe_ok_def split: if_splits)
      with True ChiRead Chi step show ?thesis by (auto simp: testPipe_child_def split: if_splits)
    next
      case False
      with ok ChiRead have b: "pbuf s = ''hello worl''" by (auto simp: pipe_ok_def split: if_splits)
      with ChiRead Chi step have "s' = s\<lparr>chi := ChiPrint 10 ''hello worl'', pbuf := []\<rparr>"
        by (simp add: testPipe_child_def)
      with ok ChiRead b show ?thesis by (auto simp: pipe_ok_def split: if_splits)
    qed
  qed (use ok step Chi in \<open>auto simp: pipe_ok_def testPipe_child_def split: if_splits\<close>)
qed

interpretation pipe_runs: plain_runs pipe_exec pipe_run
  by unfold_locales simp_all

lemma pipe_run_ok: "pipe_ok s \<Longrightarrow> pipe_run es s = Some s' \<Longrightarrow> pipe_ok s'"
  by (rule pipe_runs.run_invariant [OF pipe_exec_ok])

lemma testPipe_ok: "testPipe ret pid = Some s \<Longrightarrow> pipe_ok s"
  by (auto simp: pipe_ok_def testPipe_def pipe_start_def split: if_splits)

text \<open>Every step brings its process forward.\<close>

fun par_left :: "par_pos \<Rightarrow> nat" where
  "par_left ParClose = 3"
| "par_left ParWrite = 2"
| "par_left ParWait = 1"
| "par_left _ = 0"

fun chi_left :: "chi_pos \<Rightarrow> nat" where
  "chi_left ChiClose = 3"
| "chi_left ChiRead = 2"
| "chi_left (ChiPrint n b) = 1"
| "chi_left ChiDone = 0"

definition pipe_left :: "pipes \<Rightarrow> nat" where
  "pipe_left s = par_left (par s) + chi_left (chi s)"

lemma pipe_exec_left: "pipe_exec e s = Some s' \<Longrightarrow> pipe_left s' < pipe_left s"
  by (cases e; cases "par s"; cases "chi s")
    (auto simp: pipe_left_def testPipe_parent_def testPipe_child_def split: if_splits)

lemma pipe_enabled:
  assumes ok: "pipe_ok s" and left: "par s \<noteq> ParDone"
  shows "\<exists>e s'. pipe_exec e s = Some s'"
proof (cases "par s = ParWait \<and> chi s \<noteq> ChiDone")
  case True
  then have "\<exists>s'. pipe_exec Chi s = Some s'"
    using ok by (cases "chi s") (auto simp: testPipe_child_def pipe_ok_def)
  then show ?thesis by blast
next
  case False
  with ok left have "\<exists>s'. pipe_exec Par s = Some s'"
    by (cases "par s") (auto simp: testPipe_parent_def pipe_ok_def)
  then show ?thesis by blast
qed

lemma pipe_finishes:
  "pipe_ok s \<Longrightarrow> \<exists>es s'. pipe_run es s = Some s' \<and> pipe_ok s' \<and> par s' = ParDone"
  by (rule pipe_runs.run_finishes [where left = pipe_left])
    (auto intro: pipe_exec_ok pipe_exec_left pipe_enabled)

section \<open>The filter\<close>

definition pipe2_ok :: "bool \<Rightarrow> pipes2 \<Rightarrow> bool" where
  "pipe2_ok reads s \<longleftrightarrow>
     pbuf2 s = [] \<and> received s = [] \<and> (Chi \<in> readers2 s \<longleftrightarrow> chi2 s \<noteq> XEnd) \<and>
     (Par \<in> readers2 s \<longleftrightarrow> par2 s = WWait \<or> par2 s = WClose) \<and>
     (par2 s \<noteq> WWait \<longrightarrow> chi2 s = XEnd) \<and> par2 s \<noteq> WEnd \<and>
     (par2 s = WWait \<longrightarrow> Par \<in> writers2 s) \<and> (reads \<longrightarrow> chi2 s \<noteq> XEnd)"

lemma no_readers: "Par \<notin> A \<Longrightarrow> Chi \<notin> A \<Longrightarrow> A = {}"
proof -
  assume "Par \<notin> A" "Chi \<notin> A"
  then have "A \<subseteq> UNIV - {Par, Chi}" by blast
  then show ?thesis by (simp add: UNIV_who)
qed

lemma pipe2_exec_ok:
  assumes ok: "pipe2_ok reads s" and step: "pipe2_exec reads text1 e s = Some s'"
  shows "pipe2_ok reads s'"
proof (cases e)
  case Par
  show ?thesis
  proof (cases "par2 s")
    case WRun
    with ok have "readers2 s = {}" by (intro no_readers) (auto simp: pipe2_ok_def)
    with WRun Par step ok show ?thesis by (auto simp: pipe2_ok_def testPipe2_parent_def)
  qed (use ok step Par in \<open>auto simp: pipe2_ok_def testPipe2_parent_def split: if_splits\<close>)
next
  case Chi
  with ok step show ?thesis
    by (cases "chi2 s"; cases "par2 s") (auto simp: pipe2_ok_def testPipe2_child_def split: if_splits)
qed

interpretation pipe2_runs: plain_runs "pipe2_exec reads text1" "pipe2_run reads text1"
  by unfold_locales simp_all

lemma pipe2_run_ok:
  "pipe2_ok reads s \<Longrightarrow> pipe2_run reads text1 es s = Some s' \<Longrightarrow> pipe2_ok reads s'"
  by (rule pipe2_runs.run_invariant [OF pipe2_exec_ok])

lemma testPipe2_ok: "testPipe2 ret pid = Some s \<Longrightarrow> pipe2_ok reads s"
  by (auto simp: pipe2_ok_def testPipe2_def pipe2_start_def split: if_splits)

section \<open>The named pipe\<close>

definition fifo_ok :: "fifo \<Rightarrow> bool" where
  "fifo_ok s \<longleftrightarrow>
     openers s = (if fwriter s = FWWrite \<or> fwriter s = FWClose then 1 else 0) +
       (case freader s of FRRead \<Rightarrow> 1 | FRClose b \<Rightarrow> 1 | _ \<Rightarrow> 0) \<and>
     (fwriter s = FWOpen \<or> fwriter s = FWWrite \<longrightarrow>
       fbuf s = [] \<and> freader s \<in> {FROpen, FRRead, FRFailed}) \<and>
     (fbuf s = [] \<or> fbuf s = ''hello world'' \<and> freader s \<in> {FROpen, FRRead, FRFailed}) \<and>
     (case freader s of FRClose b \<Rightarrow> b = ''hello world'' | FRDone b \<Rightarrow> b = ''hello world'' | _ \<Rightarrow> True)"

lemmas fifo_defs = fifo_ok_def testFifoWrite_def testFifoRead_def fifo_close_def

lemma fifo_exec_ok:
  assumes ok: "fifo_ok s" and step: "fifo_exec e s = Some s'"
  shows "fifo_ok s'"
proof (cases e)
  case (Writes ret rest fd)
  with step have w: "testFifoWrite ret rest fd s = Some s'" by simp
  show ?thesis
  proof (cases "fwriter s")
    case FWOpen
    with w have "s' = s\<lparr>fwriter := FWDone\<rparr> \<or> s' = s\<lparr>openers := Suc (openers s), fwriter := FWWrite\<rparr>"
      by (auto simp: testFifoWrite_def split: if_splits)
    with ok FWOpen show ?thesis by (cases "freader s") (auto simp: fifo_ok_def)
  qed (use ok w in \<open>cases "freader s"; force simp: fifo_defs split: if_splits\<close>)+
next
  case (Reads fd)
  with step have r: "testFifoRead fd s = Some s'" by simp
  show ?thesis
  proof (cases "freader s")
    case FROpen
    with r have "s' = s\<lparr>freader := FRFailed\<rparr> \<or> s' = s\<lparr>openers := Suc (openers s), freader := FRRead\<rparr>"
      by (auto simp: testFifoRead_def split: if_splits)
    with ok FROpen show ?thesis by (cases "fwriter s") (auto simp: fifo_ok_def)
  qed (use ok r in \<open>cases "fwriter s"; force simp: fifo_defs split: if_splits\<close>)+
qed

interpretation fifo_runs: plain_runs fifo_exec fifo_events
  by unfold_locales simp_all

lemma fifo_events_ok: "fifo_ok s \<Longrightarrow> fifo_events es s = Some s' \<Longrightarrow> fifo_ok s'"
  by (rule fifo_runs.run_invariant [OF fifo_exec_ok])

lemma fifo_start_ok: "fifo_ok fifo_start"
  by (simp add: fifo_ok_def fifo_start_def)

section \<open>Mapped files\<close>

lemma mmap_length: "mmap file = Some mem \<Longrightarrow> PAGE \<le> length mem \<and> take (length file) mem = file"
proof -
  assume m: "mmap file = Some mem"
  then have f: "file \<noteq> []" "mem = file @ replicate ((PAGE - length file mod PAGE) mod PAGE) NUL"
    by (auto simp: mmap_def split: if_splits)
  let ?n = "length file"
  have "PAGE \<le> ?n + (PAGE - ?n mod PAGE) mod PAGE"
  proof (cases "?n mod PAGE = 0")
    case True
    then have "PAGE dvd ?n" by presburger
    with f(1) show ?thesis by (auto dest: dvd_imp_le)
  next
    case False
    then have "(PAGE - ?n mod PAGE) mod PAGE = PAGE - ?n mod PAGE" by (simp add: PAGE_def)
    moreover have "?n mod PAGE \<le> ?n" "?n mod PAGE < PAGE" by (simp_all add: PAGE_def)
    ultimately show ?thesis by linarith
  qed
  with f show ?thesis by simp
qed

lemma takeWhile_zeros:
  "takeWhile (\<lambda>c. c \<noteq> NUL) (xs @ replicate k NUL) = takeWhile (\<lambda>c. c \<noteq> NUL) xs"
  by (induction xs) (cases k, simp_all)

lemma memcpy_result:
  "PAGE \<le> length mem \<Longrightarrow> memcpy_hello mem = Inr (''hello world'' @ drop 11 mem)"
proof -
  assume "PAGE \<le> length mem"
  moreover have "length ''hello world'' = 11" by simp
  ultimately show ?thesis
    by (simp only: memcpy_hello_def store_def overwrite_def PAGE_def) simp
qed

section \<open>Properties\<close>

text \<open>C33: whatever the order of the two processes, the child reads the text without its last letter,
  because the parent takes the length of another text; the parent is never ended by SIGPIPE; and every
  run can be continued until both have finished.\<close>

theorem pipe_delivers_prefix:
  assumes "testPipe ret pid = Some s0" and "pipe_run es s0 = Some s"
  shows "par s \<noteq> ParKilled \<and> (read_over s = None \<or> read_over s = Some (10, ''hello worl'')) \<and>
    (\<exists>es' s'. pipe_run es' s = Some s' \<and> par s' = ParDone \<and> read_over s' = Some (10, ''hello worl''))"
proof -
  have ok: "pipe_ok s" using pipe_run_ok [OF testPipe_ok [OF assms(1)] assms(2)] .
  from pipe_finishes [OF ok] obtain es' s' where
    run: "pipe_run es' s = Some s'" "par s' = ParDone" "pipe_ok s'" by blast
  from run(2,3) have "read_over s' = Some (10, ''hello worl'')"
    by (auto simp: pipe_ok_def)
  with run ok show ?thesis by (auto simp: pipe_ok_def)
qed

theorem pipe_delivers_prefix_witness:
  "\<exists>s. pipe_run [Chi, Par, Par] pipe_start = Some s \<and>
     (\<exists>es' s'. pipe_run es' s = Some s' \<and> read_over s' = Some (10, ''hello worl''))"
proof -
  have "testPipe 0 7 = Some pipe_start" by (simp add: testPipe_def)
  moreover have "\<exists>s. pipe_run [Chi, Par, Par] pipe_start = Some s"
    by (simp add: pipe_start_def testPipe_parent_def testPipe_child_def)
  ultimately show ?thesis using pipe_delivers_prefix by blast
qed

text \<open>the output of \<open>ps\<close> is never filtered: the parent waits for its child before it writes, so that a
  child that reads its input waits for ever, and one that does not has ended when the parent writes,
  which then dies of SIGPIPE.\<close>

theorem pipe2_filters_nothing:
  assumes "testPipe2 ret pid = Some s0" and "pipe2_run reads text1 es s0 = Some s"
  shows "received s = [] \<and> par2 s \<noteq> WEnd \<and> (if reads then par2 s = WWait else True)"
  using pipe2_run_ok [OF testPipe2_ok [OF assms(1)] assms(2)] by (auto simp: pipe2_ok_def)

theorem pipe2_filters_nothing_witness:
  "\<exists>s. pipe2_run False ''PID'' [Chi, Chi, Chi, Par, Par, Par, Par] pipe2_start = Some s \<and>
     received s = [] \<and> par2 s = WKilled \<and> par2 s \<noteq> WEnd"
proof -
  have "testPipe2 0 7 = Some pipe2_start" by (simp add: testPipe2_def)
  moreover have "\<exists>s. pipe2_run False ''PID'' [Chi, Chi, Chi, Par, Par, Par, Par] pipe2_start = Some s \<and>
     par2 s = WKilled"
    by (simp add: pipe2_start_def testPipe2_parent_def testPipe2_child_def insert_Diff_if)
  ultimately show ?thesis using pipe2_filters_nothing by blast
qed

text \<open>a reader of the named pipe gets the whole message or waits; but the message is lost when the
  writer has closed the pipe before a reader has opened it, and the reader then waits for ever.\<close>

theorem fifo_whole_or_waits:
  assumes "fifo_events es fifo_start = Some s"
  shows "(case freader s of FRClose b \<Rightarrow> b = ''hello world'' | FRDone b \<Rightarrow> b = ''hello world'' | _ \<Rightarrow> True) \<and>
    (\<exists>t. fifo_events [Writes 0 0 3, Writes 0 0 3, Writes 0 0 3, Reads 3] fifo_start = Some t \<and>
       (\<forall>e. fifo_exec e t = None) \<and> freader t = FRRead)"
proof
  show "case freader s of FRClose b \<Rightarrow> b = ''hello world'' | FRDone b \<Rightarrow> b = ''hello world'' | _ \<Rightarrow> True"
    using fifo_events_ok [OF fifo_start_ok assms] by (simp add: fifo_ok_def)
  let ?t = "\<lparr>fbuf = [], openers = 1, fwriter = FWDone, freader = FRRead\<rparr>"
  have "fifo_events [Writes 0 0 3, Writes 0 0 3, Writes 0 0 3, Reads 3] fifo_start = Some ?t"
    by (simp add: fifo_start_def testFifoWrite_def testFifoRead_def fifo_close_def)
  moreover have "fifo_exec e ?t = None" for e
    by (cases e) (simp_all add: testFifoWrite_def testFifoRead_def)
  ultimately show "\<exists>t. fifo_events [Writes 0 0 3, Writes 0 0 3, Writes 0 0 3, Reads 3] fifo_start = Some t \<and>
       (\<forall>e. fifo_exec e t = None) \<and> freader t = FRRead"
    by (intro exI [of _ ?t]) simp
qed

theorem fifo_whole_or_waits_witness:
  "\<exists>s. fifo_events [Reads 3, Writes 0 0 4, Writes 0 0 4, Reads 3] fifo_start = Some s \<and> freader s = FRClose ''hello world'' \<and>
     (\<exists>t. fifo_events [Writes 0 0 3, Writes 0 0 3, Writes 0 0 3, Reads 3] fifo_start = Some t \<and> freader t = FRRead)"
proof -
  have "\<exists>s. fifo_events [Reads 3, Writes 0 0 4, Writes 0 0 4, Reads 3] fifo_start = Some s \<and> freader s = FRClose ''hello world''"
    by (simp add: fifo_start_def testFifoWrite_def testFifoRead_def)
  then show ?thesis using fifo_whole_or_waits by blast
qed

text \<open>writing through the mapping replaces the front of the file by as much of the text as the file
  is long, and never changes its length; it does not fault, since a mapping has whole pages.\<close>

theorem mapped_file_updated:
  assumes "0 \<le> fd" and "file \<noteq> []"
  shows "\<exists>file'. testMmap2 fd file = Inr (Some file') \<and> length file' = length file \<and>
    file' = take (length file) (''hello world'' @ drop 11 file)"
proof -
  from assms(2) obtain mem where m: "mmap file = Some mem" by (simp add: mmap_def)
  from mmap_length [OF m] have len: "PAGE \<le> length mem" "take (length file) mem = file" by auto
  define n where "n = length file"
  have "n \<le> length mem" using len(2) unfolding n_def by (metis length_take min.cobounded1 min_def)
  have hello: "length ''hello world'' = 11" by simp
  have "take n (''hello world'' @ drop 11 mem) = take n (''hello world'' @ drop 11 file)"
    using len(2) unfolding take_append hello n_def
    by (simp add: take_drop [symmetric] drop_take [symmetric])
  with memcpy_result [OF len(1)] m assms(1) have "testMmap2 fd file = Inr (Some (take n (''hello world'' @ drop 11 file)))"
    by (simp add: testMmap2_def map_file_def synced_def n_def)
  moreover have "length (take n (''hello world'' @ drop 11 file)) = n"
    by (simp add: n_def)
  ultimately show ?thesis by (simp add: n_def)
qed

theorem mapped_file_updated_witness:
  "testMmap2 3 ''some older text'' = Inr (Some ''hello worldtext'') \<and> testMmap2 3 ''short'' = Inr (Some ''hello'')"
  using mapped_file_updated [of 3 "''some older text''"] mapped_file_updated [of 3 "''short''"] by auto

text \<open>printing the mapping as a string reads behind it exactly when the file fills its last page and
  holds no NUL; otherwise the text up to the first NUL is printed.\<close>

theorem mapped_file_print:
  assumes "0 \<le> fd" and "file \<noteq> []"
  shows "testMmap3 fd file =
    (if length file mod PAGE = 0 \<and> NUL \<notin> set file then Inl OutOfBounds
     else Inr (Some (takeWhile (\<lambda>c. c \<noteq> NUL) file)))"
proof -
  define k where "k = (PAGE - length file mod PAGE) mod PAGE"
  have mem: "mmap file = Some (file @ replicate k NUL)" using assms(2) by (simp add: mmap_def k_def)
  have k: "k = 0 \<longleftrightarrow> length file mod PAGE = 0"
  proof (cases "length file mod PAGE = 0")
    case False
    moreover have "length file mod PAGE < PAGE" by (simp add: PAGE_def)
    ultimately show ?thesis by (simp add: k_def)
  qed (simp add: k_def)
  have "takeWhile (\<lambda>c. c \<noteq> NUL) (file @ replicate k NUL) = takeWhile (\<lambda>c. c \<noteq> NUL) file"
    by (rule takeWhile_zeros)
  with mem k assms(1) show ?thesis by (auto simp: testMmap3_def map_file_def print_text_def c_string_def)
qed

theorem mapped_file_print_witness:
  "testMmap3 3 ''text'' = Inr (Some ''text'')"
  using mapped_file_print [of 3 "''text''"] by (simp add: PAGE_def NUL_def)

end
