(* ===== verification/Spec2Isabelle.thy ===== *)
theory Spec2Isabelle
  imports LinkList_Props ThreadPool_Props ThreadPoolSimple_Props Pub_Props Wrap_Props
    Lock_Props Semaphore_Props WebServer_Props WebLog_Props Web_System_Props Echo_Props
    Thread_Demo_Props Thread_Join_Props Signals_Props Timers_Props Ipc_Props
begin

text \<open>
  A verification library for the C programs of this repository: a linked list, two thread pools,
  the lock and semaphore demonstrations that share the list, the socket wrappers, a small web
  server with its helpers and its log, the echo servers over sockets and over the event library, and
  the demonstrations of threads, signals, pipes and mapped files.

  \<^bold>\<open>The program.\<close> The repository is a collection of programs chosen by \<open>main.c\<close>.
  \<^item> \<open>pipe/linkList.c\<close> is a singly linked list with a header node. \<open>pipe/lock.c\<close> shares one such list
    between producers and consumers, first under a mutex with a condition variable, then under two
    semaphores; a third demonstration shares a counter under a read-write lock.
  \<^item> \<open>thread/threadpool.c\<close> is a pool with a ring of tasks, workers that come and go, a manager that
    adapts their number, and two condition variables. \<open>thread/threadpoolsimple.c\<close> is a pool of fixed
    size with a ring of tasks that are copied out before they run.
  \<^item> \<open>socket/wrap.c\<close> wraps the socket calls and adds \<open>Readn\<close>, \<open>Writen\<close> and the buffered
    \<open>Readline\<close>. \<open>web/pub.c\<close> has the mime types, the coding of URLs and \<open>get_line\<close>. \<open>web/webserver.c\<close>
    answers HTTP requests with both, in the loop of an event library. \<open>web/log.c\<close> writes the log files.
  \<^item> \<open>socket/socket.c\<close>, \<open>socket/local_socket.c\<close>, \<open>udp/udp.c\<close> and \<open>libevent/*.c\<close> are servers that send
    back what they get in upper case, and their clients: one client, a process or a thread for each,
    \<open>select\<close>, datagrams, event callbacks.
  \<^item> \<open>pipe/thread.c\<close>, \<open>pipe/signal.c\<close>, \<open>pipe/pipe.c\<close>, \<open>pipe/fifo.c\<close> and \<open>pipe/mmap.c\<close> are demonstrations of one
    system facility each.

  \<^bold>\<open>The theories.\<close> Each component has a theory with its definitions (named after the C functions),
  in most cases one \<open>_Correct\<close> with the invariants and lemmas, and one \<open>_Props\<close> with the properties
  and their instances.
  \<^item> \<open>C_Base\<close>: how C code ends (\<open>'a res\<close>: a value or a \<open>c_error\<close>; \<open>'a run\<close>: also not at all), \<open>int\<close>
    arithmetic with overflow as a fault, arrays with bounds, and generic list lemmas.
  \<^item> \<open>Event_Runs\<close>: the locales \<open>fallible_runs\<close> and \<open>plain_runs\<close>, what holds of the runs of any system of
    steps; the event loops, the interleaved processes and the threads below interpret them.
  \<^item> \<open>Node_Heap\<close>: the store of list nodes with \<open>malloc\<close> and \<open>free\<close>; addresses are never reused, so a
    use after free is a fault. \<open>LinkList\<close>, \<open>LinkList_Correct\<close>, \<open>LinkList_Props\<close>: every function of
    \<open>linkList.c\<close>; \<open>list_at h H ns\<close> relates the store to the sequence \<open>ns\<close> of its nodes, and each
    operation is shown to be the corresponding operation on sequences.
  \<^item> \<open>Task_Queue\<close>: the locale \<open>bounded_fifo\<close>, the contract of a bounded queue, with the lemmas both
    pools use; it is interpreted on the ring of either pool.
  \<^item> \<open>ThreadPool\<close> has the operations of \<open>threadpool.c\<close> on the pool's record; \<open>ThreadPool_Sys\<close> the system
    of its workers, callers, manager and destroyer, one event per critical section; \<open>_Correct\<close> its
    invariant over all reachable states, \<open>ThreadPool_Wakeup\<close> the invariant that no wake-up is lost,
    \<open>ThreadPool_Drain\<close> that the workers can always bring the accepted tasks to their end and which
    thread ids the pool holds, \<open>_Props\<close> the properties.
  \<^item> \<open>ThreadPoolSimple\<close>, \<open>_Correct\<close>, \<open>_Props\<close>: the same for \<open>threadpoolsimple.c\<close>.
  \<^item> \<open>Lock\<close>, \<open>Lock_Correct\<close>, \<open>Lock_Props\<close>: the read-write lock and the mutex of \<open>lock.c\<close>; a region under
    the mutex is one step, everything outside it is a step of its own. \<open>Semaphore\<close> and
    \<open>Semaphore_Props\<close>: the semaphore version, where every access to the list is a step.
  \<^item> \<open>Wrap\<close>, \<open>Wrap_Correct\<close>, \<open>Wrap_Props\<close>: \<open>wrap.c\<close> against scripts of kernel answers (data in pieces
    of any size, interruptions, errors, end of file). \<open>Pub\<close>, \<open>Pub_Correct\<close>, \<open>Pub_Props\<close>: \<open>pub.c\<close> over
    arrays of characters.
  \<^item> \<open>WebServer\<close>, \<open>WebServer_Correct\<close>, \<open>WebServer_Props\<close>: the request callback of \<open>webserver.c\<close> over \<open>Wrap\<close>
    and \<open>Pub\<close>, the file system as a parameter. \<open>Web_System\<close>, \<open>Web_System_Props\<close>: its set-up and its
    event loop, all clients at once over the one buffer of \<open>my_read\<close>. \<open>WebLog\<close>, \<open>WebLog_Props\<close>: \<open>log.c\<close>.
  \<^item> \<open>Echo\<close>: the servers and clients of \<open>socket.c\<close>, \<open>local_socket.c\<close> and \<open>udp.c\<close>; a socket is what will
    arrive on it, what its peer has received, and whether it is open. \<open>Libevent\<close>: the callbacks, loops
    and set-up of \<open>libevent/*.c\<close>. \<open>Echo_Correct\<close>: the locale \<open>echo_service\<close>, the contract of one echo
    callback, interpreted on the callback of \<open>libevent.c\<close> and, for every buffer library with the
    documented laws, on that of \<open>hello-world.c\<close>. \<open>Select\<close>, \<open>Select_Correct\<close>: the \<open>select\<close> server, one
    turn of its loop at a time, and its invariant. \<open>Echo_Props\<close>: the properties of all of them.
  \<^item> \<open>Thread_Demo\<close>, \<open>Thread_Demo_Correct\<close>, \<open>Thread_Demo_Props\<close>: the counting threads of \<open>thread.c\<close>, one
    step per statement, and the threads that get a pointer into their creator's frame. \<open>Thread_Join\<close>,
    \<open>Thread_Join_Props\<close>: the rest of \<open>thread.c\<close>, exit values, detached and cancelled threads.
  \<^item> \<open>Signals\<close>, \<open>Signals_Props\<close>: \<open>testSigchld\<close> and \<open>testSigchld2\<close> of \<open>signal.c\<close>. \<open>Timers\<close>,
    \<open>Timers_Props\<close>: its alarms, timers, daemon and nested handlers, over a clock of seconds. \<open>Ipc\<close>, \<open>Ipc_Props\<close>: \<open>pipe.c\<close>,
    \<open>fifo.c\<close> and \<open>mmap.c\<close>.

  \<^bold>\<open>What is shown.\<close> For the pools: in every interleaving each task is in the queue, in one worker's
  hands, or done; the queue and the thread count stay in their bounds, the counter of the busy
  workers is exact and that of the live ones off by the failed creations, no wake-up is lost unless a
  worker retires, what has been accepted can be finished while there is a worker; the only faults are
  the use of the pool after it has been freed, and the manager's question for a thread id that is no
  longer, or never was, a thread's. For the list: each function computes the operation its name says,
  with the memory it leaves. For the locks: the mutex keeps the list well formed and loses no wake-up;
  the semaphores never leave all threads waiting, but do not protect the list. For the counting
  threads: they print 10000 in every interleaving, always finish, and refine a counter that is
  incremented atomically. For the wrappers and helpers: lines and blocks are delivered whole however
  the kernel cuts them, URLs survive coding and decoding, buffers are not overrun. For the web server:
  a well-formed request is answered with header and file when the socket takes the writes whole, no
  client's bytes reach another one, and only a failing \<open>event_new\<close> or a request line with an overlong
  word ends the service. For the echo servers: what goes out is what came in, in upper case and in
  order, for each client, as long as no read fills the buffer, because the buffer is then printed
  without its terminator; the \<open>select\<close> server watches and reads the right clients, but answers the
  wrong one. For the signals: no ended child is forgotten or reported twice, the numbers are printed
  in order, and the alarms ring when they should. For all of them: the inputs or the schedules on
  which the code fails, proved as such.

  \<^bold>\<open>Assumptions and bounds.\<close> \<open>int\<close> has 32 bits, \<open>char\<close> is signed, a page has 4096 bytes. The functions
  of \<open>ctype.h\<close> work in the C locale; C leaves them undefined for the negative values that the code
  passes for bytes above 127, and the models take the answer of glibc, which is no; the properties of
  \<open>strencode\<close> are stated for ASCII texts. A script of kernel answers is finite; after its end a read
  reports end of file and a write takes everything, so that the loops over it end without fuel. The
  servers' endless loops take a list of events, one per turn. Loops that need not end (over a list
  that may be cyclic, over a line source that may not dry up) are partial functions, and their
  properties state that they return; an \<open>Accept\<close> that the kernel never answers does not. A critical
  section is atomic; a single unlocked read of a counter is atomic too. A mutex destroyed while it is
  locked behaves as in glibc. \<open>pthread_create\<close> may fail in \<open>threadpool.c\<close>, and then leaves any value in
  the place of the id; \<open>pthread_kill\<close> is undefined for such a value and for the id of a detached
  thread that has ended, and for a joinable one that has ended it answers 0 or \<open>ESRCH\<close>. A signal is
  pending or not, it is not counted. \<open>sleep\<close> orders nothing, except in \<open>Timers\<close>, where it makes time
  pass. The event library is a parameter: the order of its events, the success of its constructors,
  and the reading and writing of its buffers.

  \<^bold>\<open>What is not modelled.\<close> The text printed to the console, except values a property speaks
  about; but that \<open>printf\<close> needs the terminator of what it prints is modelled (\<open>print_text\<close>).
  The demonstration mains of the pools; \<open>testOffsets\<close>, which prints the layout of a structure;
  \<open>conn_writecb\<close>, which only prints; the session, the working directory and the file mask of the
  daemon. \<open>main.c\<close>, the SQL files, the documents and the
  files under \<open>web/webpath\<close> hold no logic of their own.
\<close>

end
